(* ===== verification/Prelude.thy ===== *)
theory Prelude
  imports Main "HOL-Library.AList" "HOL-Library.State_Monad"
begin

text \<open>
  The shared vocabulary of the development: the names of the model's basic types, the
  theorem collections the component proofs draw on, and the generic facts about lists,
  options, association lists and the state monad that several components need.

  A Go \<open>string\<close> and a Go \<open>[]byte\<close> are both sequences of bytes; both are modelled by HOL's
  \<open>string\<close> (a list of 8-bit characters). An \<open>int\<close> or \<open>int64\<close> of the code is an \<open>int\<close> with the
  wrap-around written out by \<open>int64\<close> wherever the code computes with a value that can
  overflow. A Go map is an association list read by \<open>map_of\<close>, because the code iterates
  over its maps and the iteration order is not fixed by the language.
\<close>

type_synonym bytes = string
type_synonym path = string
type_synonym token = string
type_synonym nanos = int

text \<open>
  \<open>go_std\<close> collects the unfoldings of the modelled standard library functions, \<open>handler_defs\<close>
  the definitions of the request handlers, \<open>run_simps\<close> the rules that execute a handler.
\<close>

named_theorems go_std "definitions of the modelled standard library functions"
named_theorems handler_defs "definitions of the request handlers"
named_theorems run_simps "rules that execute a handler over a world"

section \<open>Machine integers\<close>

text \<open>Two's complement wrap-around of a 64-bit signed integer.\<close>

definition int64 :: "int \<Rightarrow> int" where
  "int64 x = (x + 2 ^ 63) mod 2 ^ 64 - 2 ^ 63"

lemma int64_id [simp]:
  assumes "- (2 ^ 63) \<le> x" and "x < 2 ^ 63"
  shows "int64 x = x"
proof -
  have "(x + 2 ^ 63) mod 2 ^ 64 = x + 2 ^ 63"
    using assms by (intro mod_pos_pos_trivial) simp_all
  then show ?thesis by (simp add: int64_def)
qed

lemma int64_lower: "- (2 ^ 63) \<le> int64 x"
  by (simp add: int64_def)

lemma int64_upper: "int64 x < 2 ^ 63"
proof -
  have "(x + 2 ^ 63) mod 2 ^ 64 < 2 ^ 64" by (rule pos_mod_bound) simp
  then show ?thesis by (simp add: int64_def)
qed

section \<open>Lists\<close>

lemma butlast_subset_set: "x \<in> set (butlast xs) \<Longrightarrow> x \<in> set xs"
  by (rule in_set_butlastD)

lemma take_eq_prefix_iff: "take (length p) s = p \<longleftrightarrow> (\<exists>t. s = p @ t)"
  by (metis append_eq_conv_conj append_take_drop_id)

section \<open>Association lists\<close>

lemma map_of_filter_key:
  "map_of (filter (\<lambda>(k, v). P k) xs) k = (if P k then map_of xs k else None)"
  by (induction xs) auto

lemma distinct_fst_filter:
  "distinct (map fst xs) \<Longrightarrow> distinct (map fst (filter P xs))"
  by (induction xs) auto

lemma map_of_eq_Some_distinct:
  "distinct (map fst xs) \<Longrightarrow> map_of xs k = Some v \<longleftrightarrow> (k, v) \<in> set xs"
  by (rule map_of_eq_Some_iff)

section \<open>The state monad\<close>

text \<open>
  \<open>gets\<close> reads a projection of the state, as in the code's field reads.
\<close>

definition gets :: "('s \<Rightarrow> 'a) \<Rightarrow> ('s, 'a) state" where
  "gets f = State (\<lambda>s. (f s, s))"

lemma run_gets [simp]: "run_state (gets f) s = (f s, s)"
  by (simp add: gets_def)

lemma run_update [simp]: "run_state (State_Monad.update f) s = ((), f s)"
  by (simp add: State_Monad.update_def)

lemma run_map_state: "run_state (map_state f m) s = (case run_state m s of (a, s') \<Rightarrow> (f a, s'))"
  by (cases m) (simp add: map_prod_def)

end
