(* ===== verification/GoText.thy ===== *)
theory GoText
  imports GoStrings "HOL-Library.Char_ord"
begin

text \<open>
  Case conversion, white-space trimming and decimal numbers: the remaining pieces of
  \<open>strings\<close> and \<open>strconv\<close> that the header parsers call.
\<close>

section \<open>Case conversion\<close>

definition is_upper :: "char \<Rightarrow> bool" where
  "is_upper c \<longleftrightarrow> 65 \<le> (of_char c :: nat) \<and> (of_char c :: nat) \<le> 90"

definition is_lower :: "char \<Rightarrow> bool" where
  "is_lower c \<longleftrightarrow> 97 \<le> (of_char c :: nat) \<and> (of_char c :: nat) \<le> 122"

definition lower_char :: "char \<Rightarrow> char" where
  "lower_char c = (if is_upper c then char_of ((of_char c :: nat) + 32) else c)"

definition upper_char :: "char \<Rightarrow> char" where
  "upper_char c = (if is_lower c then char_of ((of_char c :: nat) - 32) else c)"

text \<open>
  Replaces each occurrence of a code point outside ASCII by the ASCII letter it is mapped
  to, and every other byte by its image; the table lists the UTF-8 encodings.
\<close>

function map_runes :: "(string \<times> char) list \<Rightarrow> (char \<Rightarrow> char) \<Rightarrow> string \<Rightarrow> string" where
  "map_runes tab f s =
     (case s of
        [] \<Rightarrow> []
      | c # s' \<Rightarrow>
          (case find (\<lambda>(u, a). u \<noteq> [] \<and> has_prefix s u) tab of
             Some (u, a) \<Rightarrow> a # map_runes tab f (drop (length u) s)
           | None \<Rightarrow> f c # map_runes tab f s'))"
  by pat_completeness auto
termination
  by (relation "measure (\<lambda>(tab, f, s). length s)") (auto simp: find_Some_iff)

declare map_runes.simps [simp del]

text \<open>Dotted capital I (U+0130) and the Kelvin sign (U+212A) lower to ASCII letters.\<close>

definition to_lower :: "string \<Rightarrow> string" where
  "to_lower = map_runes
     [([CHR 0xC4, CHR 0xB0], CHR ''i''), ([CHR 0xE2, CHR 0x84, CHR 0xAA], CHR ''k'')] lower_char"

text \<open>Dotless i (U+0131) and the long s (U+017F) have ASCII capitals.\<close>

definition to_upper :: "string \<Rightarrow> string" where
  "to_upper = map_runes
     [([CHR 0xC4, CHR 0xB1], CHR ''I''), ([CHR 0xC5, CHR 0xBF], CHR ''S'')] upper_char"

text \<open>Simple case folding joins the Kelvin sign with \<open>k\<close> and the long s with \<open>s\<close>.\<close>

definition fold_case :: "string \<Rightarrow> string" where
  "fold_case = map_runes
     [([CHR 0xE2, CHR 0x84, CHR 0xAA], CHR ''k''), ([CHR 0xC5, CHR 0xBF], CHR ''s'')] lower_char"

definition equal_fold :: "string \<Rightarrow> string \<Rightarrow> bool" where
  "equal_fold s t \<longleftrightarrow> fold_case s = fold_case t"

lemma equal_fold_refl [simp]: "equal_fold s s"
  by (simp add: equal_fold_def)

lemma map_runes_Nil [simp]: "map_runes tab f [] = []"
  by (simp add: map_runes.simps)

lemma map_runes_Cons [simp]:
  "map_runes tab f (c # s) =
     (case find (\<lambda>(u, a). u \<noteq> [] \<and> has_prefix (c # s) u) tab of
        Some (u, a) \<Rightarrow> a # map_runes tab f (drop (length u) (c # s))
      | None \<Rightarrow> f c # map_runes tab f s)"
  by (simp add: map_runes.simps [of tab f "c # s"])

lemma map_runes_ascii:
  assumes "\<forall>c \<in> set s. (of_char c :: nat) < 128"
    and "\<forall>(u, a) \<in> set tab. u \<noteq> [] \<and> (of_char (hd u) :: nat) \<ge> 128"
  shows "map_runes tab f s = map f s"
  using assms(1)
proof (induction s)
  case (Cons c s)
  have "\<not> has_prefix (c # s) u" if "(u, a) \<in> set tab" for u a
  proof
    assume "has_prefix (c # s) u"
    moreover from that assms(2) have "u \<noteq> []" "128 \<le> (of_char (hd u) :: nat)" by auto
    ultimately have "hd u = c" by (cases u) simp_all
    with \<open>128 \<le> of_char (hd u)\<close> Cons.prems show False by simp
  qed
  then have "find (\<lambda>(u, a). u \<noteq> [] \<and> has_prefix (c # s) u) tab = None"
    by (auto simp: find_None_iff)
  with Cons show ?case by simp
qed simp

text \<open>No entry of the tables crosses the boundary before an ASCII byte.\<close>

lemma has_prefix_before_ascii:
  assumes "\<forall>c \<in> set u. 128 \<le> (of_char c :: nat)" and "(of_char x :: nat) < 128"
  shows "has_prefix (s @ x # t) u \<longleftrightarrow> has_prefix s u"
proof
  assume "has_prefix (s @ x # t) u"
  then obtain v where v: "s @ x # t = u @ v" by (auto simp: has_prefix_iff)
  have "length u \<le> length s"
  proof (rule ccontr)
    assume "\<not> length u \<le> length s"
    then have "x = u ! length s" using v by (metis not_le nth_append nth_append_length)
    then have "x \<in> set u" using \<open>\<not> length u \<le> length s\<close> by simp
    then show False using assms by fastforce
  qed
  then show "has_prefix s u" using v by (auto simp: has_prefix_iff append_eq_append_conv2)
next
  assume "has_prefix s u"
  then show "has_prefix (s @ x # t) u" by (auto simp: has_prefix_iff)
qed

lemma map_runes_split:
  assumes "\<forall>(u, a) \<in> set tab. \<forall>c \<in> set u. 128 \<le> (of_char c :: nat)" and "(of_char x :: nat) < 128"
  shows "map_runes tab f (s @ x # t) = map_runes tab f s @ map_runes tab f (x # t)"
proof (induction "length s" arbitrary: s rule: less_induct)
  case less
  show ?case
  proof (cases s)
    case (Cons c s')
    have same: "find (\<lambda>(u, a). u \<noteq> [] \<and> has_prefix (s @ x # t) u) tab = find (\<lambda>(u, a). u \<noteq> [] \<and> has_prefix s u) tab"
      by (rule find_cong) (use assms has_prefix_before_ascii in \<open>auto simp del: map_runes_Cons\<close>)
    note step = map_runes.simps [of tab f "c # s'"] map_runes.simps [of tab f "c # s' @ x # t"]
    show ?thesis
    proof (cases "find (\<lambda>(u, a). u \<noteq> [] \<and> has_prefix s u) tab")
      case None
      have "map_runes tab f (s' @ x # t) = map_runes tab f s' @ map_runes tab f (x # t)"
        by (rule less.hyps) (simp add: Cons)
      then show ?thesis using None same Cons by (simp only: step append_Cons list.case option.case)
    next
      case (Some ua)
      obtain u a where ua: "ua = (u, a)" by (cases ua)
      then have u: "u \<noteq> []" "has_prefix s u" using Some by (auto simp: find_Some_iff)
      have "map_runes tab f (drop (length u) s @ x # t) =
          map_runes tab f (drop (length u) s) @ map_runes tab f (x # t)"
        by (rule less.hyps) (use u Cons in simp)
      moreover have "drop (length u) (s @ x # t) = drop (length u) s @ x # t"
        using u by (auto simp: has_prefix_iff)
      ultimately show ?thesis using Some same Cons ua
        by (simp only: step append_Cons list.case option.case prod.case)
    qed
  qed simp
qed

section \<open>Trimming\<close>

text \<open>The UTF-8 encodings of the code points \<open>unicode.IsSpace\<close> accepts.\<close>

definition unicode_spaces :: "string list" where
  "unicode_spaces =
     [[CHR 0x09], [CHR 0x0A], [CHR 0x0B], [CHR 0x0C], [CHR 0x0D], [CHR 0x20],
      [CHR 0xC2, CHR 0x85], [CHR 0xC2, CHR 0xA0], [CHR 0xE1, CHR 0x9A, CHR 0x80]] @
     map (\<lambda>n. [CHR 0xE2, CHR 0x80, char_of (n :: nat)]) ([128..<139] @ [168, 169, 175]) @
     [[CHR 0xE2, CHR 0x81, CHR 0x9F], [CHR 0xE3, CHR 0x80, CHR 0x80]]"

lemma unicode_spaces_not_Nil: "u \<in> set unicode_spaces \<Longrightarrow> u \<noteq> []"
  by (auto simp: unicode_spaces_def)

lemma find_space_shrinks:
  assumes "find P unicode_spaces = Some u" and "\<And>v. P v \<Longrightarrow> length v \<le> length s"
  shows "length s - length u < length s"
proof -
  from assms(1) have "u \<in> set unicode_spaces" and "P u" by (auto simp: find_Some_iff)
  then have "0 < length u" and "length u \<le> length s"
    using assms(2) unicode_spaces_not_Nil by auto
  then show ?thesis by linarith
qed

lemma has_prefix_length: "has_prefix s p \<Longrightarrow> length p \<le> length s"
  by (auto simp: has_prefix_iff)

lemma has_suffix_length: "has_suffix s p \<Longrightarrow> length p \<le> length s"
  by (auto simp: has_suffix_iff)

function trim_left :: "string \<Rightarrow> string" where
  "trim_left s =
     (case find (has_prefix s) unicode_spaces of
        Some u \<Rightarrow> trim_left (drop (length u) s)
      | None \<Rightarrow> s)"
  by pat_completeness auto
termination
  by (relation "measure length")
     (auto dest!: find_space_shrinks [OF _ has_prefix_length])

function trim_right :: "string \<Rightarrow> string" where
  "trim_right s =
     (case find (has_suffix s) unicode_spaces of
        Some u \<Rightarrow> trim_right (take (length s - length u) s)
      | None \<Rightarrow> s)"
  by pat_completeness auto
termination
  by (relation "measure length")
     (auto dest!: find_space_shrinks [OF _ has_suffix_length])

declare trim_left.simps [simp del] trim_right.simps [simp del]

definition trim_space :: "string \<Rightarrow> string" where
  "trim_space s = trim_right (trim_left s)"

lemma find_space_Nil:
  "find (has_prefix []) unicode_spaces = None" "find (has_suffix []) unicode_spaces = None"
  by (auto simp: find_None_iff has_prefix_def has_suffix_def dest: unicode_spaces_not_Nil)

lemma trim_space_Nil [simp]: "trim_space [] = []"
  by (simp add: trim_space_def trim_left.simps [of "[]"] trim_right.simps [of "[]"] find_space_Nil)

section \<open>Decimal numbers\<close>

definition is_digit :: "char \<Rightarrow> bool" where
  "is_digit c \<longleftrightarrow> 48 \<le> (of_char c :: nat) \<and> (of_char c :: nat) \<le> 57"

definition digit_val :: "char \<Rightarrow> nat" where
  "digit_val c = of_char c - 48"

definition digit_char :: "nat \<Rightarrow> char" where
  "digit_char d = char_of (48 + d)"

definition digits_val :: "string \<Rightarrow> nat option" where
  "digits_val s =
     (if s \<noteq> [] \<and> (\<forall>c \<in> set s. is_digit c)
      then Some (foldl (\<lambda>n c. 10 * n + digit_val c) 0 s) else None)"

text \<open>
  \<open>strconv.ParseInt(s, 10, 64)\<close>, which is also \<open>strconv.Atoi\<close> where an \<open>int\<close> has 64 bits:
  an optional sign, at least one digit, and a value the type holds; anything else is an error.
\<close>

definition parse_int :: "string \<Rightarrow> int option" where
  "parse_int s =
     (let neg = has_prefix s ''-'';
          ds = (if neg \<or> has_prefix s ''+'' then drop 1 s else s)
      in case digits_val ds of
           None \<Rightarrow> None
         | Some n \<Rightarrow>
             if neg then (if int n \<le> 2 ^ 63 then Some (- int n) else None)
             else (if int n < 2 ^ 63 then Some (int n) else None))"

text \<open>\<open>strconv.FormatUint(n, 10)\<close>, and \<open>strconv.Itoa\<close> for any sign.\<close>

fun format_nat :: "nat \<Rightarrow> string" where
  "format_nat n = (if n < 10 then [digit_char n] else format_nat (n div 10) @ [digit_char (n mod 10)])"

declare format_nat.simps [simp del]

definition format_int :: "int \<Rightarrow> string" where
  "format_int i = (if i < 0 then CHR ''-'' # format_nat (nat (- i)) else format_nat (nat i))"

lemma digit_char_props:
  assumes "d < 10"
  shows "is_digit (digit_char d)" and "digit_val (digit_char d) = d"
  using assms by (simp_all add: is_digit_def digit_char_def digit_val_def)

lemma format_nat_digits:
  "format_nat n \<noteq> [] \<and> (\<forall>c \<in> set (format_nat n). is_digit c) \<and>
   foldl (\<lambda>n c. 10 * n + digit_val c) 0 (format_nat n) = n"
proof (induction n rule: format_nat.induct)
  case (1 n)
  show ?case
  proof (cases "n < 10")
    case True
    then show ?thesis by (simp add: format_nat.simps [of n] digit_char_props)
  next
    case False
    then show ?thesis using 1 by (simp add: format_nat.simps [of n] digit_char_props)
  qed
qed

lemma digits_val_format_nat [simp]: "digits_val (format_nat n) = Some n"
  using format_nat_digits [of n] by (simp add: digits_val_def)

lemma digits_val_SomeD: "digits_val s = Some n \<Longrightarrow> s \<noteq> [] \<and> (\<forall>c \<in> set s. is_digit c)"
  by (auto simp: digits_val_def split: if_splits)

lemma not_digit_notin_digits: "\<not> is_digit c \<Longrightarrow> digits_val s = Some n \<Longrightarrow> c \<notin> set s"
  by (auto dest: digits_val_SomeD)

lemma format_nat_no_sign:
  "\<not> has_prefix (format_nat n) ''-''" "\<not> has_prefix (format_nat n) ''+''"
  using format_nat_digits [of n]
  by (auto simp: has_prefix_iff is_digit_def)

lemma parse_int_format_nat [simp]:
  assumes "int n < 2 ^ 63"
  shows "parse_int (format_nat n) = Some (int n)"
  using assms by (simp add: parse_int_def format_nat_no_sign)

lemma parse_int_bounds:
  assumes "parse_int s = Some i"
  shows "- (2 ^ 63) \<le> i \<and> i < 2 ^ 63"
  using assms by (auto simp: parse_int_def Let_def split: option.splits if_splits)

end
