(* ===== verification/GoUrl.thy ===== *)
theory GoUrl
  imports GoText
begin

text \<open>
  Percent-encoding of a URL path, as \<open>net/url\<close> does it: \<open>URL.EscapedPath\<close> for a URL with no
  \<open>RawPath\<close>, the decoding \<open>net/url\<close> applies to a request's path before a handler sees it, and
  \<open>url.Parse\<close>.
\<close>

section \<open>Escaping\<close>

definition is_alnum :: "char \<Rightarrow> bool" where
  "is_alnum c \<longleftrightarrow> is_lower c \<or> is_upper c \<or> is_digit c"

text \<open>\<open>shouldEscape(c, encodePath)\<close>: letters, digits, the marks and the path's reserved bytes stay.\<close>

definition should_escape_path :: "char \<Rightarrow> bool" where
  "should_escape_path c \<longleftrightarrow> \<not> (is_alnum c \<or> c \<in> set ''-_.~'' \<or> c \<in> set ''$&+,/:;=@'')"

definition hex_char :: "nat \<Rightarrow> char" where
  "hex_char n = ''0123456789ABCDEF'' ! n"

definition hex_val :: "char \<Rightarrow> nat option" where
  "hex_val c =
     (let n = (of_char c :: nat)
      in if is_digit c then Some (n - 48)
         else if 97 \<le> n \<and> n \<le> 102 then Some (n - 97 + 10)
         else if 65 \<le> n \<and> n \<le> 70 then Some (n - 65 + 10)
         else None)"

definition escape_byte :: "char \<Rightarrow> string" where
  "escape_byte c =
     (if should_escape_path c
      then [CHR ''%'', hex_char (of_char c div 16), hex_char (of_char c mod 16)] else [c])"

definition escape_path :: "string \<Rightarrow> string" where
  "escape_path s = concat (map escape_byte s)"

definition escaped_path :: "string \<Rightarrow> string" where
  "escaped_path p = (if p = ''*'' then ''*'' else escape_path p)"

fun unescape_path :: "string \<Rightarrow> string option" where
  "unescape_path [] = Some []"
| "unescape_path (c # s) =
     (if c = CHR ''%'' then
        (case s of
           a # b # t \<Rightarrow>
             (case (hex_val a, hex_val b) of
                (Some x, Some y) \<Rightarrow> map_option ((#) (char_of (16 * x + y))) (unescape_path t)
              | _ \<Rightarrow> None)
         | _ \<Rightarrow> None)
      else map_option ((#) c) (unescape_path s))"

section \<open>Decoding inverts encoding\<close>

lemma hex_val_hex_char:
  assumes "n < 16"
  shows "hex_val (hex_char n) = Some n"
proof -
  have "n \<in> {0, 1, 2, 3, 4, 5, 6, 7, 8, 9, 10, 11, 12, 13, 14, 15}"
    using assms by (simp add: eval_nat_numeral less_Suc_eq)
  then show ?thesis by (auto simp: hex_char_def hex_val_def is_digit_def Let_def)
qed

lemma hex_char_no_percent:
  assumes "n < 16"
  shows "hex_char n \<noteq> CHR ''%''" and "hex_char n \<noteq> CHR ''/''"
proof -
  have "hex_val (CHR ''%'') = None" "hex_val (CHR ''/'') = None"
    by (simp_all add: hex_val_def is_digit_def)
  with hex_val_hex_char [OF assms] show "hex_char n \<noteq> CHR ''%''" "hex_char n \<noteq> CHR ''/''"
    by auto
qed

lemma of_char_less_256: "(of_char c :: nat) < 256"
  by (simp add: of_char_def horner_sum_bit_eq_take_bit)

lemma percent_is_escaped: "\<not> should_escape_path c \<Longrightarrow> c \<noteq> CHR ''%''"
  by (auto simp: should_escape_path_def is_alnum_def is_lower_def is_upper_def is_digit_def)

lemma slash_not_escaped [simp]: "\<not> should_escape_path (CHR ''/'')"
  by (simp add: should_escape_path_def)

lemma unescape_escape_byte: "unescape_path (escape_byte c @ s) = map_option ((#) c) (unescape_path s)"
proof (cases "should_escape_path c")
  case True
  have "(of_char c :: nat) div 16 < 16" using of_char_less_256 [of c] by arith
  moreover have "16 * ((of_char c :: nat) div 16) + of_char c mod 16 = of_char c" by simp
  ultimately show ?thesis using True by (simp add: escape_byte_def hex_val_hex_char)
next
  case False
  then show ?thesis using percent_is_escaped by (simp add: escape_byte_def)
qed

lemma escape_path_Cons [simp]: "escape_path (c # s) = escape_byte c @ escape_path s"
  by (simp add: escape_path_def)

lemma escape_path_Nil [simp]: "escape_path [] = []"
  by (simp add: escape_path_def)

lemma escape_path_append [simp]: "escape_path (s @ t) = escape_path s @ escape_path t"
  by (simp add: escape_path_def)

lemma unescape_escape_path_append:
  "unescape_path (escape_path s @ t) = map_option ((@) s) (unescape_path t)"
proof (induction s)
  case Nil
  show ?case by (cases "unescape_path t") simp_all
next
  case (Cons c s)
  then show ?case by (cases "unescape_path t") (simp_all add: unescape_escape_byte)
qed

lemma unescape_escape_path [simp]: "unescape_path (escape_path s) = Some s"
  using unescape_escape_path_append [of s "[]"] by simp

lemma last_escape_byte_slash: "last (escape_byte c) = CHR ''/'' \<longleftrightarrow> c = CHR ''/''"
  by (auto simp: escape_byte_def hex_char_no_percent)

lemma escape_byte_not_Nil [simp]: "escape_byte c \<noteq> []"
  by (simp add: escape_byte_def)

lemma has_suffix_slash_escape_path:
  "has_suffix (escape_path p) ''/'' \<longleftrightarrow> has_suffix p ''/''"
  by (cases p rule: rev_cases) (simp_all add: has_suffix_single last_escape_byte_slash)

section \<open>Parsing\<close>

definition is_ctl :: "char \<Rightarrow> bool" where
  "is_ctl c \<longleftrightarrow> (of_char c :: nat) < 0x20 \<or> (of_char c :: nat) = 0x7F"

definition scheme_char :: "char \<Rightarrow> bool" where
  "scheme_char c \<longleftrightarrow> is_alnum c \<or> c \<in> set ''+-.''"

text \<open>\<open>getScheme\<close>: the scheme, empty when there is none, and the rest; a leading colon is an error.\<close>

definition getScheme :: "string \<Rightarrow> (string \<times> string) option" where
  "getScheme s =
     (case dropWhile scheme_char s of
        c # r \<Rightarrow>
          if c \<noteq> CHR '':'' then Some ([], s)
          else if takeWhile scheme_char s = [] then None
          else if is_lower (s ! 0) \<or> is_upper (s ! 0) then Some (takeWhile scheme_char s, r)
          else Some ([], s)
      | [] \<Rightarrow> Some ([], s))"

text \<open>What is before a byte, or everything; \<open>strings.Cut\<close> without the rest.\<close>

definition before :: "string \<Rightarrow> char \<Rightarrow> string" where
  "before s c = (case cut s c of None \<Rightarrow> s | Some (a, b) \<Rightarrow> a)"

text \<open>
  \<open>url.Parse\<close>, as far as \<open>Host\<close> and \<open>Path\<close> go. The host of an authority, which may be an IPv6 literal with
  a zone and may follow the user's name, is left to the parameter \<open>host\<close>.
\<close>

definition parse_hier :: "(string \<Rightarrow> string option) \<Rightarrow> string \<Rightarrow> string \<Rightarrow> (string \<times> string) option" where
  "parse_hier host scheme rest =
     (if \<not> has_prefix rest ''/'' \<and> scheme \<noteq> [] then Some ([], [])
      else if \<not> has_prefix rest ''/'' \<and> contains (before rest CHR ''/'') '':'' then None
      else if has_prefix rest ''//'' \<and> (scheme \<noteq> [] \<or> \<not> has_prefix rest ''///'') then
        (let auth = takeWhile (\<lambda>c. c \<noteq> CHR ''/'') (drop 2 rest);
             rest = dropWhile (\<lambda>c. c \<noteq> CHR ''/'') (drop 2 rest)
         in case host auth of None \<Rightarrow> None | Some h \<Rightarrow> map_option (Pair h) (unescape_path rest))
      else map_option (Pair []) (unescape_path rest))"

definition url_parse :: "(string \<Rightarrow> string option) \<Rightarrow> string \<Rightarrow> (string \<times> string) option" where
  "url_parse host raw =
     (let u = before raw CHR ''#'';
          frag = (case cut raw CHR ''#'' of None \<Rightarrow> [] | Some (_, f) \<Rightarrow> f)
      in if list_ex is_ctl u then None
         else (case (if u = ''*'' then Some ([], ''*'')
               else (case getScheme u of
                   None \<Rightarrow> None
                 | Some (scheme, rest) \<Rightarrow> parse_hier host scheme (before rest CHR ''?''))) of
             None \<Rightarrow> None
           | Some res \<Rightarrow> if unescape_path frag = None then None else Some res))"

section \<open>Parsing what was escaped\<close>

text \<open>The bytes an escaped path is written in, and those an authority may be.\<close>

definition plain_byte :: "char \<Rightarrow> bool" where
  "plain_byte c \<longleftrightarrow> c = CHR ''%'' \<or> \<not> should_escape_path c"

definition authority_byte :: "char \<Rightarrow> bool" where
  "authority_byte c \<longleftrightarrow> \<not> is_ctl c \<and> c \<notin> set ''/?#''"

lemma hex_char_alnum: "n < 16 \<Longrightarrow> is_alnum (hex_char n)"
proof -
  assume "n < 16"
  then have "n \<in> {0, 1, 2, 3, 4, 5, 6, 7, 8, 9, 10, 11, 12, 13, 14, 15}"
    by (simp add: eval_nat_numeral less_Suc_eq)
  then show ?thesis by (auto simp: hex_char_def is_alnum_def is_digit_def is_lower_def is_upper_def)
qed

lemma plain_escape_byte: "d \<in> set (escape_byte c) \<Longrightarrow> plain_byte d"
proof -
  have "hex_char (of_char c div 16) = d \<Longrightarrow> is_alnum d" "hex_char (of_char c mod 16) = d \<Longrightarrow> is_alnum d"
    using hex_char_alnum [of "of_char c div 16"] hex_char_alnum [of "of_char c mod 16"] of_char_less_256 [of c]
    by (auto simp: less_mult_imp_div_less)
  then show "d \<in> set (escape_byte c) \<Longrightarrow> plain_byte d"
    by (auto simp: escape_byte_def plain_byte_def should_escape_path_def split: if_splits)
qed

lemma plain_escape_path: "\<forall>c \<in> set (escape_path s). plain_byte c"
  by (induction s) (auto dest: plain_escape_byte)

lemma plain_bytes: "plain_byte c \<Longrightarrow> c \<noteq> CHR ''#'' \<and> c \<noteq> CHR ''?'' \<and> \<not> is_ctl c"
proof -
  have "is_ctl c \<Longrightarrow> \<not> plain_byte c"
    unfolding plain_byte_def should_escape_path_def is_alnum_def is_ctl_def is_lower_def is_upper_def is_digit_def
    by auto
  then show "plain_byte c \<Longrightarrow> c \<noteq> CHR ''#'' \<and> c \<noteq> CHR ''?'' \<and> \<not> is_ctl c"
    by (auto simp: plain_byte_def should_escape_path_def is_alnum_def is_lower_def is_upper_def is_digit_def)
qed

lemma before_notin [simp]: "c \<notin> set s \<Longrightarrow> before s c = s"
  by (simp add: before_def cut_def)

lemma cut_notin [simp]: "c \<notin> set s \<Longrightarrow> cut s c = None"
  by (simp add: cut_def)

lemma rooted_start:
  assumes "has_prefix s ''/''"
  shows "dropWhile scheme_char s = s" and "takeWhile scheme_char s = []" and "s \<noteq> ''*''" and "hd s = CHR ''/''"
proof -
  obtain t where "s = CHR ''/'' # t" using assms by (auto simp: has_prefix_iff)
  then show "dropWhile scheme_char s = s" "takeWhile scheme_char s = []" "s \<noteq> ''*''" "hd s = CHR ''/''"
    by (simp_all add: scheme_char_def is_alnum_def is_lower_def is_upper_def is_digit_def)
qed

lemma parse_rooted:
  assumes "\<forall>c \<in> set s. plain_byte c" and "has_prefix s ''/''" and "\<not> has_prefix s ''//''"
  shows "url_parse host s = map_option (Pair []) (unescape_path s)"
proof -
  have c: "CHR ''#'' \<notin> set s" "CHR ''?'' \<notin> set s" "\<not> list_ex is_ctl s"
    using assms(1) plain_bytes by (auto simp: list_ex_iff)
  have "getScheme s = Some ([], s)"
    using assms(2) rooted_start [OF assms(2)] by (cases s) (auto simp: getScheme_def)
  then show ?thesis
    using c assms(2,3) rooted_start(3) [OF assms(2)]
    by (auto simp: url_parse_def parse_hier_def split: option.split)
qed

lemma authority_ends:
  assumes "has_prefix s ''/''" and "\<forall>c \<in> set auth. authority_byte c"
  shows "takeWhile (\<lambda>c. c \<noteq> CHR ''/'') (auth @ s) = auth" and "dropWhile (\<lambda>c. c \<noteq> CHR ''/'') (auth @ s) = s"
proof -
  obtain t where s: "s = CHR ''/'' # t" using assms(1) by (auto simp: has_prefix_iff)
  have "\<forall>c \<in> set auth. c \<noteq> CHR ''/''" using assms(2) by (auto simp: authority_byte_def)
  then show "takeWhile (\<lambda>c. c \<noteq> CHR ''/'') (auth @ s) = auth" "dropWhile (\<lambda>c. c \<noteq> CHR ''/'') (auth @ s) = s"
    by (simp_all add: s takeWhile_append dropWhile_append)
qed

lemma parse_absolute:
  assumes "\<forall>c \<in> set s. plain_byte c" and "has_prefix s ''/''" and "\<forall>c \<in> set auth. authority_byte c"
    and "scheme = ''http'' \<or> scheme = ''https''"
  shows "url_parse host (scheme @ ''://'' @ auth @ s) =
    Option.bind (host auth) (\<lambda>h. map_option (Pair h) (unescape_path s))"
proof -
  let ?u = "scheme @ ''://'' @ auth @ s"
  have "\<forall>c \<in> set (scheme @ ''://''). \<not> is_ctl c \<and> c \<noteq> CHR ''#''"
    using assms(4) by (elim disjE) (simp_all add: is_ctl_def)
  moreover have tail: "\<forall>c \<in> set (auth @ s). \<not> is_ctl c \<and> c \<noteq> CHR ''#'' \<and> c \<noteq> CHR ''?''"
  proof
    fix c
    assume "c \<in> set (auth @ s)"
    then have "authority_byte c \<or> plain_byte c" using assms(1,3) by auto
    then show "\<not> is_ctl c \<and> c \<noteq> CHR ''#'' \<and> c \<noteq> CHR ''?''"
      using plain_bytes [of c] by (auto simp: authority_byte_def)
  qed
  ultimately have all: "\<forall>c \<in> set ?u. \<not> is_ctl c \<and> c \<noteq> CHR ''#''" by auto
  have c: "CHR ''#'' \<notin> set ?u" "\<not> list_ex is_ctl ?u" using all unfolding list_ex_iff by blast+
  have q: "CHR ''?'' \<notin> set (''//'' @ auth @ s)" using tail by auto
  have star: "?u \<noteq> ''*''" using assms(4) by auto
  have "dropWhile scheme_char ?u = CHR '':'' # ''//'' @ auth @ s" "takeWhile scheme_char ?u = scheme"
    using assms(4) by (auto simp: scheme_char_def is_alnum_def is_lower_def is_upper_def is_digit_def)
  then have "getScheme ?u = Some (scheme, ''//'' @ auth @ s)"
    using assms(4) by (auto simp: getScheme_def is_lower_def)
  moreover have "takeWhile (\<lambda>c. c \<noteq> CHR ''/'') (auth @ s) = auth" "dropWhile (\<lambda>c. c \<noteq> CHR ''/'') (auth @ s) = s"
    by (rule authority_ends [OF assms(2,3)])+
  ultimately have "parse_hier host scheme (''//'' @ auth @ s) =
      Option.bind (host auth) (\<lambda>h. map_option (Pair h) (unescape_path s))" "getScheme ?u = Some (scheme, ''//'' @ auth @ s)"
    using assms(4) by (auto simp: parse_hier_def has_prefix_def split: option.split)
  then show ?thesis
    unfolding url_parse_def Let_def before_notin [OF c(1)] before_notin [OF q] cut_notin [OF c(1)] if_not_P [OF c(2)]
      if_not_P [OF star]
    by (auto simp: before_notin [OF q, simplified] split: option.split)
qed

end
