(* ===== verification/Paths.thy ===== *)
theory Paths
  imports GoUrl "HOL-Library.Sublist"
begin

text \<open>
  \<open>path.go\<close>: normalisation of a request path, the containing directory, joining a name to a
  directory, the mapping between URLs and paths of the export, and the containment test. A
  canonical path is the rendering \<open>path_of cs\<close> of a list of proper components \<open>cs\<close>; the lemmas
  read every operation on strings as an operation on component lists.
\<close>

section \<open>The operations\<close>

definition maxPath :: nat where
  "maxPath = 4096"

text \<open>One iteration of the loop of \<open>cleanPath\<close>, on the components kept so far.\<close>

definition clean_step :: "string list \<Rightarrow> string \<Rightarrow> string list" where
  "clean_step out part =
     (if part = '''' \<or> part = ''.'' then out
      else if part = ''..'' then (if out \<noteq> [] then butlast out else out)
      else out @ [part])"

definition cleanPath :: "string \<Rightarrow> path" where
  "cleanPath p = ''/'' @ join_with CHR ''/'' (foldl clean_step [] (split_on CHR ''/'' p))"

definition parentOf :: "path \<Rightarrow> path" where
  "parentOf p =
     (case last_index_byte p CHR ''/'' of
        None \<Rightarrow> ''/''
      | Some i \<Rightarrow> if i = 0 then ''/'' else take i p)"

definition join :: "path \<Rightarrow> string \<Rightarrow> path" where
  "join dir name = (if dir = ''/'' then ''/'' @ name else dir @ ''/'' @ name)"

text \<open>The first argument of \<open>resource\<close> and \<open>href\<close> is the handler's prefix.\<close>

definition strip_prefix :: "string \<Rightarrow> string \<Rightarrow> string option" where
  "strip_prefix pfx p =
     (if pfx \<noteq> '''' then
        (if p = pfx then Some ''/''
         else if has_prefix p (pfx @ ''/'') then Some (drop (length pfx) p)
         else None)
      else Some p)"

definition resource :: "string \<Rightarrow> string \<Rightarrow> path option" where
  "resource pfx p =
     (if CHR 0x00 \<in> set p then None
      else (case strip_prefix pfx p of
              None \<Rightarrow> None
            | Some q \<Rightarrow> (let c = cleanPath q in if length c > maxPath then None else Some c)))"

definition href :: "string \<Rightarrow> path \<Rightarrow> bool \<Rightarrow> string" where
  "href pfx p collection =
     (let s = escaped_path (pfx @ p)
      in if collection \<and> \<not> has_suffix s ''/'' then s @ ''/'' else s)"

definition under :: "path \<Rightarrow> path \<Rightarrow> bool" where
  "under parent p \<longleftrightarrow> parent = ''/'' \<or> p = parent \<or> has_prefix p (parent @ ''/'')"

definition strictlyUnder :: "path \<Rightarrow> path \<Rightarrow> bool" where
  "strictlyUnder parent p \<longleftrightarrow> p \<noteq> parent \<and> under parent p"

section \<open>Canonical paths and their components\<close>

definition good_comp :: "string \<Rightarrow> bool" where
  "good_comp c \<longleftrightarrow> c \<noteq> '''' \<and> c \<noteq> ''.'' \<and> c \<noteq> ''..'' \<and> CHR ''/'' \<notin> set c"

definition path_of :: "string list \<Rightarrow> path" where
  "path_of cs = ''/'' @ join_with CHR ''/'' cs"

definition comps :: "path \<Rightarrow> string list" where
  "comps p = (if p = ''/'' then [] else split_on CHR ''/'' (tl p))"

text \<open>
  A path the server may hand to a driver: absolute, no empty component, no \<open>.\<close> or \<open>..\<close>
  component, no trailing slash unless it is the root.
\<close>

definition canonical :: "path \<Rightarrow> bool" where
  "canonical p \<longleftrightarrow> has_prefix p ''/'' \<and> (\<forall>c \<in> set (comps p). good_comp c)"

lemma comps_path_of:
  assumes "\<forall>c \<in> set cs. good_comp c"
  shows "comps (path_of cs) = cs"
proof (cases "cs = []")
  case True
  then show ?thesis by (simp add: comps_def path_of_def)
next
  case False
  have "join_with CHR ''/'' cs \<noteq> []"
    using assms False by (subst join_with_eq_Nil) (auto simp: good_comp_def)
  then show ?thesis
    using assms False by (auto simp: comps_def path_of_def split_on_join_with good_comp_def)
qed

lemma path_of_comps: "has_prefix p ''/'' \<Longrightarrow> path_of (comps p) = p"
  by (auto simp: path_of_def comps_def has_prefix_iff)

lemma canonical_path_of [simp, intro]: "\<forall>c \<in> set cs. good_comp c \<Longrightarrow> canonical (path_of cs)"
  by (simp add: canonical_def comps_path_of) (simp add: path_of_def)

lemma canonicalE:
  assumes "canonical p"
  obtains cs where "p = path_of cs" and "\<forall>c \<in> set cs. good_comp c"
  using assms path_of_comps [of p] by (metis canonical_def)

lemma path_of_inject:
  "\<forall>c \<in> set cs. good_comp c \<Longrightarrow> \<forall>c \<in> set ds. good_comp c \<Longrightarrow> path_of cs = path_of ds \<longleftrightarrow> cs = ds"
  by (metis comps_path_of)

lemma path_of_Nil [simp]: "path_of [] = ''/''"
  by (simp add: path_of_def)

lemma path_of_eq_root: "\<forall>c \<in> set cs. good_comp c \<Longrightarrow> path_of cs = ''/'' \<longleftrightarrow> cs = []"
  using path_of_inject [of cs "[]"] by simp

lemma path_of_append:
  "xs \<noteq> [] \<Longrightarrow> ys \<noteq> [] \<Longrightarrow> path_of (xs @ ys) = path_of xs @ path_of ys"
  by (simp add: path_of_def join_with_append)

lemma path_of_Cons_not_root: "c \<noteq> [] \<Longrightarrow> path_of (c # cs) \<noteq> ''/''"
  by (cases cs) (simp_all add: path_of_def)

lemma canonical_root [simp]: "canonical ''/''"
  by (simp add: canonical_def comps_def)

lemma canonical_NotNil: "canonical p \<Longrightarrow> p \<noteq> []"
  by (auto simp: canonical_def)

section \<open>Normalisation\<close>

lemma clean_step_good:
  assumes "\<forall>c \<in> set out. good_comp c" and "CHR ''/'' \<notin> set part"
  shows "\<forall>c \<in> set (clean_step out part). good_comp c"
  using assms by (auto simp: clean_step_def good_comp_def dest: in_set_butlastD)

lemma clean_fold_good:
  assumes "\<forall>c \<in> set out. good_comp c" and "\<forall>w \<in> set parts. CHR ''/'' \<notin> set w"
  shows "\<forall>c \<in> set (foldl clean_step out parts). good_comp c"
  using assms
proof (induction parts arbitrary: out)
  case (Cons w parts)
  then have "\<forall>c \<in> set (clean_step out w). good_comp c" by (intro clean_step_good) simp_all
  with Cons show ?case by simp
qed simp

lemma clean_fold_id:
  assumes "\<forall>c \<in> set parts. good_comp c"
  shows "foldl clean_step out parts = out @ parts"
  using assms by (induction parts arbitrary: out) (auto simp: clean_step_def good_comp_def)

lemma cleanPath_eq: "cleanPath p = path_of (foldl clean_step [] (split_on CHR ''/'' p))"
  by (simp add: cleanPath_def path_of_def)

lemma clean_comps_good: "\<forall>c \<in> set (foldl clean_step [] (split_on CHR ''/'' p)). good_comp c"
  by (intro clean_fold_good) (auto dest: split_on_no_sep)

lemma canonical_cleanPath: "canonical (cleanPath p)"
  unfolding cleanPath_eq by (rule canonical_path_of) (rule clean_comps_good)

lemma clean_fold_path_of:
  assumes "\<forall>c \<in> set cs. good_comp c"
  shows "foldl clean_step [] (split_on CHR ''/'' (path_of cs)) = cs"
proof (cases "cs = []")
  case True
  then show ?thesis by (simp add: path_of_def clean_step_def)
next
  case False
  with assms have "split_on CHR ''/'' (path_of cs) = '''' # cs"
    by (auto simp: path_of_def split_on_join_with good_comp_def)
  then show ?thesis using clean_fold_id [OF assms, of "[]"] by (simp add: clean_step_def)
qed

lemma cleanPath_canonical: "canonical p \<Longrightarrow> cleanPath p = p"
  by (auto elim!: canonicalE simp: cleanPath_eq clean_fold_path_of)

text \<open>
  The contract of a normaliser: its results are in normal form and normal forms are its fixed
  points. Everything a client needs about repeated normalisation follows.
\<close>

locale normaliser =
  fixes norm :: "string \<Rightarrow> string" and normal :: "string \<Rightarrow> bool"
  assumes normal_norm: "normal (norm p)"
    and norm_normal: "normal p \<Longrightarrow> norm p = p"
begin

lemma norm_idem: "norm (norm p) = norm p"
  by (rule norm_normal) (rule normal_norm)

lemma normal_iff_fixed: "normal p \<longleftrightarrow> norm p = p"
  by (metis normal_norm norm_normal)

end

interpretation clean: normaliser cleanPath canonical
  by unfold_locales (simp_all add: canonical_cleanPath cleanPath_canonical)

section \<open>Parents, members, containment\<close>

lemma parentOf_path_of:
  assumes "\<forall>c \<in> set (cs @ [c]). good_comp c"
  shows "parentOf (path_of (cs @ [c])) = path_of cs"
proof (cases "cs = []")
  case True
  with assms have "last_index_byte (path_of (cs @ [c])) CHR ''/'' = Some 0"
    using last_index_byte_append [of "CHR ''/''" c "[]"] by (simp add: path_of_def good_comp_def)
  with True show ?thesis by (simp add: parentOf_def)
next
  case False
  then have "path_of (cs @ [c]) = path_of cs @ CHR ''/'' # c"
    by (simp add: path_of_append) (simp add: path_of_def)
  moreover have "path_of cs \<noteq> []" by (simp add: path_of_def)
  ultimately show ?thesis
    using assms last_index_byte_append [of "CHR ''/''" c "path_of cs"]
    by (simp add: parentOf_def good_comp_def)
qed

lemma parentOf_root [simp]: "parentOf ''/'' = ''/''"
  by (simp add: parentOf_def)

lemma comps_parentOf:
  assumes "canonical p"
  shows "comps (parentOf p) = butlast (comps p)"
proof -
  obtain cs where p: "p = path_of cs" and cs: "\<forall>c \<in> set cs. good_comp c"
    using assms by (rule canonicalE)
  show ?thesis
  proof (cases cs rule: rev_cases)
    case Nil
    with p show ?thesis by (simp add: comps_def)
  next
    case (snoc ds d)
    with cs have "parentOf p = path_of ds" by (simp add: p parentOf_path_of)
    with cs snoc show ?thesis by (simp add: p comps_path_of)
  qed
qed

lemma canonical_parentOf:
  assumes "canonical p"
  shows "canonical (parentOf p)"
proof -
  obtain cs where p: "p = path_of cs" and cs: "\<forall>c \<in> set cs. good_comp c"
    using assms by (rule canonicalE)
  show ?thesis
  proof (cases cs rule: rev_cases)
    case (snoc ds d)
    with cs have "parentOf p = path_of ds" by (simp add: p parentOf_path_of)
    with cs snoc show ?thesis by simp
  qed (simp add: p)
qed

lemma join_eq_path_of:
  assumes "canonical d"
  shows "join d n = path_of (comps d @ [n])"
proof (cases "comps d = []")
  case True
  with assms have "d = ''/''" using path_of_comps [of d] by (simp add: canonical_def)
  then show ?thesis by (simp add: join_def path_of_def comps_def)
next
  case False
  with assms have "d \<noteq> ''/''" by (auto simp: comps_def)
  with False assms show ?thesis
    by (simp add: join_def path_of_append path_of_comps canonical_def) (simp add: path_of_def)
qed

lemma canonical_join:
  assumes "canonical d" and "good_comp n"
  shows "canonical (join d n)"
proof -
  have "\<forall>c \<in> set (comps d @ [n]). good_comp c" using assms by (auto simp: canonical_def)
  then show ?thesis using assms(1) by (simp add: join_eq_path_of)
qed

lemma comps_join:
  assumes "canonical d" and "good_comp n"
  shows "comps (join d n) = comps d @ [n]"
proof -
  have "\<forall>c \<in> set (comps d @ [n]). good_comp c" using assms by (auto simp: canonical_def)
  then show ?thesis using assms(1) by (simp only: join_eq_path_of comps_path_of)
qed

lemma parentOf_join:
  assumes "canonical d" and "good_comp n"
  shows "parentOf (join d n) = d"
proof -
  have "\<forall>c \<in> set (comps d @ [n]). good_comp c" using assms by (auto simp: canonical_def)
  then have "parentOf (join d n) = path_of (comps d)"
    using assms(1) by (simp only: join_eq_path_of parentOf_path_of)
  with assms(1) show ?thesis by (simp add: path_of_comps canonical_def)
qed

lemma canonical_eq_iff: "canonical p \<Longrightarrow> canonical q \<Longrightarrow> p = q \<longleftrightarrow> comps p = comps q"
  by (metis canonical_def path_of_comps)

lemma comps_eq_Nil: "canonical p \<Longrightarrow> comps p = [] \<longleftrightarrow> p = ''/''"
  by (auto simp: comps_def)

text \<open>Containment of paths is the prefix order on their components.\<close>

lemma under_iff_comps:
  assumes "canonical d" and "canonical p"
  shows "under d p \<longleftrightarrow> prefix (comps d) (comps p)"
proof
  assume "under d p"
  then consider "d = ''/''" | "p = d" | t where "p = d @ CHR ''/'' # t" "d \<noteq> ''/''"
    by (auto simp: under_def has_prefix_iff)
  then show "prefix (comps d) (comps p)"
  proof cases
    case 1
    then show ?thesis by (simp add: comps_def)
  next
    case 2
    then show ?thesis by simp
  next
    case 3
    obtain d' where d': "d = CHR ''/'' # d'" "d' \<noteq> []"
      using assms(1) 3(2) by (auto simp: canonical_def has_prefix_iff)
    with 3 have "tl p = d' @ CHR ''/'' # t" "p \<noteq> ''/''" by auto
    with d' show ?thesis by (simp add: comps_def split_on_append_sep)
  qed
next
  assume "prefix (comps d) (comps p)"
  then obtain es where es: "comps p = comps d @ es" by (auto simp: prefix_def)
  have "p = path_of (comps p)" using assms(2) path_of_comps by (simp add: canonical_def)
  then have p: "p = path_of (comps d @ es)" by (simp only: es)
  have d: "d = path_of (comps d)" using assms(1) path_of_comps by (simp add: canonical_def)
  show "under d p"
  proof (cases "comps d = [] \<or> es = []")
    case True
    then show ?thesis
    proof
      assume "comps d = []"
      with assms(1) show ?thesis by (simp add: under_def comps_eq_Nil)
    next
      assume "es = []"
      with p d show ?thesis by (simp add: under_def)
    qed
  next
    case False
    then have "p = path_of (comps d) @ path_of es" using p by (simp add: path_of_append)
    then have "p = d @ path_of es" using d by simp
    then show ?thesis by (simp add: under_def path_of_def has_prefix_iff)
  qed
qed

lemma under_refl [simp]: "under p p"
  by (simp add: under_def)

lemma under_root [simp]: "under ''/'' p"
  by (simp add: under_def)

lemma under_join: "under d (join d n)"
  by (simp add: under_def join_def has_prefix_iff)

text \<open>
  What the lock table and the tree walks rely on: containment is a tree order, and the
  ancestors of a path are reached by taking parents.
\<close>

locale hierarchy =
  fixes le :: "'a \<Rightarrow> 'a \<Rightarrow> bool" and par :: "'a \<Rightarrow> 'a" and root :: 'a and ok :: "'a \<Rightarrow> bool"
  assumes ok_par: "ok p \<Longrightarrow> ok (par p)"
    and ok_root: "ok root"
    and le_refl: "le p p"
    and le_trans: "ok a \<Longrightarrow> ok b \<Longrightarrow> ok c \<Longrightarrow> le a b \<Longrightarrow> le b c \<Longrightarrow> le a c"
    and le_antisym: "ok a \<Longrightarrow> ok b \<Longrightarrow> le a b \<Longrightarrow> le b a \<Longrightarrow> a = b"
    and root_le: "le root p"
    and le_step: "ok a \<Longrightarrow> ok p \<Longrightarrow> le a p \<longleftrightarrow> a = p \<or> (p \<noteq> root \<and> le a (par p))"
    and le_chain: "ok a \<Longrightarrow> ok b \<Longrightarrow> ok p \<Longrightarrow> le a p \<Longrightarrow> le b p \<Longrightarrow> le a b \<or> le b a"
begin

lemma par_le: "ok p \<Longrightarrow> p \<noteq> root \<Longrightarrow> le (par p) p"
  using le_step [of "par p" p] by (simp add: ok_par le_refl)

lemma le_root_iff: "ok p \<Longrightarrow> le p root \<longleftrightarrow> p = root"
  by (metis le_refl le_step ok_root)

lemma strict_iff_par: "ok a \<Longrightarrow> ok p \<Longrightarrow> a \<noteq> p \<Longrightarrow> le a p \<longleftrightarrow> p \<noteq> root \<and> le a (par p)"
  using le_step by blast

lemma not_le_par: "ok p \<Longrightarrow> p \<noteq> root \<Longrightarrow> par p \<noteq> p \<Longrightarrow> \<not> le p (par p)"
  by (metis le_antisym ok_par par_le)

end

lemma under_step:
  assumes "canonical a" and "canonical p"
  shows "under a p \<longleftrightarrow> a = p \<or> (p \<noteq> ''/'' \<and> under a (parentOf p))"
proof -
  have "prefix as cs \<longleftrightarrow> as = cs \<or> (cs \<noteq> [] \<and> prefix as (butlast cs))" for as cs :: "string list"
    by (cases cs rule: rev_cases) auto
  moreover have "a = p \<longleftrightarrow> comps a = comps p" and "comps p \<noteq> [] \<longleftrightarrow> p \<noteq> ''/''"
    using assms by (simp_all add: canonical_eq_iff [of a p] comps_eq_Nil)
  moreover have "under a (parentOf p) \<longleftrightarrow> prefix (comps a) (butlast (comps p))"
    and "under a p \<longleftrightarrow> prefix (comps a) (comps p)"
    using assms by (simp_all add: under_iff_comps canonical_parentOf comps_parentOf)
  ultimately show ?thesis by blast
qed

interpretation tree: hierarchy under parentOf "''/''" canonical
proof unfold_locales
  fix a b c p :: path
  show "canonical p \<Longrightarrow> canonical (parentOf p)" by (rule canonical_parentOf)
  show "canonical a \<Longrightarrow> canonical b \<Longrightarrow> canonical c \<Longrightarrow> under a b \<Longrightarrow> under b c \<Longrightarrow> under a c"
    by (simp add: under_iff_comps)
  show "canonical a \<Longrightarrow> canonical b \<Longrightarrow> under a b \<Longrightarrow> under b a \<Longrightarrow> a = b"
    by (simp add: under_iff_comps canonical_eq_iff)
  show "canonical a \<Longrightarrow> canonical p \<Longrightarrow> under a p \<longleftrightarrow> a = p \<or> (p \<noteq> ''/'' \<and> under a (parentOf p))"
    by (rule under_step)
  show "canonical a \<Longrightarrow> canonical b \<Longrightarrow> canonical p \<Longrightarrow> under a p \<Longrightarrow> under b p \<Longrightarrow> under a b \<or> under b a"
    by (simp add: under_iff_comps prefix_same_cases)
qed simp_all

section \<open>Requests and hrefs\<close>

text \<open>
  The prefixes \<open>WithPrefix\<close> accepts: none, or a clean absolute path with no trailing slash.
\<close>

definition valid_prefix :: "string \<Rightarrow> bool" where
  "valid_prefix pfx \<longleftrightarrow> pfx = '''' \<or> (canonical pfx \<and> pfx \<noteq> ''/'')"

lemma cleanPath_trailing_slash: "cleanPath (p @ ''/'') = cleanPath p"
  using split_on_append_sep [of "CHR ''/''" p "[]"] by (simp add: cleanPath_eq clean_step_def)

lemma set_foldl_clean_step:
  "c \<in> set (foldl clean_step out parts) \<Longrightarrow> c \<in> set out \<or> c \<in> set parts"
proof (induction parts arbitrary: out)
  case (Cons w parts)
  then have "c \<in> set (clean_step out w) \<or> c \<in> set parts" by simp
  then show ?case by (auto simp: clean_step_def split: if_splits dest: in_set_butlastD)
qed simp

lemma set_join_with: "set (join_with c ws) \<subseteq> insert c (\<Union>w \<in> set ws. set w)"
  by (induction c ws rule: join_with.induct) auto

lemma set_cleanPath: "set (cleanPath p) \<subseteq> insert (CHR ''/'') (set p)"
proof
  fix x assume "x \<in> set (cleanPath p)"
  then have "x = CHR ''/'' \<or> (\<exists>w \<in> set (foldl clean_step [] (split_on CHR ''/'' p)). x \<in> set w)"
    using set_join_with by (fastforce simp: cleanPath_def)
  then show "x \<in> insert (CHR ''/'') (set p)"
    by (auto dest!: set_foldl_clean_step set_split_on)
qed

lemma strip_prefix_set: "strip_prefix pfx p = Some q \<Longrightarrow> set q \<subseteq> insert (CHR ''/'') (set p)"
  by (auto simp: strip_prefix_def split: if_splits dest: in_set_dropD)

lemma resource_SomeD:
  assumes "resource pfx p = Some c"
  shows "canonical c" and "length c \<le> maxPath" and "CHR 0x00 \<notin> set c"
    and "pfx = '''' \<or> p = pfx \<or> has_prefix p (pfx @ ''/'')"
proof -
  from assms obtain q where q: "strip_prefix pfx p = Some q" "c = cleanPath q" "CHR 0x00 \<notin> set p"
    "length c \<le> maxPath"
    by (auto simp: resource_def Let_def split: option.splits if_splits)
  then show "canonical c" and "length c \<le> maxPath" by (simp_all add: canonical_cleanPath)
  have "set c \<subseteq> insert (CHR ''/'') (set p)"
    using q strip_prefix_set [OF q(1)] set_cleanPath [of q] by blast
  with q(3) show "CHR 0x00 \<notin> set c" by auto
  from q(1) show "pfx = '''' \<or> p = pfx \<or> has_prefix p (pfx @ ''/'')"
    by (auto simp: strip_prefix_def split: if_splits)
qed

lemma strip_prefix_append:
  assumes "valid_prefix pfx" and "has_prefix p ''/''"
  shows "strip_prefix pfx (pfx @ p) = Some p"
  using assms by (auto simp: strip_prefix_def has_prefix_iff)

lemma prefix_path_not_star: "valid_prefix pfx \<Longrightarrow> has_prefix p ''/'' \<Longrightarrow> pfx @ p \<noteq> ''*''"
  by (cases pfx) (auto simp: valid_prefix_def canonical_def has_prefix_iff)

lemma unescape_href:
  assumes "valid_prefix pfx" and "has_prefix p ''/''"
  shows "unescape_path (href pfx p coll) =
    Some (pfx @ p @ (if coll \<and> \<not> has_suffix (pfx @ p) ''/'' then ''/'' else ''''))"
proof -
  have "unescape_path (escape_path (pfx @ p) @ ''/'') = Some ((pfx @ p) @ ''/'')"
    unfolding unescape_escape_path_append by simp
  then show ?thesis
    using prefix_path_not_star [OF assms] unescape_escape_path [of "pfx @ p"]
    by (simp add: href_def escaped_path_def has_suffix_slash_escape_path Let_def
        del: escape_path_append unescape_escape_path)
qed

section \<open>Properties\<close>

text \<open>
  C2. Containment: whatever path a request names, \<open>resource\<close> either refuses it or yields a
  canonical path of the export, so no \<open>..\<close>, \<open>.\<close> or empty component, no NUL and no name longer
  than \<open>maxPath\<close> reaches a driver, and a request outside the handler's prefix is refused.
\<close>

theorem resource_contained:
  assumes "resource pfx p = Some c"
  shows "canonical c \<and> (\<forall>w \<in> set (comps c). w \<noteq> ''..'' \<and> w \<noteq> ''.'' \<and> w \<noteq> '''')
    \<and> CHR 0x00 \<notin> set c \<and> length c \<le> maxPath
    \<and> (pfx = '''' \<or> p = pfx \<or> has_prefix p (pfx @ ''/''))"
  using resource_SomeD [OF assms] by (auto simp: canonical_def good_comp_def)

theorem resource_contained_witness:
  "resource ''/dav'' ''/dav/a/../../etc'' = Some ''/etc'' \<and> canonical ''/etc''"
proof -
  have r: "resource ''/dav'' ''/dav/a/../../etc'' = Some ''/etc''"
    by (simp add: resource_def strip_prefix_def cleanPath_def clean_step_def maxPath_def
        has_prefix_def)
  show ?thesis using r resource_contained [OF r] by simp
qed

text \<open>
  Round trip: the href the server renders for a path, decoded as \<open>net/url\<close> decodes a
  request path, resolves to that path again, with and without a prefix, for files and
  collections.
\<close>

theorem resource_href:
  assumes "valid_prefix pfx" and "canonical p" and "CHR 0x00 \<notin> set (pfx @ p)"
    and "length p \<le> maxPath"
  shows "Option.bind (unescape_path (href pfx p coll)) (resource pfx) = Some p"
proof -
  have p: "has_prefix p ''/''" using assms(2) by (simp add: canonical_def)
  define t where "t = (if coll \<and> \<not> has_suffix (pfx @ p) ''/'' then ''/'' else '''')"
  have "strip_prefix pfx (pfx @ p @ t) = Some (p @ t)"
    using assms(1) p by (intro strip_prefix_append) (auto simp: has_prefix_iff)
  moreover have "cleanPath (p @ t) = p"
    using assms(2) cleanPath_trailing_slash [of p] by (simp add: t_def cleanPath_canonical)
  moreover have "CHR 0x00 \<notin> set (pfx @ p @ t)" using assms(3) by (simp add: t_def)
  ultimately have "resource pfx (pfx @ p @ t) = Some p"
    using assms(4) by (simp add: resource_def)
  then show ?thesis using unescape_href [OF assms(1) p, of coll] by (simp add: t_def)
qed

theorem resource_href_witness:
  "Option.bind (unescape_path (href ''/dav'' ''/a b'' True)) (resource ''/dav'') = Some ''/a b''"
  by (rule resource_href)
     (simp_all add: valid_prefix_def canonical_def comps_def good_comp_def maxPath_def)

text \<open>
  Compositional resolution: normalising \<open>p/q\<close> is normalising \<open>q\<close> from where \<open>p\<close> leads, and
  \<open>..\<close> at the root stays at the root.
\<close>

theorem cleanPath_compose:
  "cleanPath (p @ ''/'' @ q) = cleanPath (cleanPath p @ ''/'' @ q)
   \<and> cleanPath (''/../'' @ q) = cleanPath q"
proof
  have "foldl clean_step [] (split_on CHR ''/'' (cleanPath p)) = foldl clean_step [] (split_on CHR ''/'' p)"
    unfolding cleanPath_eq by (rule clean_fold_path_of) (rule clean_comps_good)
  then show "cleanPath (p @ ''/'' @ q) = cleanPath (cleanPath p @ ''/'' @ q)"
    using split_on_append_sep [of "CHR ''/''" p q] split_on_append_sep [of "CHR ''/''" "cleanPath p" q]
    by (simp add: cleanPath_eq [of "_ @ _"])
  show "cleanPath (''/../'' @ q) = cleanPath q"
    by (simp add: cleanPath_eq clean_step_def)
qed

text \<open>
  The containment test is the tree order: \<open>under\<close> holds exactly when the components of the
  first path are a prefix of those of the second, at the root too.
\<close>

theorem under_is_prefix_order:
  assumes "canonical d" and "canonical p"
  shows "under d p = prefix (comps d) (comps p) \<and> strictlyUnder d p = strict_prefix (comps d) (comps p)"
  using assms by (auto simp: under_iff_comps strictlyUnder_def strict_prefix_def canonical_eq_iff)

theorem under_is_prefix_order_witness:
  "under ''/'' ''/new'' = prefix (comps ''/'') (comps ''/new'')
   \<and> strictlyUnder ''/'' ''/new'' = strict_prefix (comps ''/'') (comps ''/new'')"
  by (rule under_is_prefix_order) (simp_all add: canonical_def comps_def good_comp_def)

end
