(* ===== verification/Status.thy ===== *)
theory Status
  imports GoText
begin

text \<open>
  \<open>status.go\<close>: from a driver's error to an HTTP status. A Go \<open>error\<close> is modelled by the two
  things the code asks of it: which sentinels \<open>errors.Is\<close> finds in its chain, and its text.
\<close>

section \<open>Errors and statuses\<close>

datatype sentinel =
    ErrNotExist | ErrExist | ErrPermission | ErrInvalid | ErrShrinkUnsupported

record go_error =
  err_is :: "sentinel list"
  err_text :: string

definition plain_error :: "string \<Rightarrow> go_error" where
  "plain_error t = \<lparr>err_is = [], err_text = t\<rparr>"

text \<open>The statuses of \<open>net/http\<close> the server uses, and the ones of \<open>status.go\<close>.\<close>

abbreviation "StatusOK \<equiv> (200 :: nat)"
abbreviation "StatusPartialContent \<equiv> (206 :: nat)"
abbreviation "StatusNotModified \<equiv> (304 :: nat)"
abbreviation "StatusCreated \<equiv> (201 :: nat)"
abbreviation "StatusNoContent \<equiv> (204 :: nat)"
abbreviation "StatusBadRequest \<equiv> (400 :: nat)"
abbreviation "StatusUnauthorized \<equiv> (401 :: nat)"
abbreviation "StatusForbidden \<equiv> (403 :: nat)"
abbreviation "StatusNotFound \<equiv> (404 :: nat)"
abbreviation "StatusMethodNotAllowed \<equiv> (405 :: nat)"
abbreviation "StatusConflict \<equiv> (409 :: nat)"
abbreviation "StatusPreconditionFailed \<equiv> (412 :: nat)"
abbreviation "StatusRequestEntityTooLarge \<equiv> (413 :: nat)"
abbreviation "StatusUnsupportedMediaType \<equiv> (415 :: nat)"
abbreviation "StatusRequestedRangeNotSatisfiable \<equiv> (416 :: nat)"
abbreviation "StatusUpgradeRequired \<equiv> (426 :: nat)"
abbreviation "StatusInternalServerError \<equiv> (500 :: nat)"
abbreviation "StatusNotImplemented \<equiv> (501 :: nat)"
abbreviation "StatusBadGateway \<equiv> (502 :: nat)"

definition StatusMulti :: nat where "StatusMulti = 207"

definition StatusUnprocessable :: nat where "StatusUnprocessable = 422"

definition StatusLocked :: nat where "StatusLocked = 423"

definition StatusFailedDependency :: nat where "StatusFailedDependency = 424"

definition StatusInsufficientStorage :: nat where "StatusInsufficientStorage = 507"

lemmas status_defs = StatusMulti_def StatusUnprocessable_def StatusLocked_def
  StatusFailedDependency_def StatusInsufficientStorage_def

section \<open>The mapping\<close>

definition substringStatus :: "(string \<times> nat) list" where
  "substringStatus =
     [(''not found'', StatusNotFound),
      (''no such'', StatusNotFound),
      (''does not exist'', StatusNotFound),
      (''not a directory'', StatusConflict),
      (''is a directory'', StatusMethodNotAllowed),
      (''not a regular file'', StatusMethodNotAllowed),
      (''not a symbolic link'', StatusMethodNotAllowed),
      (''not empty'', StatusConflict),
      (''read-only'', StatusForbidden),
      (''already exists'', StatusMethodNotAllowed),
      (''no space'', StatusInsufficientStorage),
      (''too many'', StatusInsufficientStorage)]"

definition statusFor :: "go_error \<Rightarrow> nat \<Rightarrow> nat" where
  "statusFor err fallback =
     (if ErrNotExist \<in> set (err_is err) then StatusNotFound
      else if ErrExist \<in> set (err_is err) then StatusMethodNotAllowed
      else if ErrPermission \<in> set (err_is err) then StatusForbidden
      else if ErrInvalid \<in> set (err_is err) then StatusBadRequest
      else if ErrShrinkUnsupported \<in> set (err_is err) then StatusNotImplemented
      else (let low = to_lower (err_text err)
            in case find (\<lambda>m. contains low (fst m)) substringStatus of
                 Some m \<Rightarrow> snd m
               | None \<Rightarrow> fallback))"

definition notFound :: "go_error \<Rightarrow> bool" where
  "notFound err \<longleftrightarrow> statusFor err StatusInternalServerError = StatusNotFound"

text \<open>\<open>conflictOr\<close> of \<open>write.go\<close>.\<close>

definition conflictOr :: "go_error \<Rightarrow> nat" where
  "conflictOr err =
     (if notFound err then StatusConflict else statusFor err StatusInternalServerError)"

section \<open>What the mapping can answer\<close>

lemma find_substringStatus_range:
  "find P substringStatus = Some m \<Longrightarrow>
   snd m \<in> {StatusNotFound, StatusConflict, StatusMethodNotAllowed, StatusForbidden,
            StatusInsufficientStorage}"
  by (auto simp: substringStatus_def split: if_splits)

lemma statusFor_range:
  "statusFor err fallback \<in>
     {StatusNotFound, StatusMethodNotAllowed, StatusForbidden, StatusBadRequest,
      StatusNotImplemented, StatusConflict, StatusInsufficientStorage, fallback}"
  by (auto simp: statusFor_def Let_def split: option.splits dest!: find_substringStatus_range)

text \<open>
  A driver's failure never reads as a success: with a server-error fallback every status is
  an error status.
\<close>

lemma statusFor_is_error: "400 \<le> fallback \<Longrightarrow> 400 \<le> statusFor err fallback"
  using statusFor_range [of err fallback] by (auto simp: status_defs)

lemma conflictOr_is_error: "400 \<le> conflictOr err"
  using statusFor_is_error by (simp add: conflictOr_def)

lemma conflictOr_not_404: "conflictOr err \<noteq> StatusNotFound"
  by (auto simp: conflictOr_def notFound_def)

lemma notFound_sentinel: "ErrNotExist \<in> set (err_is err) \<Longrightarrow> notFound err"
  by (simp add: notFound_def statusFor_def)

section \<open>Properties\<close>

text \<open>
  The error mapping is total on the error range: a driver failure is answered with one of
  the statuses of the table or the fallback, never with a success, and a failed parent lookup is
  never answered 404.
\<close>

theorem statusFor_total:
  "statusFor err StatusInternalServerError \<in>
     {400, 403, 404, 405, 409, 500, 501, StatusInsufficientStorage}
   \<and> conflictOr err \<in> {400, 403, 405, 409, 500, 501, StatusInsufficientStorage}"
  using statusFor_range [of err StatusInternalServerError] conflictOr_not_404 [of err]
  by (auto simp: conflictOr_def)

end
