(* ===== verification/Headers.thy ===== *)
theory Headers
  imports GoText
begin

text \<open>
  The request headers the server interprets: \<open>Depth\<close> (\<open>propfind.go\<close>), \<open>Overwrite\<close>
  (\<open>write.go\<close>), \<open>Timeout\<close> and \<open>If\<close> (\<open>lock.go\<close>), \<open>Content-Range\<close> (\<open>putrange.go\<close>).
\<close>

section \<open>Depth and Overwrite\<close>

definition depthZero :: int where "depthZero = 0"

definition depthOne :: int where "depthOne = 1"

definition depthInfinity :: int where "depthInfinity = -1"

lemmas depth_defs = depthZero_def depthOne_def depthInfinity_def

definition parseDepth :: "string \<Rightarrow> int option" where
  "parseDepth v =
     (let d = to_lower (trim_space v)
      in if d = '''' then Some depthInfinity
         else if d = ''0'' then Some depthZero
         else if d = ''1'' then Some depthOne
         else if d = ''infinity'' then Some depthInfinity
         else None)"

text \<open>\<open>depthHeader\<close> of \<open>lock.go\<close>.\<close>

definition depthHeader :: "int \<Rightarrow> string" where
  "depthHeader d = (if d = depthInfinity then ''infinity'' else ''0'')"

definition overwrite :: "string \<Rightarrow> bool option" where
  "overwrite v =
     (let o' = to_upper (trim_space v)
      in if o' = '''' \<or> o' = ''T'' then Some True
         else if o' = ''F'' then Some False
         else None)"

lemma parseDepth_cases: "parseDepth v = Some d \<Longrightarrow> d \<in> {depthZero, depthOne, depthInfinity}"
  by (auto simp: parseDepth_def Let_def split: if_splits)

lemma depths_distinct [simp]:
  "depthZero \<noteq> depthOne" "depthZero \<noteq> depthInfinity" "depthOne \<noteq> depthInfinity"
  "depthOne \<noteq> depthZero" "depthInfinity \<noteq> depthZero" "depthInfinity \<noteq> depthOne"
  by (simp_all add: depth_defs)

lemma parseDepth_Nil [simp]: "parseDepth '''' = Some depthInfinity"
  by (simp add: parseDepth_def to_lower_def)

lemma overwrite_Nil [simp]: "overwrite '''' = Some True"
  by (simp add: overwrite_def to_upper_def)

section \<open>Timeout\<close>

definition second :: nanos where "second = 1000000000"

definition defaultLockTimeout :: nanos where "defaultLockTimeout = 5 * 60 * second"

definition maxLockTimeout :: nanos where "maxLockTimeout = 60 * 60 * second"

text \<open>
  The loop over the comma-separated parts (7 is the length of \<open>Second-\<close>). The product of the seconds asked for and the
  nanoseconds of a second is computed in a 64-bit \<open>time.Duration\<close>.
\<close>

fun timeout_parts :: "string list \<Rightarrow> nanos" where
  "timeout_parts [] = defaultLockTimeout"
| "timeout_parts (w # ws) =
     (let part = trim_space w
      in if equal_fold part ''Infinite'' then maxLockTimeout
         else if \<not> has_prefix (to_lower part) ''second-'' then timeout_parts ws
         else (case parse_int (drop 7 part) of
                 None \<Rightarrow> timeout_parts ws
               | Some n \<Rightarrow>
                   if n \<le> 0 then timeout_parts ws
                   else (let d = int64 (n * second)
                         in if d < maxLockTimeout then d else maxLockTimeout)))"

definition parseTimeout :: "string \<Rightarrow> nanos" where
  "parseTimeout v = timeout_parts (split_on CHR '','' v)"

text \<open>The number of seconds a part of the header asks for, when it asks for any.\<close>

definition asked_seconds :: "string \<Rightarrow> int option" where
  "asked_seconds w =
     (let part = trim_space w
      in if has_prefix (to_lower part) ''second-'' then parse_int (drop 7 part) else None)"

lemma timeout_parts_le: "timeout_parts ws \<le> maxLockTimeout"
  by (induction ws)
     (auto simp: defaultLockTimeout_def maxLockTimeout_def second_def Let_def split: option.splits)

lemma timeout_parts_pos:
  assumes "\<forall>w \<in> set ws. \<forall>n. asked_seconds w = Some n \<longrightarrow> n * second < 2 ^ 63"
  shows "0 < timeout_parts ws"
  using assms
proof (induction ws)
  case Nil
  then show ?case by (simp add: defaultLockTimeout_def second_def)
next
  case (Cons w ws)
  have rest: "0 < timeout_parts ws" using Cons by simp
  define part where "part = trim_space w"
  have asked: "n * second < 2 ^ 63"
    if "has_prefix (to_lower part) ''second-''" and "parse_int (drop 7 part) = Some n" for n
    using that Cons.prems by (simp add: asked_seconds_def part_def Let_def)
  have "0 < second" by (simp add: second_def)
  then have int64_pos: "0 < int64 (n * second)" if "n * second < 2 ^ 63" and "0 < n" for n
    using that by (simp add: int64_id order_trans [of _ 0])
  have "0 < maxLockTimeout" by (simp add: maxLockTimeout_def second_def)
  then show ?case
    using rest asked int64_pos
    by (auto simp: Let_def simp flip: part_def split: option.splits)
qed

section \<open>The If header\<close>

text \<open>
  The scanning loop of \<open>submittedTokens\<close>: \<open>s\<close> is the rest of the header, \<open>neg\<close> the variable
  \<open>not\<close>, \<open>out\<close> the tokens collected.
\<close>

function scan_if :: "string \<Rightarrow> bool \<Rightarrow> token list \<Rightarrow> token list" where
  "scan_if s neg out =
     (case s of
        [] \<Rightarrow> out
      | c # t \<Rightarrow>
          if c = CHR ''<'' then
            (case index_byte s CHR ''>'' of
               None \<Rightarrow> out
             | Some e \<Rightarrow> scan_if (drop (Suc e) s) False
                          (if neg then out else out @ [take (e - 1) (drop 1 s)]))
          else if has_prefix s ''Not'' then scan_if (drop 3 s) True out
          else if c = CHR ''['' then
            (case index_byte s CHR '']'' of
               None \<Rightarrow> out
             | Some e \<Rightarrow> scan_if (drop (Suc e) s) neg out)
          else scan_if t neg out)"
  by pat_completeness auto
termination
  by (relation "measure (\<lambda>(s, neg, out). length s)") auto

declare scan_if.simps [simp del]

definition submittedTokens :: "string \<Rightarrow> token list" where
  "submittedTokens header = scan_if header False []"

lemma scan_if_Nil [simp]: "scan_if [] neg out = out"
  by (simp add: scan_if.simps)

lemma scan_if_token:
  assumes "CHR ''>'' \<notin> set t"
  shows "scan_if (''<'' @ t @ ''>'' @ s) neg out = scan_if s False (if neg then out else out @ [t])"
proof -
  have "index_byte (CHR ''<'' # t @ CHR ''>'' # s) CHR ''>'' = Some (Suc (length t))"
    using index_byte_append [OF assms, of s] by simp
  then show ?thesis by (simp add: scan_if.simps [of "CHR ''<'' # _"])
qed

lemma scan_if_Not: "scan_if (''Not'' @ s) neg out = scan_if s True out"
  by (simp add: scan_if.simps [of "CHR ''N'' # _"])

lemma scan_if_skip:
  "c \<notin> {CHR ''<'', CHR ''N'', CHR ''[''} \<Longrightarrow> scan_if (c # s) neg out = scan_if s neg out"
  by (simp add: scan_if.simps [of "c # s"])

lemma scan_if_etag:
  assumes "CHR '']'' \<notin> set t"
  shows "scan_if (''['' @ t @ '']'' @ s) neg out = scan_if s neg out"
proof -
  have "index_byte (CHR ''['' # t @ CHR '']'' # s) CHR '']'' = Some (Suc (length t))"
    using index_byte_append [OF assms, of s] by simp
  then show ?thesis by (simp add: scan_if.simps [of "CHR ''['' # _"])
qed

text \<open>Whatever the scan collects stands between angle brackets in the header.\<close>

lemma contains_append: "contains s f \<Longrightarrow> contains (a @ s) f"
  by (metis append.assoc contains_iff)

lemma contains_drop: "contains (drop n s) f \<Longrightarrow> contains s f"
  using contains_append [of "drop n s" f "take n s"] by simp

lemma scan_if_sound: "t \<in> set (scan_if s neg out) \<Longrightarrow> t \<in> set out \<or> contains s (''<'' @ t @ ''>'')"
proof (induction s neg out rule: scan_if.induct)
  case (1 s neg out)
  show ?case
  proof (cases s)
    case Nil
    with "1.prems" show ?thesis by simp
  next
    case (Cons c r)
    show ?thesis
    proof (cases "c = CHR ''<''")
      case True
      show ?thesis
      proof (cases "index_byte s CHR ''>''")
        case None
        then have "scan_if s neg out = out" using Cons True by (simp add: scan_if.simps [of "CHR ''<'' # r"] index_byte_None)
        with "1.prems" show ?thesis by simp
      next
        case (Some e)
        let ?tok = "take (e - 1) (drop 1 s)"
        have e: "e < length s" "s ! e = CHR ''>''" "0 < e"
          using index_byte_SomeD [OF Some] Cons True by (auto intro: Suc_lessI gr0I)
        then have "drop 1 s = ?tok @ CHR ''>'' # drop (Suc e) s"
          by (cases e) (auto simp: Cons dest: id_take_nth_drop)
        moreover have "s = CHR ''<'' # drop 1 s" using Cons True by simp
        ultimately have "s = [] @ (''<'' @ ?tok @ ''>'') @ drop (Suc e) s"
          by (metis append_Cons append_Nil append.assoc)
        then have "contains s (''<'' @ ?tok @ ''>'')" unfolding contains_iff by blast
        moreover have "t \<in> set (scan_if (drop (Suc e) s) False (if neg then out else out @ [?tok]))"
          using "1.prems" Some Cons True
          by (cases neg) (simp_all add: scan_if.simps [of "CHR ''<'' # r"] del: index_byte.simps)
        then have "t \<in> set (if neg then out else out @ [?tok]) \<or> contains (drop (Suc e) s) (''<'' @ t @ ''>'')"
          using "1.IH"(1) [OF Cons True Some] by blast
        ultimately show ?thesis by (auto dest: contains_drop split: if_splits)
      qed
    next
      case False
      show ?thesis
      proof (cases "has_prefix s ''Not''")
        case True
        then have "t \<in> set (scan_if (drop 3 s) True out)"
          using "1.prems" Cons False True by (simp add: scan_if.simps [of "CHR ''N'' # r"])
        then show ?thesis using "1.IH"(2) [OF Cons False True] by (auto dest: contains_drop)
      next
        case notNot: False
        show ?thesis
          using "1.prems" "1.IH"(3) [OF Cons False notNot] "1.IH"(4) [OF Cons False notNot] Cons False notNot
          by (auto simp: scan_if.simps [of "c # r"] split: if_splits option.splits dest: contains_drop)
      qed
    qed
  qed
qed

section \<open>Content-Range\<close>

record contentRange =
  cr_start :: int
  cr_end :: int

text \<open>\<open>contentRange.length\<close>, in 64-bit arithmetic.\<close>

definition cr_length :: "contentRange \<Rightarrow> int" where
  "cr_length c = int64 (int64 (cr_end c - cr_start c) + 1)"

definition parseContentRange :: "string \<Rightarrow> contentRange option" where
  "parseContentRange v =
     (case cut_prefix v ''bytes '' of
        None \<Rightarrow> None
      | Some spec \<Rightarrow>
     (case cut spec CHR ''/'' of
        None \<Rightarrow> None
      | Some (rng, tot) \<Rightarrow>
     (case cut rng CHR ''-'' of
        None \<Rightarrow> None
      | Some (lo, hi) \<Rightarrow>
     (case parse_int lo of
        None \<Rightarrow> None
      | Some start \<Rightarrow> if start < 0 then None else
     (case parse_int hi of
        None \<Rightarrow> None
      | Some end' \<Rightarrow> if end' < start then None
          else if tot \<noteq> ''*'' then
            (case parse_int tot of
               None \<Rightarrow> None
             | Some n \<Rightarrow> if n \<le> end' then None else Some \<lparr>cr_start = start, cr_end = end'\<rparr>)
          else Some \<lparr>cr_start = start, cr_end = end'\<rparr>)))))"

text \<open>How a client writes a range whose total it knows, or does not know.\<close>

definition format_total :: "nat option \<Rightarrow> string" where
  "format_total t = (case t of None \<Rightarrow> ''*'' | Some n \<Rightarrow> format_nat n)"

definition format_range :: "nat \<Rightarrow> nat \<Rightarrow> nat option \<Rightarrow> string" where
  "format_range lo hi t = ''bytes '' @ format_nat lo @ ''-'' @ format_nat hi @ ''/'' @ format_total t"

lemma format_nat_notin:
  assumes "\<not> is_digit c"
  shows "c \<notin> set (format_nat n)"
  using assms format_nat_digits [of n] by auto

lemma not_digit_marks: "\<not> is_digit CHR ''-''" "\<not> is_digit CHR ''/''" "\<not> is_digit CHR ''*''"
  by (simp_all add: is_digit_def)

lemma format_nat_not_star: "format_nat n \<noteq> ''*''"
  using format_nat_digits [of n] not_digit_marks by auto

lemma parseContentRange_SomeD:
  assumes "parseContentRange v = Some c"
  shows "0 \<le> cr_start c" and "cr_start c \<le> cr_end c" and "cr_end c < 2 ^ 63"
  using assms
  by (auto simp: parseContentRange_def split: option.splits if_splits dest!: parse_int_bounds)

lemma parseContentRange_format:
  assumes "lo \<le> hi" and "int hi < 2 ^ 63" and "\<forall>n. t = Some n \<longrightarrow> hi < n \<and> int n < 2 ^ 63"
  shows "parseContentRange (format_range lo hi t) = Some \<lparr>cr_start = int lo, cr_end = int hi\<rparr>"
proof -
  have rng: "CHR ''/'' \<notin> set (format_nat lo @ ''-'' @ format_nat hi)"
    by (simp add: format_nat_notin not_digit_marks)
  have "cut ((format_nat lo @ ''-'' @ format_nat hi) @ CHR ''/'' # format_total t) CHR ''/'' =
      Some (format_nat lo @ ''-'' @ format_nat hi, format_total t)"
    by (rule cut_append) (rule rng)
  moreover have "cut (format_nat lo @ CHR ''-'' # format_nat hi) CHR ''-'' = Some (format_nat lo, format_nat hi)"
    by (rule cut_append) (simp add: format_nat_notin not_digit_marks)
  moreover have "cut_prefix (format_range lo hi t) ''bytes '' =
      Some ((format_nat lo @ ''-'' @ format_nat hi) @ CHR ''/'' # format_total t)"
    using cut_prefix_append [of "''bytes ''"] by (simp add: format_range_def)
  ultimately show ?thesis
    using assms
    by (auto simp: parseContentRange_def format_total_def format_nat_not_star split: option.splits)
qed

lemma cr_length_eq:
  assumes "0 \<le> cr_start c" and "cr_start c \<le> cr_end c" and "cr_end c < 2 ^ 63"
  shows "cr_length c =
    (if cr_end c - cr_start c = 2 ^ 63 - 1 then - (2 ^ 63) else cr_end c - cr_start c + 1)"
proof (cases "cr_end c - cr_start c = 2 ^ 63 - 1")
  case True
  have "int64 (int64 (2 ^ 63 - 1) + 1) = - (2 ^ 63)" by (simp add: int64_def)
  then show ?thesis using True by (simp add: cr_length_def)
next
  case False
  then show ?thesis using assms by (simp add: cr_length_def)
qed

section \<open>Properties\<close>

text \<open>
  The \<open>If\<close> headers of RFC 4918: lists of conditions, each list about the request's own resource or about
  one that a tag in front of it names; a condition is a state token or an entity tag, and may be negated.
\<close>

type_synonym if_condition = "bool \<times> (token + string)"

type_synonym if_list = "string option \<times> if_condition list"

definition show_condition :: "if_condition \<Rightarrow> string" where
  "show_condition c =
     (if fst c then ''Not '' else []) @ (case snd c of Inl t \<Rightarrow> ''<'' @ t @ ''>'' | Inr e \<Rightarrow> ''['' @ e @ '']'')"

fun show_conditions :: "if_condition list \<Rightarrow> string" where
  "show_conditions [] = []"
| "show_conditions [c] = show_condition c"
| "show_conditions (c # d # cs) = show_condition c @ '' '' @ show_conditions (d # cs)"

definition show_list :: "if_list \<Rightarrow> string" where
  "show_list l = (case fst l of None \<Rightarrow> [] | Some u \<Rightarrow> ''<'' @ u @ ''> '') @ ''('' @ show_conditions (snd l) @ '') ''"

definition show_if :: "if_list list \<Rightarrow> string" where
  "show_if ls = concat (map show_list ls)"

fun good_condition :: "if_condition \<Rightarrow> bool" where
  "good_condition (negated, Inl t) \<longleftrightarrow> CHR ''>'' \<notin> set t"
| "good_condition (negated, Inr e) \<longleftrightarrow> CHR '']'' \<notin> set e"

definition good_list :: "if_list \<Rightarrow> bool" where
  "good_list l \<longleftrightarrow> (\<forall>u. fst l = Some u \<longrightarrow> CHR ''>'' \<notin> set u) \<and> list_all good_condition (snd l)"

text \<open>
  What the scan makes of them. It sees the tag of a list as one more token, and a \<open>Not\<close> holds back the
  next token, also when an entity tag stands in between.
\<close>

definition if_items :: "if_list \<Rightarrow> if_condition list" where
  "if_items l = (case fst l of None \<Rightarrow> [] | Some u \<Rightarrow> [(False, Inl u)]) @ snd l"

fun collected :: "bool \<Rightarrow> if_condition list \<Rightarrow> token list" where
  "collected neg [] = []"
| "collected neg ((negated, Inl t) # cs) = (if neg \<or> negated then [] else [t]) @ collected False cs"
| "collected neg ((negated, Inr e) # cs) = collected (neg \<or> negated) cs"

fun held_back :: "bool \<Rightarrow> if_condition list \<Rightarrow> bool" where
  "held_back neg [] = neg"
| "held_back neg ((negated, Inl t) # cs) = held_back False cs"
| "held_back neg ((negated, Inr e) # cs) = held_back (neg \<or> negated) cs"

lemma collected_append: "collected neg (cs @ ds) = collected neg cs @ collected (held_back neg cs) ds"
  by (induction neg cs rule: collected.induct) simp_all

lemma held_back_append [simp]: "held_back neg (cs @ ds) = held_back (held_back neg cs) ds"
  by (induction neg cs rule: held_back.induct) simp_all

lemma scan_condition:
  assumes "good_condition c"
  shows "scan_if (show_condition c @ s) neg out = scan_if s (held_back neg [c]) (out @ collected neg [c])"
proof -
  obtain negated x where c: "c = (negated, x)" by fastforce
  have body: "scan_if ((case x of Inl t \<Rightarrow> ''<'' @ t @ ''>'' | Inr e \<Rightarrow> ''['' @ e @ '']'') @ s) neg out =
      scan_if s (held_back neg [(False, x)]) (out @ collected neg [(False, x)])" for neg
    using assms scan_if_token [of _ s] scan_if_etag [of _ s] by (cases x) (simp_all add: c)
  show ?thesis
  proof (cases negated)
    case True
    have "scan_if (''Not '' @ u) neg out = scan_if u True out" for u
      using scan_if_Not [of "CHR '' '' # u"] by (simp add: scan_if_skip)
    then show ?thesis using True body [of True] by (cases x) (simp_all add: c show_condition_def)
  next
    case False
    then show ?thesis using body [of neg] by (simp add: c show_condition_def)
  qed
qed

lemma scan_conditions:
  "list_all good_condition cs \<Longrightarrow>
     scan_if (show_conditions cs @ s) neg out = scan_if s (held_back neg cs) (out @ collected neg cs)"
proof (induction cs arbitrary: neg out rule: show_conditions.induct)
  case (3 c d cs)
  have "scan_if (show_conditions (c # d # cs) @ s) neg out =
      scan_if (show_conditions (d # cs) @ s) (held_back neg [c]) (out @ collected neg [c])"
    using 3(2) scan_condition [of c "CHR '' '' # show_conditions (d # cs) @ s"] by (simp add: scan_if_skip)
  also have "\<dots> = scan_if s (held_back neg ([c] @ d # cs)) (out @ collected neg ([c] @ d # cs))"
    using 3 unfolding collected_append held_back_append by simp
  finally show ?case by simp
qed (simp_all add: scan_condition)

lemma scan_list:
  assumes "good_list l"
  shows "scan_if (show_list l @ s) neg out = scan_if s (held_back neg (if_items l)) (out @ collected neg (if_items l))"
proof -
  have conds: "scan_if (''('' @ show_conditions (snd l) @ '') '' @ s) neg out =
      scan_if s (held_back neg (snd l)) (out @ collected neg (snd l))" for neg out
    using assms scan_conditions [of "snd l" "'') '' @ s"] by (simp add: good_list_def scan_if_skip)
  show ?thesis
  proof (cases "fst l")
    case None
    then show ?thesis using conds by (simp add: show_list_def if_items_def)
  next
    case (Some u)
    then show ?thesis
      using assms conds scan_if_token [of u "CHR '' '' # ''('' @ show_conditions (snd l) @ '') '' @ s"]
      by (simp add: show_list_def if_items_def good_list_def scan_if_skip)
  qed
qed

lemma scan_lists:
  "\<forall>l \<in> set ls. good_list l \<Longrightarrow> scan_if (show_if ls) neg out = out @ collected neg (concat (map if_items ls))"
  by (induction ls arbitrary: neg out) (simp_all add: show_if_def scan_list collected_append)

text \<open>The tokens the conditions of a list submit, and the lists without a negated entity tag.\<close>

definition submits :: "if_list \<Rightarrow> token list" where
  "submits l = [t. (False, Inl t) \<leftarrow> snd l]"

definition no_negated_tag :: "if_list \<Rightarrow> bool" where
  "no_negated_tag l \<longleftrightarrow> (\<forall>e. (True, Inr e) \<notin> set (snd l))"

lemma collected_plain: "(\<forall>e. (True, Inr e) \<notin> set cs) \<Longrightarrow> collected False cs = [t. (False, Inl t) \<leftarrow> cs]"
proof (induction cs)
  case (Cons c cs)
  obtain negated x where c: "c = (negated, x)" by fastforce
  show ?case using Cons by (cases x; cases negated) (auto simp: c)
qed simp

lemma held_back_plain: "(\<forall>e. (True, Inr e) \<notin> set cs) \<Longrightarrow> \<not> held_back False cs"
proof (induction cs)
  case (Cons c cs)
  obtain negated x where c: "c = (negated, x)" by fastforce
  show ?case using Cons by (cases x; cases negated) (auto simp: c)
qed simp

lemma collected_lists:
  "\<forall>l \<in> set ls. no_negated_tag l \<Longrightarrow>
     collected False (concat (map if_items ls)) =
     concat (map (\<lambda>l. (case fst l of None \<Rightarrow> [] | Some u \<Rightarrow> [u]) @ submits l) ls)"
proof (induction ls)
  case (Cons l ls)
  have "\<not> held_back False (if_items l)"
    using Cons.prems held_back_plain by (auto simp: if_items_def no_negated_tag_def split: option.split)
  moreover have "collected False (if_items l) = (case fst l of None \<Rightarrow> [] | Some u \<Rightarrow> [u]) @ submits l"
    using Cons.prems collected_plain by (auto simp: if_items_def no_negated_tag_def submits_def split: option.split)
  ultimately show ?case using Cons by (simp add: collected_append)
qed simp

text \<open>
  C35. What the scan takes as submitted from any \<open>If\<close> header of the grammar, with tags and negations
  (entity tags without a bracket inside): the tokens of the conditions in order, the tag of a list as
  one more in front of them, none after a \<open>Not\<close>, and none from inside an entity tag; but a \<open>Not\<close> in front of an
  entity tag holds back the token that comes next, in whatever list that is. Without such a negated
  entity tag these are the tags and exactly the tokens that are not negated.
\<close>

theorem submittedTokens_conditions:
  assumes "\<forall>l \<in> set ls. good_list l"
  shows "submittedTokens (show_if ls) = collected False (concat (map if_items ls)) \<and>
    ((\<forall>l \<in> set ls. no_negated_tag l) \<longrightarrow> submittedTokens (show_if ls) =
      concat (map (\<lambda>l. (case fst l of None \<Rightarrow> [] | Some u \<Rightarrow> [u]) @ submits l) ls))"
  using scan_lists [OF assms, of False "[]"] collected_lists [of ls] by (simp add: submittedTokens_def)

theorem submittedTokens_conditions_witness:
  "submittedTokens ''(<a> [x]) </r> (Not <b> <c>) '' = [''a'', ''/r'', ''c''] \<and>
   submittedTokens ''(Not [x]) (<t> <u>) '' = [''u'']"
  using submittedTokens_conditions
      [of "[(None, [(False, Inl ''a''), (False, Inr ''x'')]), (Some ''/r'', [(True, Inl ''b''), (False, Inl ''c'')])]"]
    submittedTokens_conditions [of "[(None, [(True, Inr ''x'')]), (None, [(False, Inl ''t''), (False, Inl ''u'')])]"]
  by (simp add: good_list_def show_if_def show_list_def show_condition_def if_items_def)

text \<open>
  No token is invented: every token the server takes as submitted stands between angle
  brackets in the \<open>If\<close> header, whatever the header is.
\<close>

theorem submittedTokens_sound:
  assumes "t \<in> set (submittedTokens header)"
  shows "contains header (''<'' @ t @ ''>'')"
  using scan_if_sound [of t header False "[]"] assms by (simp add: submittedTokens_def)

theorem submittedTokens_sound_witness: "contains ''(<tok>)'' ''<tok>''"
proof -
  have "''tok'' \<in> set (submittedTokens ''(<tok>)'')"
    using scan_if_token [of "''tok''" "'')''" False "[]"]
    by (simp add: submittedTokens_def scan_if_skip)
  from submittedTokens_sound [OF this] show ?thesis by simp
qed

text \<open>
  C39. A granted lock timeout never exceeds the cap, and it is positive whenever no part of the
  header asks for more seconds than a 64-bit count of nanoseconds holds.
\<close>

theorem parseTimeout_bounds:
  assumes "\<forall>w \<in> set (split_on CHR '','' v). \<forall>n. asked_seconds w = Some n \<longrightarrow> n * second < 2 ^ 63"
  shows "0 < parseTimeout v \<and> parseTimeout v \<le> maxLockTimeout"
  using timeout_parts_pos [OF assms] timeout_parts_le by (simp add: parseTimeout_def)

theorem parseTimeout_bounds_witness:
  "asked_seconds '' Second-4100000000'' = Some 4100000000 \<and>
   0 < parseTimeout ''Weeks-2, Second-4100000000'' \<and> parseTimeout ''Weeks-2, Second-4100000000'' \<le> maxLockTimeout"
proof -
  have p: "split_on CHR '','' ''Weeks-2, Second-4100000000'' = [''Weeks-2'', '' Second-4100000000'']"
    "trim_space '' Second-4100000000'' = ''Second-4100000000''" "trim_space ''Weeks-2'' = ''Weeks-2''"
    "has_prefix (to_lower ''Second-4100000000'') ''second-''" "\<not> has_prefix (to_lower ''Weeks-2'') ''second-''"
    by code_simp+
  have "parse_int ''4100000000'' = Some 4100000000"
    by (simp add: parse_int_def digits_val_def is_digit_def digit_val_def)
  then have a: "asked_seconds '' Second-4100000000'' = Some 4100000000" "asked_seconds ''Weeks-2'' = None"
    using p by (simp_all add: asked_seconds_def Let_def)
  have "0 < parseTimeout ''Weeks-2, Second-4100000000'' \<and> parseTimeout ''Weeks-2, Second-4100000000'' \<le> maxLockTimeout"
  proof (rule parseTimeout_bounds)
    show "\<forall>w \<in> set (split_on CHR '','' ''Weeks-2, Second-4100000000''). \<forall>n. asked_seconds w = Some n \<longrightarrow> n * second < 2 ^ 63"
      by (simp only: p(1)) (simp add: a second_def)
  qed
  then show ?thesis using a(1) by blast
qed

text \<open>
  A \<open>Content-Range\<close> the server accepts names a non-empty interval of non-negative offsets,
  and a well-formed range is parsed to exactly the interval it spells.
\<close>

theorem parseContentRange_roundtrip:
  assumes "lo \<le> hi" and "int hi < 2 ^ 63" and "\<forall>n. t = Some n \<longrightarrow> hi < n \<and> int n < 2 ^ 63"
  shows "parseContentRange (format_range lo hi t) = Some \<lparr>cr_start = int lo, cr_end = int hi\<rparr>
    \<and> (\<forall>v c. parseContentRange v = Some c \<longrightarrow> 0 \<le> cr_start c \<and> cr_start c \<le> cr_end c)"
  using parseContentRange_format [OF assms] parseContentRange_SomeD by blast

theorem parseContentRange_roundtrip_witness:
  "parseContentRange (format_range 4 9 (Some 131072)) = Some \<lparr>cr_start = 4, cr_end = 9\<rparr>"
  using parseContentRange_roundtrip [of 4 9 "Some 131072"] by simp

end
