(* ===== verification/LockTable.thy ===== *)
theory LockTable
  imports Paths Headers Status
begin

text \<open>
  The in-memory lock table of \<open>lock.go\<close>. The two maps of \<open>lockSystem\<close> hold pointers to shared
  \<open>lockInfo\<close> objects, and \<open>refresh\<close> changes an object through one map that readers reach
  through the other; the model keeps an explicit heap of \<open>lockInfo\<close>s and two association lists
  of references into it. \<open>ls.now()\<close> and the bytes the CSPRNG delivers are arguments.
\<close>

section \<open>State\<close>

record lockInfo =
  lk_token :: token
  lk_path :: path
  lk_depth :: int
  lk_owner :: bytes
  lk_expiry :: int
  lk_timeout :: nanos

record lockSystem =
  byToken :: "(token \<times> nat) list"
  byPath :: "(path \<times> nat) list"
  lockHeap :: "lockInfo list"

datatype lock_error = ErrLocked | ErrNoSuchLock | ErrLockTableFull | ErrRand go_error

definition maxLocks :: nat where "maxLocks = 2 ^ 16"

abbreviation deref :: "lockSystem \<Rightarrow> nat \<Rightarrow> lockInfo" where
  "deref ls r \<equiv> lockHeap ls ! r"

section \<open>Operations\<close>

definition empty_locks :: lockSystem where
  "empty_locks = \<lparr>byToken = [], byPath = [], lockHeap = []\<rparr>"

text \<open>\<open>newLockSystem\<close>: the argument is what the probe of the CSPRNG returned.\<close>

definition newLockSystem :: "go_error + bytes \<Rightarrow> go_error + lockSystem" where
  "newLockSystem rnd = (case rnd of Inl e \<Rightarrow> Inl e | Inr _ \<Rightarrow> Inr empty_locks)"

definition hex_lower :: "nat \<Rightarrow> char" where
  "hex_lower n = ''0123456789abcdef'' ! n"

definition hex_encode :: "bytes \<Rightarrow> string" where
  "hex_encode bs = concat (map (\<lambda>c. [hex_lower (of_char c div 16), hex_lower (of_char c mod 16)]) bs)"

definition newToken :: "go_error + bytes \<Rightarrow> go_error + token" where
  "newToken rnd = (case rnd of Inl e \<Rightarrow> Inl e | Inr b \<Rightarrow> Inr (''opaquelocktoken:'' @ hex_encode b))"

text \<open>Different random bytes give different tokens.\<close>

lemma hex_lower_inj: "m < 16 \<Longrightarrow> n < 16 \<Longrightarrow> hex_lower m = hex_lower n \<Longrightarrow> m = n"
proof -
  have *: "\<forall>m \<in> set [0..<16]. \<forall>n \<in> set [0..<16]. hex_lower m = hex_lower n \<longrightarrow> m = n" by code_simp
  assume "m < 16" "n < 16" "hex_lower m = hex_lower n"
  then show "m = n" using * by auto
qed

lemma hex_encode_inj: "hex_encode s = hex_encode t \<Longrightarrow> s = t"
proof (induction s arbitrary: t)
  case Nil
  then show ?case by (cases t) (auto simp: hex_encode_def)
next
  case (Cons c s)
  then obtain d t' where t: "t = d # t'" by (cases t) (auto simp: hex_encode_def)
  have lt: "(of_char x :: nat) div 16 < 16" "(of_char x :: nat) mod 16 < 16" for x
  proof -
    have "(of_char x :: nat) < 256" by simp
    then show "(of_char x :: nat) div 16 < 16" by (intro less_mult_imp_div_less) simp
  qed simp
  have "(of_char c :: nat) div 16 = of_char d div 16" "(of_char c :: nat) mod 16 = of_char d mod 16"
    using Cons.prems lt [of c] lt [of d] by (auto simp: hex_encode_def t intro: hex_lower_inj)
  then have "(of_char c :: nat) = of_char d" by (metis div_mult_mod_eq)
  moreover have "s = t'" using Cons by (auto simp: hex_encode_def t)
  ultimately show ?case by (simp add: t)
qed

lemma newToken_inj: "newToken r = Inr tok \<Longrightarrow> newToken r' = Inr tok \<Longrightarrow> r = r'"
  by (auto simp: newToken_def dest: hex_encode_inj split: sum.splits)

text \<open>One iteration of the loop of \<open>sweep\<close>, and the loop over the entries of \<open>byToken\<close>.\<close>

definition sweep_entry :: "int \<Rightarrow> lockSystem \<Rightarrow> token \<times> nat \<Rightarrow> lockSystem" where
  "sweep_entry now ls e =
     (if now > lk_expiry (deref ls (snd e))
      then ls\<lparr>byToken := AList.delete (fst e) (byToken ls),
              byPath := AList.delete (lk_path (deref ls (snd e))) (byPath ls)\<rparr>
      else ls)"

definition sweep :: "int \<Rightarrow> lockSystem \<Rightarrow> lockSystem" where
  "sweep now ls = foldl (sweep_entry now) ls (byToken ls)"

text \<open>The middle loop of \<open>conflict\<close>, from \<open>p\<close> up to the root.\<close>

lemma parentOf_cases: "parentOf p = ''/'' \<or> (\<exists>i. 0 < i \<and> i < length p \<and> parentOf p = take i p)"
  by (auto simp: parentOf_def split: option.splits dest: last_index_byte_SomeD)

function conflict_up :: "lockSystem \<Rightarrow> path \<Rightarrow> nat option" where
  "conflict_up ls p =
     (case map_of (byPath ls) p of
        Some r \<Rightarrow> if lk_depth (deref ls r) = depthInfinity then Some r
                  else if p = ''/'' then None else conflict_up ls (parentOf p)
      | None \<Rightarrow> if p = ''/'' then None else conflict_up ls (parentOf p))"
  by pat_completeness auto
termination
proof (relation "measure (\<lambda>(ls, p). if p = ''/'' then 0 else Suc (length p))", goal_cases)
  case (2 ls p)
  then show ?case using parentOf_cases [of p] by auto
next
  case (3 ls p r)
  then show ?case using parentOf_cases [of p] by auto
qed simp

declare conflict_up.simps [simp del]

definition conflict :: "lockSystem \<Rightarrow> path \<Rightarrow> int \<Rightarrow> nat option" where
  "conflict ls p depth =
     (case map_of (byPath ls) p of
        Some r \<Rightarrow> Some r
      | None \<Rightarrow>
     (case conflict_up ls (parentOf p) of
        Some r \<Rightarrow> Some r
      | None \<Rightarrow>
          if depth = depthInfinity
          then map_option snd (find (\<lambda>e. strictlyUnder p (fst e)) (byPath ls))
          else None))"

definition create ::
  "int \<Rightarrow> go_error + bytes \<Rightarrow> path \<Rightarrow> int \<Rightarrow> bytes \<Rightarrow> nanos \<Rightarrow> lockSystem \<Rightarrow>
   (lock_error + nat) \<times> lockSystem" where
  "create now rnd p depth owner timeout ls0 =
     (let ls = sweep now ls0
      in if conflict ls p depth \<noteq> None then (Inl ErrLocked, ls)
         else if length (byToken ls) \<ge> maxLocks then (Inl ErrLockTableFull, ls)
         else (case newToken rnd of
                 Inl e \<Rightarrow> (Inl (ErrRand e), ls)
               | Inr tok \<Rightarrow>
                   (let r = length (lockHeap ls);
                        l = \<lparr>lk_token = tok, lk_path = p, lk_depth = depth, lk_owner = owner,
                             lk_expiry = now + timeout, lk_timeout = timeout\<rparr>
                    in (Inr r, ls\<lparr>byToken := AList.update tok r (byToken ls),
                                  byPath := AList.update p r (byPath ls),
                                  lockHeap := lockHeap ls @ [l]\<rparr>))))"

text \<open>The same with the bound compared as an integer, for evaluation.\<close>

lemma create_code [code]:
  "create now rnd p depth owner timeout ls0 =
     (let ls = sweep now ls0
      in if conflict ls p depth \<noteq> None then (Inl ErrLocked, ls)
         else if int (length (byToken ls)) \<ge> 65536 then (Inl ErrLockTableFull, ls)
         else (case newToken rnd of
                 Inl e \<Rightarrow> (Inl (ErrRand e), ls)
               | Inr tok \<Rightarrow>
                   (let r = length (lockHeap ls);
                        l = \<lparr>lk_token = tok, lk_path = p, lk_depth = depth, lk_owner = owner,
                             lk_expiry = now + timeout, lk_timeout = timeout\<rparr>
                    in (Inr r, ls\<lparr>byToken := AList.update tok r (byToken ls),
                                  byPath := AList.update p r (byPath ls),
                                  lockHeap := lockHeap ls @ [l]\<rparr>))))"
proof -
  have "maxLocks \<le> n \<longleftrightarrow> int n \<ge> 65536" for n by (auto simp: maxLocks_def)
  then show ?thesis by (simp only: create_def)
qed

text \<open>The loop of \<open>refresh\<close> looks for the first token that names a lock on this very path.\<close>

definition names_lock :: "lockSystem \<Rightarrow> path \<Rightarrow> token \<Rightarrow> bool" where
  "names_lock ls p t =
     (case map_of (byToken ls) t of None \<Rightarrow> False | Some r \<Rightarrow> lk_path (deref ls r) = p)"

definition refresh ::
  "int \<Rightarrow> path \<Rightarrow> token list \<Rightarrow> nanos \<Rightarrow> lockSystem \<Rightarrow> (lock_error + nat) \<times> lockSystem" where
  "refresh now p tokens timeout ls0 =
     (let ls = sweep now ls0
      in case find (names_lock ls p) tokens of
           None \<Rightarrow> (Inl ErrNoSuchLock, ls)
         | Some t \<Rightarrow>
             (let r = the (map_of (byToken ls) t);
                  l = (deref ls r)\<lparr>lk_timeout := timeout, lk_expiry := now + timeout\<rparr>
              in (Inr r, ls\<lparr>lockHeap := (lockHeap ls)[r := l]\<rparr>)))"

definition unlock :: "int \<Rightarrow> path \<Rightarrow> token \<Rightarrow> lockSystem \<Rightarrow> lock_error option \<times> lockSystem" where
  "unlock now p t ls0 =
     (let ls = sweep now ls0
      in case map_of (byToken ls) t of
           None \<Rightarrow> (Some ErrNoSuchLock, ls)
         | Some r \<Rightarrow>
             if lk_path (deref ls r) \<noteq> p then (Some ErrNoSuchLock, ls)
             else (None, ls\<lparr>byToken := AList.delete t (byToken ls),
                            byPath := AList.delete p (byPath ls)\<rparr>))"

definition release_entry :: "path \<Rightarrow> lockSystem \<Rightarrow> path \<times> nat \<Rightarrow> lockSystem" where
  "release_entry p ls e =
     (if under p (fst e)
      then ls\<lparr>byPath := AList.delete (fst e) (byPath ls),
              byToken := AList.delete (lk_token (deref ls (snd e))) (byToken ls)\<rparr>
      else ls)"

definition releaseTree :: "path \<Rightarrow> lockSystem \<Rightarrow> lockSystem" where
  "releaseTree p ls = foldl (release_entry p) ls (byPath ls)"

definition confirm :: "int \<Rightarrow> path \<Rightarrow> token list \<Rightarrow> lockSystem \<Rightarrow> lock_error option \<times> lockSystem" where
  "confirm now p tokens ls0 =
     (let ls = sweep now ls0
      in case conflict ls p depthZero of
           None \<Rightarrow> (None, ls)
         | Some r \<Rightarrow> if lk_token (deref ls r) \<in> set tokens then (None, ls) else (Some ErrLocked, ls))"

definition find_lock :: "int \<Rightarrow> path \<Rightarrow> lockSystem \<Rightarrow> nat option \<times> lockSystem" where
  "find_lock now p ls0 = (let ls = sweep now ls0 in (map_of (byPath ls) p, ls))"

section \<open>What the table holds\<close>

text \<open>
  The abstract view of the table is the partial map from paths to the locks held on them.
  \<open>expired\<close> is the test of \<open>sweep\<close>.
\<close>

definition held :: "lockSystem \<Rightarrow> path \<Rightarrow> lockInfo option" where
  "held ls p = map_option (deref ls) (map_of (byPath ls) p)"

definition expired :: "int \<Rightarrow> lockInfo \<Rightarrow> bool" where
  "expired now l \<longleftrightarrow> now > lk_expiry l"

text \<open>Links between the two maps and the heap.\<close>

definition linked :: "lockSystem \<Rightarrow> bool" where
  "linked ls \<longleftrightarrow>
     distinct (map fst (byToken ls)) \<and> distinct (map fst (byPath ls)) \<and>
     (\<forall>t r. map_of (byToken ls) t = Some r \<longrightarrow>
        r < length (lockHeap ls) \<and> lk_token (deref ls r) = t \<and>
        map_of (byPath ls) (lk_path (deref ls r)) = Some r) \<and>
     (\<forall>p r. map_of (byPath ls) p = Some r \<longrightarrow>
        r < length (lockHeap ls) \<and> lk_path (deref ls r) = p \<and>
        map_of (byToken ls) (lk_token (deref ls r)) = Some r)"

text \<open>
  Exclusivity: no lock lies in the scope of another one. The paths are canonical, the depths
  are the two \<open>LOCK\<close> accepts.
\<close>

definition exclusive :: "(path \<Rightarrow> lockInfo option) \<Rightarrow> bool" where
  "exclusive h \<longleftrightarrow>
     (\<forall>p l. h p = Some l \<longrightarrow> canonical p \<and> lk_path l = p \<and> lk_depth l \<in> {depthZero, depthInfinity}) \<and>
     (\<forall>p q l m. h p = Some l \<and> h q = Some m \<and> strictlyUnder p q \<longrightarrow> lk_depth l \<noteq> depthInfinity)"

definition ls_inv :: "lockSystem \<Rightarrow> bool" where
  "ls_inv ls \<longleftrightarrow> linked ls \<and> exclusive (held ls)"

lemma linkedD_path:
  assumes "linked ls" and "map_of (byPath ls) p = Some r"
  shows "r < length (lockHeap ls)" and "lk_path (deref ls r) = p"
    and "map_of (byToken ls) (lk_token (deref ls r)) = Some r"
  using assms unfolding linked_def by blast+

lemma linkedD_token:
  assumes "linked ls" and "map_of (byToken ls) t = Some r"
  shows "r < length (lockHeap ls)" and "lk_token (deref ls r) = t"
    and "map_of (byPath ls) (lk_path (deref ls r)) = Some r"
  using assms unfolding linked_def by blast+

lemma linkedD_distinct:
  assumes "linked ls"
  shows "distinct (map fst (byToken ls))" and "distinct (map fst (byPath ls))"
  using assms unfolding linked_def by blast+

lemma held_Some: "held ls p = Some l \<longleftrightarrow> (\<exists>r. map_of (byPath ls) p = Some r \<and> l = deref ls r)"
  by (auto simp: held_def)

lemma held_None: "held ls p = None \<longleftrightarrow> map_of (byPath ls) p = None"
  by (simp add: held_def)

text \<open>
  Removing from both maps the entries of a set of references that both agree on keeps the
  links; \<open>sweep\<close>, \<open>unlock\<close> and \<open>releaseTree\<close> are all of this form.
\<close>

definition restrict_locks :: "(nat \<Rightarrow> bool) \<Rightarrow> lockSystem \<Rightarrow> lockSystem" where
  "restrict_locks keep ls =
     ls\<lparr>byToken := filter (\<lambda>e. keep (snd e)) (byToken ls),
        byPath := filter (\<lambda>e. keep (snd e)) (byPath ls)\<rparr>"

lemma map_of_filter_snd:
  "distinct (map fst xs) \<Longrightarrow> map_of (filter (\<lambda>e. P (snd e)) xs) k =
     (case map_of xs k of Some v \<Rightarrow> if P v then Some v else None | None \<Rightarrow> None)"
proof (induction xs)
  case (Cons x xs)
  obtain a b where x: "x = (a, b)" by (cases x) auto
  have "map_of xs a = None" using Cons.prems by (simp add: x map_of_eq_None_iff)
  with Cons show ?case by (auto simp: x split: option.splits)
qed simp

lemma restrict_locks_simps [simp]:
  "lockHeap (restrict_locks keep ls) = lockHeap ls"
  "byToken (restrict_locks keep ls) = filter (\<lambda>e. keep (snd e)) (byToken ls)"
  "byPath (restrict_locks keep ls) = filter (\<lambda>e. keep (snd e)) (byPath ls)"
  by (simp_all add: restrict_locks_def)

lemma linked_restrict: "linked ls \<Longrightarrow> linked (restrict_locks keep ls)"
  unfolding linked_def
  by (auto simp: map_of_filter_snd distinct_fst_filter split: option.splits if_splits)

lemma held_restrict:
  assumes "linked ls"
  shows "held (restrict_locks keep ls) p =
    (case map_of (byPath ls) p of
       Some r \<Rightarrow> if keep r then Some (deref ls r) else None | None \<Rightarrow> None)"
  using linkedD_distinct [OF assms] by (auto simp: held_def map_of_filter_snd split: option.splits)

lemma exclusive_submap: "exclusive h \<Longrightarrow> g \<subseteq>\<^sub>m h \<Longrightarrow> exclusive g"
  unfolding exclusive_def map_le_def by (metis domI)

lemma exclusive_restrict:
  assumes "linked ls" and "exclusive (held ls)"
  shows "exclusive (held (restrict_locks keep ls))"
proof (rule exclusive_submap [OF assms(2)])
  show "held (restrict_locks keep ls) \<subseteq>\<^sub>m held ls"
    by (auto simp: map_le_def held_restrict [OF assms(1)] dom_def split: option.splits if_splits)
       (simp add: held_def)
qed

lemma ls_inv_restrict: "ls_inv ls \<Longrightarrow> ls_inv (restrict_locks keep ls)"
  by (simp add: ls_inv_def linked_restrict exclusive_restrict)

text \<open>Deleting one lock from both maps.\<close>

lemma delete_both:
  assumes "linked ls" and "map_of (byPath ls) p = Some r"
  shows "ls\<lparr>byToken := AList.delete (lk_token (deref ls r)) (byToken ls),
            byPath := AList.delete p (byPath ls)\<rparr> = restrict_locks (\<lambda>r'. r' \<noteq> r) ls"
proof -
  note r = linkedD_path [OF assms]
  have "t = lk_token (deref ls r) \<longleftrightarrow> r' = r" if "(t, r') \<in> set (byToken ls)" for t r'
    using that r linkedD_token(2) [OF assms(1)] linkedD_distinct [OF assms(1)]
    by (metis map_of_eq_Some_distinct option.inject)
  moreover have "q = p \<longleftrightarrow> r' = r" if "(q, r') \<in> set (byPath ls)" for q r'
    using that assms linkedD_path(2) [OF assms(1)] linkedD_distinct [OF assms(1)]
    by (metis map_of_eq_Some_distinct option.inject)
  ultimately have "AList.delete (lk_token (deref ls r)) (byToken ls) = filter (\<lambda>e. snd e \<noteq> r) (byToken ls)"
    and "AList.delete p (byPath ls) = filter (\<lambda>e. snd e \<noteq> r) (byPath ls)"
    by (auto simp: AList.delete_eq intro!: filter_cong) blast+
  then show ?thesis by (simp add: restrict_locks_def)
qed

lemma restrict_restrict: "restrict_locks K (restrict_locks L ls) = restrict_locks (\<lambda>r. L r \<and> K r) ls"
  by (simp add: restrict_locks_def)

lemma restrict_cong:
  assumes "\<And>k r. (k, r) \<in> set (byToken ls) \<or> (k, r) \<in> set (byPath ls) \<Longrightarrow> K r = L r"
  shows "restrict_locks K ls = restrict_locks L ls"
proof -
  have "filter (\<lambda>e. K (snd e)) (byToken ls) = filter (\<lambda>e. L (snd e)) (byToken ls)"
    by (rule filter_cong) (auto dest: assms [OF disjI1] assms [OF disjI2])
  moreover have "filter (\<lambda>e. K (snd e)) (byPath ls) = filter (\<lambda>e. L (snd e)) (byPath ls)"
    by (rule filter_cong) (auto dest: assms [OF disjI1] assms [OF disjI2])
  ultimately show ?thesis by (simp add: restrict_locks_def)
qed

lemma restrict_True [simp]: "restrict_locks (\<lambda>r. True) ls = ls"
  by (simp add: restrict_locks_def)

lemma delete_both_restrict:
  assumes "linked ls" and "map_of (byPath ls) p = Some r"
  shows "(restrict_locks K ls)\<lparr>
            byToken := AList.delete (lk_token (deref ls r)) (byToken (restrict_locks K ls)),
            byPath := AList.delete p (byPath (restrict_locks K ls))\<rparr> =
         restrict_locks (\<lambda>r'. K r' \<and> r' \<noteq> r) ls"
proof -
  have "(restrict_locks K ls)\<lparr>
            byToken := AList.delete (lk_token (deref ls r)) (byToken (restrict_locks K ls)),
            byPath := AList.delete p (byPath (restrict_locks K ls))\<rparr>
      = restrict_locks K (ls\<lparr>byToken := AList.delete (lk_token (deref ls r)) (byToken ls),
            byPath := AList.delete p (byPath ls)\<rparr>)"
    by (simp add: restrict_locks_def AList.delete_eq conj_commute)
  then show ?thesis by (simp add: delete_both [OF assms] restrict_restrict conj_commute)
qed

lemma sweep_entry_restrict:
  assumes "linked ls" and "(t, r) \<in> set (byToken ls)"
  shows "sweep_entry now (restrict_locks K ls) (t, r) =
    restrict_locks (\<lambda>r'. K r' \<and> \<not> (r' = r \<and> expired now (deref ls r))) ls"
proof -
  have "map_of (byToken ls) t = Some r"
    using assms linkedD_distinct [OF assms(1)] by (simp add: map_of_eq_Some_distinct)
  note r = linkedD_token [OF assms(1) this]
  show ?thesis
    using delete_both_restrict [OF assms(1) r(3), of K] r(2)
    by (auto simp: sweep_entry_def expired_def)
qed

lemma sweep_fold:
  assumes "linked ls" and "set es \<subseteq> set (byToken ls)"
  shows "foldl (sweep_entry now) (restrict_locks K ls) es =
    restrict_locks (\<lambda>r. K r \<and> \<not> (r \<in> snd ` set es \<and> expired now (deref ls r))) ls"
  using assms(2)
proof (induction es arbitrary: K)
  case (Cons e es)
  obtain t r where e: "e = (t, r)" by (cases e) auto
  have "foldl (sweep_entry now) (restrict_locks K ls) (e # es) =
    foldl (sweep_entry now) (restrict_locks (\<lambda>r'. K r' \<and> \<not> (r' = r \<and> expired now (deref ls r))) ls) es"
    using Cons.prems by (simp add: e sweep_entry_restrict [OF assms(1)])
  also have "\<dots> = restrict_locks (\<lambda>r'. K r' \<and> \<not> (r' \<in> snd ` set (e # es) \<and> expired now (deref ls r'))) ls"
    using Cons by (auto simp: e intro!: restrict_cong)
  finally show ?case .
qed simp

lemma refs_in_tokens:
  assumes "linked ls" and "(p, r) \<in> set (byPath ls)"
  shows "r \<in> snd ` set (byToken ls)"
proof -
  have "map_of (byPath ls) p = Some r"
    using assms linkedD_distinct [OF assms(1)] by (simp add: map_of_eq_Some_distinct)
  from linkedD_path(3) [OF assms(1) this] show ?thesis
    by (metis map_of_SomeD imageI snd_conv)
qed

text \<open>\<open>sweep\<close> removes exactly the expired locks.\<close>

lemma sweep_eq:
  assumes "linked ls"
  shows "sweep now ls = restrict_locks (\<lambda>r. \<not> expired now (deref ls r)) ls"
proof -
  have "sweep now ls =
    restrict_locks (\<lambda>r. \<not> (r \<in> snd ` set (byToken ls) \<and> expired now (deref ls r))) ls"
    using sweep_fold [OF assms order_refl, of now "\<lambda>r. True"] by (simp add: sweep_def)
  also have "\<dots> = restrict_locks (\<lambda>r. \<not> expired now (deref ls r)) ls"
    using refs_in_tokens [OF assms] by (intro restrict_cong) (metis image_eqI snd_conv)
  finally show ?thesis .
qed

lemma update_order: "ls\<lparr>byPath := a, byToken := b\<rparr> = ls\<lparr>byToken := b, byPath := a\<rparr>"
  by simp

lemma release_entry_restrict:
  assumes "linked ls" and "(q, r) \<in> set (byPath ls)"
  shows "release_entry p (restrict_locks K ls) (q, r) =
    restrict_locks (\<lambda>r'. K r' \<and> \<not> (r' = r \<and> under p (lk_path (deref ls r)))) ls"
proof -
  have "map_of (byPath ls) q = Some r"
    using assms linkedD_distinct [OF assms(1)] by (simp add: map_of_eq_Some_distinct)
  then show ?thesis
    using delete_both_restrict [OF assms(1), of q r K] linkedD_path(2) [OF assms(1), of q r]
    by (auto simp: release_entry_def update_order)
qed

lemma release_fold:
  assumes "linked ls" and "set es \<subseteq> set (byPath ls)"
  shows "foldl (release_entry p) (restrict_locks K ls) es =
    restrict_locks (\<lambda>r. K r \<and> \<not> (r \<in> snd ` set es \<and> under p (lk_path (deref ls r)))) ls"
  using assms(2)
proof (induction es arbitrary: K)
  case (Cons e es)
  obtain q r where e: "e = (q, r)" by (cases e) auto
  have "foldl (release_entry p) (restrict_locks K ls) (e # es) =
    foldl (release_entry p)
      (restrict_locks (\<lambda>r'. K r' \<and> \<not> (r' = r \<and> under p (lk_path (deref ls r)))) ls) es"
    using Cons.prems by (simp add: e release_entry_restrict [OF assms(1)])
  also have "\<dots> = restrict_locks (\<lambda>r'. K r' \<and> \<not> (r' \<in> snd ` set (e # es) \<and> under p (lk_path (deref ls r')))) ls"
    using Cons by (auto simp: e intro!: restrict_cong)
  finally show ?case .
qed simp

lemma refs_in_paths:
  assumes "linked ls" and "(t, r) \<in> set (byToken ls)"
  shows "r \<in> snd ` set (byPath ls)"
proof -
  have "map_of (byToken ls) t = Some r"
    using assms linkedD_distinct [OF assms(1)] by (simp add: map_of_eq_Some_distinct)
  from linkedD_token(3) [OF assms(1) this] show ?thesis
    by (metis map_of_SomeD imageI snd_conv)
qed

text \<open>\<open>releaseTree\<close> removes exactly the locks on a path and beneath it.\<close>

lemma releaseTree_eq:
  assumes "linked ls"
  shows "releaseTree p ls = restrict_locks (\<lambda>r. \<not> under p (lk_path (deref ls r))) ls"
proof -
  have "releaseTree p ls =
    restrict_locks (\<lambda>r. \<not> (r \<in> snd ` set (byPath ls) \<and> under p (lk_path (deref ls r)))) ls"
    using release_fold [OF assms order_refl, of p "\<lambda>r. True"] by (simp add: releaseTree_def)
  also have "\<dots> = restrict_locks (\<lambda>r. \<not> under p (lk_path (deref ls r))) ls"
    using refs_in_paths [OF assms] by (intro restrict_cong) (metis image_eqI snd_conv)
  finally show ?thesis .
qed

end
