(* ===== verification/LockSafety.thy ===== *)
theory LockSafety
  imports LockTable
begin

text \<open>
  What the lock table of \<open>lock.go\<close> guarantees. The abstract state of the table is the partial
  map \<open>held\<close> from paths to locks; every operation is shown to act on it as a lock store should:
  an expired lock is gone, a lock is granted exactly when no live lock's scope meets the
  requested one, an operation passes exactly when its request submits the token of the lock that
  blocks it, and a granted lock stays until its holder, the clock or the removal of its resource
  ends it.
\<close>

section \<open>The abstract lock map\<close>

definition live :: "int \<Rightarrow> (path \<Rightarrow> lockInfo option) \<Rightarrow> path \<Rightarrow> lockInfo option" where
  "live now h p = (case h p of Some l \<Rightarrow> if expired now l then None else Some l | None \<Rightarrow> None)"

text \<open>The three ways in which a lock can stand in the way of an operation on \<open>p\<close>.\<close>

definition blocks :: "path \<Rightarrow> int \<Rightarrow> lockInfo \<Rightarrow> bool" where
  "blocks p depth l \<longleftrightarrow>
     lk_path l = p \<or>
     (lk_depth l = depthInfinity \<and> strictlyUnder (lk_path l) p) \<or>
     (depth = depthInfinity \<and> strictlyUnder p (lk_path l))"

lemma live_Some: "live now h p = Some l \<longleftrightarrow> h p = Some l \<and> \<not> expired now l"
  by (auto simp: live_def split: option.splits if_splits)

lemma live_live [simp]: "live now (live now h) = live now h"
  by (rule ext) (simp add: live_def split: option.splits)

lemma held_sweep: "linked ls \<Longrightarrow> held (sweep now ls) = live now (held ls)"
  by (rule ext)
     (simp add: sweep_eq held_restrict live_def, simp add: held_def split: option.splits)

lemma held_releaseTree:
  "linked ls \<Longrightarrow> held (releaseTree p ls) q = (if under p q then None else held ls q)"
  using linkedD_path(2) [of ls q]
  by (simp add: releaseTree_eq held_restrict, simp add: held_def split: option.splits)

lemma ls_inv_sweep: "ls_inv ls \<Longrightarrow> ls_inv (sweep now ls)"
  by (simp add: ls_inv_def [of ls] sweep_eq) (simp add: ls_inv_def linked_restrict exclusive_restrict)

lemma ls_inv_releaseTree: "ls_inv ls \<Longrightarrow> ls_inv (releaseTree p ls)"
  by (simp add: ls_inv_def [of ls] releaseTree_eq) (simp add: ls_inv_def linked_restrict exclusive_restrict)

lemma ls_inv_linked: "ls_inv ls \<Longrightarrow> linked ls"
  by (simp add: ls_inv_def)

lemma ls_inv_exclusive: "ls_inv ls \<Longrightarrow> exclusive (held ls)"
  by (simp add: ls_inv_def)

lemma exclusiveD:
  assumes "exclusive h" and "h p = Some l"
  shows "canonical p" and "lk_path l = p" and "lk_depth l \<in> {depthZero, depthInfinity}"
  using assms unfolding exclusive_def by blast+

lemma exclusive_disjoint:
  "exclusive h \<Longrightarrow> h p = Some l \<Longrightarrow> h q = Some m \<Longrightarrow> strictlyUnder p q \<Longrightarrow> lk_depth l \<noteq> depthInfinity"
  unfolding exclusive_def by blast

lemma ls_inv_empty [simp]: "ls_inv empty_locks"
  by (simp add: ls_inv_def linked_def exclusive_def held_def empty_locks_def)

section \<open>The conflict search\<close>

lemma conflict_up_SomeD:
  assumes "canonical p" and "ls_inv ls" and "conflict_up ls p = Some r"
  shows "\<exists>q. map_of (byPath ls) q = Some r \<and> lk_depth (deref ls r) = depthInfinity \<and> under q p"
  using assms
proof (induction ls p rule: conflict_up.induct)
  case (1 ls p)
  have up: "under q p" if "under q (parentOf p)" "p \<noteq> ''/''" "canonical q" for q
    using that 1(3) by (simp add: under_step [of q p])
  have can: "canonical q" if "map_of (byPath ls) q = Some r" for q
    using that 1(4) exclusiveD(1) [of "held ls" q] by (auto simp: ls_inv_def held_def)
  show ?case
  proof (cases "\<exists>r'. map_of (byPath ls) p = Some r' \<and> lk_depth (deref ls r') = depthInfinity")
    case True
    then show ?thesis using 1(5) by (subst (asm) conflict_up.simps) auto
  next
    case False
    then have "p \<noteq> ''/''" and r: "conflict_up ls (parentOf p) = Some r"
      using 1(5) by (subst (asm) conflict_up.simps, auto split: option.splits if_splits)+
    then have "\<exists>q. map_of (byPath ls) q = Some r \<and> lk_depth (deref ls r) = depthInfinity \<and>
        under q (parentOf p)"
      using False 1(1,2) [OF _ _] 1(3,4)
      by (cases "map_of (byPath ls) p") (auto simp: canonical_parentOf)
    then show ?thesis using up \<open>p \<noteq> ''/''\<close> can by blast
  qed
qed

lemma conflict_up_NoneD:
  assumes "canonical p" and "ls_inv ls" and "conflict_up ls p = None"
    and "held ls q = Some l" and "under q p"
  shows "lk_depth l \<noteq> depthInfinity"
  using assms
proof (induction ls p rule: conflict_up.induct)
  case (1 ls p)
  have q: "canonical q" using 1(4,6) exclusiveD(1) [of "held ls" q] by (simp add: ls_inv_def)
  show ?case
  proof (cases "q = p")
    case True
    then show ?thesis using 1(5,6)
      by (subst (asm) conflict_up.simps) (auto simp: held_def split: option.splits if_splits)
  next
    case False
    then have "p \<noteq> ''/''" and "under q (parentOf p)"
      using 1(3,7) q under_step [of q p] by auto
    then show ?thesis using 1(1,2) 1(3,4,5,6)
      by (subst (asm) (3) conflict_up.simps)
         (auto simp: canonical_parentOf split: option.splits if_splits)
  qed
qed

lemma conflict_SomeD:
  assumes "canonical p" and "ls_inv ls" and "conflict ls p depth = Some r"
  shows "\<exists>q. map_of (byPath ls) q = Some r \<and> held ls q = Some (deref ls r) \<and> blocks p depth (deref ls r)"
proof -
  note path = linkedD_path(2) [OF ls_inv_linked [OF assms(2)]]
  have "\<exists>q. map_of (byPath ls) q = Some r \<and> blocks p depth (deref ls r)"
  proof (cases "map_of (byPath ls) p")
    case (Some r')
    then show ?thesis using assms(3) path [of p r'] by (auto simp: conflict_def blocks_def)
  next
    case None
    show ?thesis
    proof (cases "conflict_up ls (parentOf p)")
      case (Some r')
      then have r': "r' = r" using None assms(3) by (simp add: conflict_def)
      then obtain q where q: "map_of (byPath ls) q = Some r" "lk_depth (deref ls r) = depthInfinity"
        "under q (parentOf p)"
        using conflict_up_SomeD [OF canonical_parentOf [OF assms(1)] assms(2) Some] by blast
      have "q \<noteq> p" using q(1) None by auto
      moreover have "canonical q"
        using q(1) exclusiveD(1) [OF ls_inv_exclusive [OF assms(2)], of q] by (auto simp: held_def)
      ultimately have "strictlyUnder q p"
        using q(3) under_step [of q p] assms(1)
        by (cases "p = ''/''") (auto simp: strictlyUnder_def tree.le_root_iff)
      then show ?thesis using q path [OF q(1)] by (auto simp: blocks_def)
    next
      case up: None
      then have d: "depth = depthInfinity" and
        f: "map_option snd (find (\<lambda>e. strictlyUnder p (fst e)) (byPath ls)) = Some r"
        using None assms(3) by (auto simp: conflict_def split: if_splits)
      then obtain q where "(q, r) \<in> set (byPath ls)" "strictlyUnder p q"
        by (auto simp: find_Some_iff) (metis fst_conv nth_mem)
      moreover from this have "map_of (byPath ls) q = Some r"
        using linkedD_distinct [OF ls_inv_linked [OF assms(2)]] by (simp add: map_of_eq_Some_distinct)
      ultimately show ?thesis using path [of q r] d by (auto simp: blocks_def)
    qed
  qed
  then show ?thesis by (auto simp: held_def)
qed

lemma conflict_NoneD:
  assumes "canonical p" and "ls_inv ls" and "conflict ls p depth = None" and "held ls q = Some l"
  shows "\<not> blocks p depth l"
proof -
  note lq = exclusiveD [OF ls_inv_exclusive [OF assms(2)] assms(4)]
  have none: "map_of (byPath ls) p = None" "conflict_up ls (parentOf p) = None"
    and below: "depth = depthInfinity \<Longrightarrow> find (\<lambda>e. strictlyUnder p (fst e)) (byPath ls) = None"
    using assms(3) by (auto simp: conflict_def split: option.splits if_splits)
  have "q \<noteq> p" using none(1) assms(4) by (auto simp: held_def)
  moreover have "lk_depth l \<noteq> depthInfinity" if "strictlyUnder q p"
  proof (rule conflict_up_NoneD [OF canonical_parentOf [OF assms(1)] assms(2) none(2) assms(4)])
    show "under q (parentOf p)"
      using that under_step [OF lq(1) assms(1)] by (auto simp: strictlyUnder_def)
  qed
  moreover have "\<not> strictlyUnder p q" if "depth = depthInfinity"
  proof -
    obtain r where "(q, r) \<in> set (byPath ls)"
      using assms(4) by (auto simp: held_def dest: map_of_SomeD)
    then show ?thesis using below [OF that] by (auto simp: find_None_iff)
  qed
  ultimately show ?thesis using lq(2) by (auto simp: blocks_def)
qed

text \<open>A table free of overlaps has at most one lock in the way of a depth-0 operation.\<close>

lemma blockers_unique:
  assumes h: "exclusive h" and l: "h q = Some l" "blocks p depthZero l"
    and m: "h q' = Some m" "blocks p depthZero m" and p: "canonical p"
  shows "q = q' \<and> l = m"
proof -
  note L = exclusiveD [OF h l(1)] and M = exclusiveD [OF h m(1)]
  have lu: "under q p" "q = p \<or> lk_depth l = depthInfinity"
    and mu: "under q' p" "q' = p \<or> lk_depth m = depthInfinity"
    using l(2) m(2) L(2) M(2) by (auto simp: blocks_def strictlyUnder_def depthZero_def depthInfinity_def)
  have "q = q'"
  proof (rule ccontr)
    assume ne: "q \<noteq> q'"
    consider "strictlyUnder q q'" | "strictlyUnder q' q"
      using tree.le_chain [OF L(1) M(1) p lu(1) mu(1)] ne by (auto simp: strictlyUnder_def)
    then show False
    proof cases
      case 1
      then show False
        using exclusive_disjoint [OF h l(1) m(1)] lu(2) mu(1) tree.le_antisym [OF M(1) L(1)]
        by (auto simp: strictlyUnder_def)
    next
      case 2
      then show False
        using exclusive_disjoint [OF h m(1) l(1)] mu(2) lu(1) tree.le_antisym [OF L(1) M(1)]
        by (auto simp: strictlyUnder_def)
    qed
  qed
  then show ?thesis using l(1) m(1) by simp
qed

section \<open>The size of the table\<close>

lemma held_card:
  assumes "linked ls"
  shows "length (byToken ls) = card (dom (held ls))"
proof -
  define f where "f t = lk_path (deref ls (the (map_of (byToken ls) t)))" for t
  have "bij_betw f (dom (map_of (byToken ls))) (dom (held ls))"
  proof (rule bij_betw_byWitness [where f' = "\<lambda>p. lk_token (deref ls (the (map_of (byPath ls) p)))"])
    show "\<forall>t \<in> dom (map_of (byToken ls)). lk_token (deref ls (the (map_of (byPath ls) (f t)))) = t"
      using linkedD_token [OF assms] by (auto simp: f_def)
    show "\<forall>p \<in> dom (held ls). f (lk_token (deref ls (the (map_of (byPath ls) p)))) = p"
      using linkedD_path [OF assms] by (auto simp: f_def held_def)
    show "f ` dom (map_of (byToken ls)) \<subseteq> dom (held ls)"
      using linkedD_token [OF assms] by (auto simp: f_def held_def)
    show "(\<lambda>p. lk_token (deref ls (the (map_of (byPath ls) p)))) ` dom (held ls)
        \<subseteq> dom (map_of (byToken ls))"
      using linkedD_path [OF assms] by (auto simp: held_def)
  qed
  then have "card (dom (map_of (byToken ls))) = card (dom (held ls))"
    by (rule bij_betw_same_card)
  moreover have "dom (map_of (byToken ls)) = set (map fst (byToken ls))"
    by (simp add: dom_map_of_conv_image_fst)
  ultimately show ?thesis
    using distinct_card [OF linkedD_distinct(1) [OF assms]] by simp
qed

section \<open>Creating a lock\<close>

text \<open>A new lock under a token and a path that name none keeps the links.\<close>

lemma insert_lock:
  assumes inv: "ls_inv ls" and p: "canonical p" "lk_path l = p" "lk_depth l \<in> {depthZero, depthInfinity}"
    and tok: "map_of (byToken ls) (lk_token l) = None" and free: "conflict ls p (lk_depth l) = None"
  defines "ls' \<equiv> ls\<lparr>byToken := AList.update (lk_token l) (length (lockHeap ls)) (byToken ls),
      byPath := AList.update p (length (lockHeap ls)) (byPath ls), lockHeap := lockHeap ls @ [l]\<rparr>"
  shows "ls_inv ls'" and "held ls' = (held ls)(p \<mapsto> l)"
proof -
  note lk = ls_inv_linked [OF inv]
  have old: "deref ls' r = deref ls r" if "r < length (lockHeap ls)" for r
    using that by (simp add: ls'_def nth_append)
  have new: "deref ls' (length (lockHeap ls)) = l" by (simp add: ls'_def)
  have bt: "map_of (byToken ls') = (map_of (byToken ls))(lk_token l \<mapsto> length (lockHeap ls))"
    and bp: "map_of (byPath ls') = (map_of (byPath ls))(p \<mapsto> length (lockHeap ls))"
    and heap: "length (lockHeap ls') = Suc (length (lockHeap ls))"
    by (simp_all add: ls'_def update_conv')
  have pfree: "map_of (byPath ls) p = None"
    using free by (simp add: conflict_def split: option.splits)
  show h: "held ls' = (held ls)(p \<mapsto> l)"
  proof
    fix q
    show "held ls' q = ((held ls)(p \<mapsto> l)) q"
      using linkedD_path(1) [OF lk, of q]
      by (cases "map_of (byPath ls) q") (simp_all add: held_def bp new old)
  qed
  have "linked ls'"
    unfolding linked_def
  proof (intro conjI allI impI)
    show "distinct (map fst (byToken ls'))" "distinct (map fst (byPath ls'))"
      using linkedD_distinct [OF lk] by (simp_all add: ls'_def distinct_update)
  next
    fix t r assume t: "map_of (byToken ls') t = Some r"
    show "r < length (lockHeap ls')" "lk_token (deref ls' r) = t"
      "map_of (byPath ls') (lk_path (deref ls' r)) = Some r"
      using t linkedD_token [OF lk, of t r] pfree p(2)
      by (auto simp: bt bp heap new old split: if_splits)
  next
    fix q r assume q: "map_of (byPath ls') q = Some r"
    show "r < length (lockHeap ls')" "lk_path (deref ls' r) = q"
      "map_of (byToken ls') (lk_token (deref ls' r)) = Some r"
      using q linkedD_path [OF lk, of q r] tok p(2)
      by (auto simp: bt bp heap new old split: if_splits)
  qed
  moreover have "exclusive (held ls')"
  proof -
    note ex = ls_inv_exclusive [OF inv]
    have nb: "\<not> blocks p (lk_depth l) m" if "held ls q = Some m" for q m
      using conflict_NoneD [OF p(1) inv free that] .
    show ?thesis
      unfolding h exclusive_def
    proof (intro conjI allI impI)
      fix q m assume "((held ls)(p \<mapsto> l)) q = Some m"
      then show "canonical q" "lk_path m = q" "lk_depth m \<in> {depthZero, depthInfinity}"
        using p exclusiveD [OF ex, of q m] by (auto split: if_splits)
    next
      fix q q' m m'
      assume a: "((held ls)(p \<mapsto> l)) q = Some m \<and> ((held ls)(p \<mapsto> l)) q' = Some m' \<and> strictlyUnder q q'"
      then show "lk_depth m \<noteq> depthInfinity"
        using p(2) nb [of q m] nb [of q' m'] exclusiveD(2) [OF ex] exclusive_disjoint [OF ex, of q m q' m']
        by (auto simp: blocks_def strictlyUnder_def split: if_splits)
    qed
  qed
  ultimately show "ls_inv ls'" by (simp add: ls_inv_def)
qed

text \<open>The token the random bytes give must not name a lock already.\<close>

definition fresh_rnd :: "lockSystem \<Rightarrow> go_error + bytes \<Rightarrow> bool" where
  "fresh_rnd ls rnd \<longleftrightarrow>
     (case newToken rnd of Inl _ \<Rightarrow> True | Inr tok \<Rightarrow> map_of (byToken ls) tok = None)"

lemma fresh_rnd_sweep: "linked ls \<Longrightarrow> fresh_rnd ls rnd \<Longrightarrow> fresh_rnd (sweep now ls) rnd"
  by (auto simp: fresh_rnd_def sweep_eq map_of_eq_None_iff split: sum.splits)

definition new_lock :: "int \<Rightarrow> token \<Rightarrow> path \<Rightarrow> int \<Rightarrow> bytes \<Rightarrow> nanos \<Rightarrow> lockInfo" where
  "new_lock now tok p depth owner timeout =
     \<lparr>lk_token = tok, lk_path = p, lk_depth = depth, lk_owner = owner,
      lk_expiry = now + timeout, lk_timeout = timeout\<rparr>"

lemma create_Inl: "create now rnd p depth owner timeout ls = (Inl e, ls') \<Longrightarrow> ls' = sweep now ls"
  by (auto simp: create_def Let_def split: if_splits sum.splits)

lemma create_Inr:
  assumes inv: "ls_inv ls" and p: "canonical p" "depth \<in> {depthZero, depthInfinity}"
    and fr: "fresh_rnd ls rnd" and c: "create now rnd p depth owner timeout ls = (Inr r, ls')"
  obtains tok where "newToken rnd = Inr tok" and "ls_inv ls'"
    and "deref ls' r = new_lock now tok p depth owner timeout"
    and "held ls' = (live now (held ls))(p \<mapsto> new_lock now tok p depth owner timeout)"
    and "r = length (lockHeap ls)"
    and "conflict (sweep now ls) p depth = None" and "length (byToken (sweep now ls)) < maxLocks"
proof -
  let ?s = "sweep now ls"
  from c have free: "conflict ?s p depth = None" and len: "length (byToken ?s) < maxLocks"
    by (auto simp: create_def Let_def split: if_splits)
  then obtain tok where tok: "newToken rnd = Inr tok"
    using c by (auto simp: create_def Let_def split: sum.splits)
  let ?l = "new_lock now tok p depth owner timeout"
  have l [simp]: "lk_path ?l = p" "lk_depth ?l = depth" "lk_token ?l = tok"
    by (simp_all add: new_lock_def)
  have s: "r = length (lockHeap ?s)" "ls' = ?s\<lparr>byToken := AList.update (lk_token ?l) (length (lockHeap ?s)) (byToken ?s),
      byPath := AList.update p (length (lockHeap ?s)) (byPath ?s), lockHeap := lockHeap ?s @ [?l]\<rparr>"
    using c free len tok by (auto simp: create_def Let_def new_lock_def)
  have t: "map_of (byToken ?s) (lk_token ?l) = None"
    using fresh_rnd_sweep [OF ls_inv_linked [OF inv] fr, of now] tok by (simp add: fresh_rnd_def)
  have f: "conflict ?s p (lk_depth ?l) = None" using free by simp
  have d: "lk_depth ?l \<in> {depthZero, depthInfinity}" using p(2) by simp
  note ins = insert_lock [OF ls_inv_sweep [OF inv] p(1) l(1) d t f]
  show ?thesis
  proof (rule that [OF tok _ _ _ _ free len])
    show "ls_inv ls'" unfolding s(2) by (rule ins(1))
    show "held ls' = (live now (held ls))(p \<mapsto> ?l)"
      unfolding s(2) held_sweep [OF ls_inv_linked [OF inv], symmetric] by (rule ins(2))
    show "deref ls' r = ?l" by (simp add: s)
    show "r = length (lockHeap ls)"
      by (simp add: s(1) sweep_eq [OF ls_inv_linked [OF inv]])
  qed
qed

section \<open>Confirming, refreshing and releasing\<close>

lemma held_token:
  assumes "linked ls"
  shows "names_lock ls p t \<longleftrightarrow> (\<exists>l. held ls p = Some l \<and> lk_token l = t)"
proof
  assume "names_lock ls p t"
  then obtain r where "map_of (byToken ls) t = Some r" "lk_path (deref ls r) = p"
    by (auto simp: names_lock_def split: option.splits)
  then show "\<exists>l. held ls p = Some l \<and> lk_token l = t"
    using linkedD_token [OF assms, of t r] by (auto simp: held_def)
next
  assume "\<exists>l. held ls p = Some l \<and> lk_token l = t"
  then show "names_lock ls p t"
    using linkedD_path [OF assms, of p] by (auto simp: held_def names_lock_def)
qed

lemma confirm_iff:
  assumes "ls_inv ls" and "canonical p"
  shows "fst (confirm now p tokens ls) = None \<longleftrightarrow>
    (\<forall>q l. live now (held ls) q = Some l \<and> blocks p depthZero l \<longrightarrow> lk_token l \<in> set tokens)"
proof -
  let ?s = "sweep now ls"
  note inv = ls_inv_sweep [OF assms(1), of now]
  note h = held_sweep [OF ls_inv_linked [OF assms(1)], of now, symmetric]
  show ?thesis
  proof (cases "conflict ?s p depthZero")
    case None
    then show ?thesis
      using conflict_NoneD [OF assms(2) inv None] by (auto simp: confirm_def h)
  next
    case (Some r)
    from conflict_SomeD [OF assms(2) inv Some] obtain q
      where q: "held ?s q = Some (deref ?s r)" "blocks p depthZero (deref ?s r)" by blast
    have "l = deref ?s r" if "held ?s q' = Some l" "blocks p depthZero l" for q' l
      using blockers_unique [OF ls_inv_exclusive [OF inv] that q assms(2)] by blast
    then have "(\<forall>q l. held ?s q = Some l \<and> blocks p depthZero l \<longrightarrow> lk_token l \<in> set tokens)
      \<longleftrightarrow> lk_token (deref ?s r) \<in> set tokens"
      using q by metis
    then show ?thesis using Some by (simp add: confirm_def h Let_def)
  qed
qed

lemma confirm_result: "fst (confirm now p tokens ls) \<in> {None, Some ErrLocked}"
  by (simp add: confirm_def Let_def split: option.splits)

lemma confirm_state: "snd (confirm now p tokens ls) = sweep now ls"
  by (simp add: confirm_def Let_def split: option.splits)

lemma held_restrict_one:
  assumes "linked ls" and "map_of (byPath ls) p = Some r"
  shows "held (restrict_locks (\<lambda>r'. r' \<noteq> r) ls) = (held ls)(p := None)"
proof
  fix q
  show "held (restrict_locks (\<lambda>r'. r' \<noteq> r) ls) q = ((held ls)(p := None)) q"
    using assms(2) linkedD_path(2) [OF assms(1), of q] linkedD_path(2) [OF assms]
    unfolding held_restrict [OF assms(1)]
    by (cases "map_of (byPath ls) q") (auto simp: held_def)
qed

lemma unlock_cases:
  assumes "ls_inv ls"
  shows "(\<exists>l. live now (held ls) p = Some l \<and> lk_token l = t \<and>
            fst (unlock now p t ls) = None \<and>
            held (snd (unlock now p t ls)) = (live now (held ls))(p := None)) \<or>
         ((\<nexists>l. live now (held ls) p = Some l \<and> lk_token l = t) \<and>
            unlock now p t ls = (Some ErrNoSuchLock, sweep now ls))"
proof -
  let ?s = "sweep now ls"
  note lk = ls_inv_linked [OF ls_inv_sweep [OF assms, of now]]
  note h = held_sweep [OF ls_inv_linked [OF assms], of now, symmetric]
  show ?thesis
  proof (cases "names_lock ?s p t")
    case True
    then obtain l where l: "held ?s p = Some l" "lk_token l = t" using held_token [OF lk] by blast
    then obtain r where r: "map_of (byPath ?s) p = Some r" "l = deref ?s r" by (auto simp: held_Some)
    note rr = linkedD_path [OF lk r(1)]
    have "unlock now p t ls = (None, restrict_locks (\<lambda>r'. r' \<noteq> r) ?s)"
      using rr r l delete_both [OF lk r(1)] by (simp add: unlock_def Let_def)
    moreover have "held (restrict_locks (\<lambda>r'. r' \<noteq> r) ?s) = (held ?s)(p := None)"
      by (rule held_restrict_one [OF lk r(1)])
    ultimately show ?thesis using l by (simp add: h)
  next
    case False
    then show ?thesis using held_token [OF lk, of p t]
      by (auto simp: unlock_def h names_lock_def Let_def split: option.splits)
  qed
qed

lemma unlock_inv: "ls_inv ls \<Longrightarrow> ls_inv (snd (unlock now p t ls))"
proof -
  assume inv: "ls_inv ls"
  let ?s = "sweep now ls"
  note si = ls_inv_sweep [OF inv, of now]
  show ?thesis
  proof (cases "names_lock ?s p t")
    case True
    then obtain r where r: "map_of (byPath ?s) p = Some r" "lk_token (deref ?s r) = t"
      using held_token [OF ls_inv_linked [OF si]] by (auto simp: held_def)
    then have "snd (unlock now p t ls) = restrict_locks (\<lambda>r'. r' \<noteq> r) ?s"
      using linkedD_path [OF ls_inv_linked [OF si] r(1)] delete_both [OF ls_inv_linked [OF si] r(1)]
      by (simp add: unlock_def Let_def)
    then show ?thesis using ls_inv_restrict [OF si] by simp
  next
    case False
    then show ?thesis using si by (auto simp: unlock_def names_lock_def Let_def split: option.splits)
  qed
qed

lemma exclusive_upd:
  assumes "exclusive h" and "h p = Some m" and "lk_path l = lk_path m" and "lk_depth l = lk_depth m"
  shows "exclusive (h(p \<mapsto> l))"
  unfolding exclusive_def
proof (intro conjI allI impI)
  fix q k assume "(h(p \<mapsto> l)) q = Some k"
  then show "canonical q" "lk_path k = q" "lk_depth k \<in> {depthZero, depthInfinity}"
    using assms exclusiveD [OF assms(1), of q] exclusiveD [OF assms(1,2)] by (auto split: if_splits)
next
  fix q q' k k' assume "(h(p \<mapsto> l)) q = Some k \<and> (h(p \<mapsto> l)) q' = Some k' \<and> strictlyUnder q q'"
  then show "lk_depth k \<noteq> depthInfinity"
    using assms(2-4) exclusive_disjoint [OF assms(1), of q _ q'] by (auto split: if_splits)
qed

text \<open>A refresh rewrites one heap cell; path, token and depth stay.\<close>

lemma rewrite_lock:
  assumes inv: "ls_inv ls" and r: "map_of (byPath ls) p = Some r"
    and l: "lk_token l = lk_token (deref ls r)" "lk_path l = lk_path (deref ls r)"
      "lk_depth l = lk_depth (deref ls r)"
  defines "ls' \<equiv> ls\<lparr>lockHeap := (lockHeap ls)[r := l]\<rparr>"
  shows "ls_inv ls'" and "held ls' = (held ls)(p \<mapsto> l)"
proof -
  note lk = ls_inv_linked [OF inv]
  note rr = linkedD_path [OF lk r]
  have d: "deref ls' r' = (if r' = r then l else deref ls r')" for r'
    using rr(1) by (simp add: ls'_def nth_list_update)
  have maps: "byToken ls' = byToken ls" "byPath ls' = byPath ls" "length (lockHeap ls') = length (lockHeap ls)"
    by (simp_all add: ls'_def)
  show h: "held ls' = (held ls)(p \<mapsto> l)"
  proof
    fix q
    show "held ls' q = ((held ls)(p \<mapsto> l)) q"
      using r rr(2) linkedD_path(2) [OF lk, of q]
      by (cases "map_of (byPath ls) q") (auto simp: held_def maps d)
  qed
  have "linked ls'"
    using lk l unfolding linked_def maps d by (smt (verit))
  moreover have "exclusive (held ls')"
    unfolding h using ls_inv_exclusive [OF inv] r l by (auto simp: held_def intro: exclusive_upd)
  ultimately show "ls_inv ls'" by (simp add: ls_inv_def)
qed

lemma refresh_cases:
  assumes "ls_inv ls"
  obtains (none) "refresh now p tokens timeout ls = (Inl ErrNoSuchLock, sweep now ls)"
      and "\<nexists>l. live now (held ls) p = Some l \<and> lk_token l \<in> set tokens"
  | (some) r l ls' where "refresh now p tokens timeout ls = (Inr r, ls')"
      and "live now (held ls) p = Some l" and "lk_token l \<in> set tokens"
      and "deref ls' r = l\<lparr>lk_timeout := timeout, lk_expiry := now + timeout\<rparr>"
      and "held ls' = (live now (held ls))(p \<mapsto> l\<lparr>lk_timeout := timeout, lk_expiry := now + timeout\<rparr>)"
      and "ls_inv ls'"
proof -
  let ?s = "sweep now ls"
  note si = ls_inv_sweep [OF assms, of now]
  note lk = ls_inv_linked [OF si]
  note h = held_sweep [OF ls_inv_linked [OF assms], of now, symmetric]
  show thesis
  proof (cases "find (names_lock ?s p) tokens")
    case None
    then have "\<nexists>l. live now (held ls) p = Some l \<and> lk_token l \<in> set tokens"
      by (auto simp: find_None_iff held_token [OF lk] h)
    then show thesis using None none by (simp add: refresh_def Let_def)
  next
    case (Some t)
    then have t: "names_lock ?s p t" "t \<in> set tokens" by (auto simp: find_Some_iff)
    then obtain l where l: "held ?s p = Some l" "lk_token l = t" using held_token [OF lk] by blast
    then obtain r where r: "map_of (byPath ?s) p = Some r" "l = deref ?s r" by (auto simp: held_Some)
    note rr = linkedD_path [OF lk r(1)]
    let ?l = "l\<lparr>lk_timeout := timeout, lk_expiry := now + timeout\<rparr>"
    have lr: "lk_token ?l = lk_token (deref ?s r)" "lk_path ?l = lk_path (deref ?s r)"
      "lk_depth ?l = lk_depth (deref ?s r)" by (simp_all add: r(2))
    have "refresh now p tokens timeout ls = (Inr r, ?s\<lparr>lockHeap := (lockHeap ?s)[r := ?l]\<rparr>)"
      using Some rr l r by (simp add: refresh_def Let_def)
    moreover have "live now (held ls) p = Some l" "lk_token l \<in> set tokens"
      using l t(2) by (simp_all add: h)
    moreover have "deref (?s\<lparr>lockHeap := (lockHeap ?s)[r := ?l]\<rparr>) r = ?l"
      using rr(1) by simp
    moreover have "held (?s\<lparr>lockHeap := (lockHeap ?s)[r := ?l]\<rparr>) = (live now (held ls))(p \<mapsto> ?l)"
      unfolding h by (rule rewrite_lock(2) [OF si r(1) lr])
    ultimately show thesis using rewrite_lock(1) [OF si r(1) lr] by (rule some)
  qed
qed

section \<open>The contract of a lock store\<close>

text \<open>
  What the request handlers rely on: confirming, acquiring and releasing act on the abstract map
  as stated, whatever the representation.
\<close>

locale lock_store =
  fixes inv :: "'s \<Rightarrow> bool" and view :: "'s \<Rightarrow> path \<Rightarrow> lockInfo option"
    and conf :: "int \<Rightarrow> path \<Rightarrow> token list \<Rightarrow> 's \<Rightarrow> lock_error option \<times> 's"
    and acq :: "int \<Rightarrow> 'r \<Rightarrow> path \<Rightarrow> int \<Rightarrow> bytes \<Rightarrow> nanos \<Rightarrow> 's \<Rightarrow> (lock_error + 'h) \<times> 's"
    and rel :: "path \<Rightarrow> 's \<Rightarrow> 's" and fresh :: "'s \<Rightarrow> 'r \<Rightarrow> bool"
  assumes exclusive_view: "inv s \<Longrightarrow> exclusive (view s)"
    and conf_pass: "inv s \<Longrightarrow> canonical p \<Longrightarrow> fst (conf now p ts s) = None \<longleftrightarrow>
      (\<forall>q l. live now (view s) q = Some l \<and> blocks p depthZero l \<longrightarrow> lk_token l \<in> set ts)"
    and conf_state: "inv s \<Longrightarrow> inv (snd (conf now p ts s)) \<and> view (snd (conf now p ts s)) = live now (view s)"
    and acq_grant: "inv s \<Longrightarrow> canonical p \<Longrightarrow> d \<in> {depthZero, depthInfinity} \<Longrightarrow> fresh s rnd \<Longrightarrow>
      acq now rnd p d ow t s = (Inr r, s') \<Longrightarrow>
      inv s' \<and> (\<exists>tok. view s' = (live now (view s))(p \<mapsto> new_lock now tok p d ow t)) \<and>
      (\<forall>q l. live now (view s) q = Some l \<longrightarrow> \<not> blocks p d l)"
    and acq_refuse: "inv s \<Longrightarrow> acq now rnd p d ow t s = (Inl e, s') \<Longrightarrow>
      inv s' \<and> view s' = live now (view s)"
    and rel_view: "inv s \<Longrightarrow> inv (rel p s) \<and> view (rel p s) q = (if under p q then None else view s q)"
begin

lemma holder_excludes:
  "inv s \<Longrightarrow> canonical p \<Longrightarrow> live now (view s) q = Some l \<Longrightarrow> blocks p depthZero l \<Longrightarrow>
   lk_token l \<notin> set ts \<Longrightarrow> fst (conf now p ts s) \<noteq> None"
  by (auto simp: conf_pass)

text \<open>Within its scope a live lock makes its token the only credential.\<close>

lemma scope_credential:
  assumes "inv s" and "canonical q" and l: "live now (view s) p = Some l" "blocks q depthZero l"
  shows "fst (conf now q ts s) = None \<longleftrightarrow> lk_token l \<in> set ts"
proof -
  have "l = m" if "live now (view s) q' = Some m" "blocks q depthZero m" for q' m
    using blockers_unique [OF exclusive_view [OF assms(1)], of p l q q' m] l that assms(2)
    by (simp add: live_Some)
  then show ?thesis using l unfolding conf_pass [OF assms(1,2)] by metis
qed

lemma grant_is_exclusive:
  assumes "inv s" and "canonical p" and "d \<in> {depthZero, depthInfinity}" and "fresh s rnd"
    and g: "acq now rnd p d ow t s = (Inr r, s')" and "now' \<le> now + t"
    and a: "canonical p'" "d' \<in> {depthZero, depthInfinity}" "fresh s' rnd'"
    and b: "blocks p' d' (new_lock now tok p d ow t)"
  shows "\<exists>e. fst (acq now' rnd' p' d' ow' t' s') = Inl e"
proof (cases "acq now' rnd' p' d' ow' t' s'")
  case (Pair res s'')
  from acq_grant [OF assms(1-5)] obtain tok' where s': "inv s'"
    "view s' p = Some (new_lock now tok' p d ow t)" by auto
  have "live now' (view s') p = Some (new_lock now tok' p d ow t)"
    using s'(2) assms(6) by (simp add: live_def expired_def new_lock_def)
  moreover have "blocks p' d' (new_lock now tok' p d ow t)"
    using b by (simp add: blocks_def new_lock_def)
  ultimately show ?thesis
    using acq_grant [OF s'(1) a, of now' ow' t'] Pair by (cases res) auto
qed

text \<open>Once a subtree is released nothing is held in it.\<close>

lemma released:
  assumes "inv s" and "canonical p" and "canonical d" and "under d p"
    and "\<And>q l. view s q = Some l \<Longrightarrow> blocks p depthZero l \<Longrightarrow> under d q"
  shows "fst (conf now p ts (rel d s)) = None"
proof -
  have "inv (rel d s)" using rel_view [OF assms(1)] by blast
  moreover have "\<not> blocks p depthZero l" if "live now (view (rel d s)) q = Some l" for q l
    using that rel_view [OF assms(1), of d q] assms(5) [of q l] by (auto simp: live_Some split: if_splits)
  ultimately show ?thesis by (auto simp: conf_pass assms)
qed

end

interpretation lk: lock_store ls_inv held confirm create releaseTree fresh_rnd
proof unfold_locales
  fix s s' :: lockSystem and now t :: int and p q :: path and ts :: "token list" and d :: int
    and ow :: bytes and rnd :: "go_error + bytes" and r :: nat and e :: lock_error
  show "ls_inv s \<Longrightarrow> exclusive (held s)" by (rule ls_inv_exclusive)
  show "ls_inv s \<Longrightarrow> canonical p \<Longrightarrow> fst (confirm now p ts s) = None \<longleftrightarrow>
      (\<forall>q l. live now (held s) q = Some l \<and> blocks p depthZero l \<longrightarrow> lk_token l \<in> set ts)"
    by (rule confirm_iff)
  show "ls_inv s \<Longrightarrow> ls_inv (snd (confirm now p ts s)) \<and> held (snd (confirm now p ts s)) = live now (held s)"
    by (simp add: confirm_state ls_inv_sweep held_sweep ls_inv_linked)
  show "ls_inv s \<Longrightarrow> create now rnd p d ow t s = (Inl e, s') \<Longrightarrow> ls_inv s' \<and> held s' = live now (held s)"
    by (auto dest!: create_Inl simp: ls_inv_sweep held_sweep ls_inv_linked)
  show "ls_inv s \<Longrightarrow> ls_inv (releaseTree p s) \<and>
      held (releaseTree p s) q = (if under p q then None else held s q)"
    by (simp add: ls_inv_releaseTree held_releaseTree ls_inv_linked)
  assume a: "ls_inv s" "canonical p" "d \<in> {depthZero, depthInfinity}" "fresh_rnd s rnd"
    "create now rnd p d ow t s = (Inr r, s')"
  show "ls_inv s' \<and> (\<exists>tok. held s' = (live now (held s))(p \<mapsto> new_lock now tok p d ow t)) \<and>
      (\<forall>q l. live now (held s) q = Some l \<longrightarrow> \<not> blocks p d l)"
  proof (rule create_Inr [OF a])
    fix tok assume b: "ls_inv s'" "held s' = (live now (held s))(p \<mapsto> new_lock now tok p d ow t)"
      "conflict (sweep now s) p d = None"
    show ?thesis
      using b conflict_NoneD [OF a(2) ls_inv_sweep [OF a(1)] b(3)]
      by (simp add: held_sweep [OF ls_inv_linked [OF a(1)]]) blast
  qed
qed

section \<open>The table as a state machine\<close>

text \<open>
  The events are the calls the handlers make, each with the time it happens at. A path is one
  \<open>resource\<close> produced, a depth one \<open>LOCK\<close> accepts, and a new token names no lock.
\<close>

datatype ls_event =
    Ev_create int "go_error + bytes" path int bytes nanos
  | Ev_refresh int path "token list" nanos
  | Ev_unlock int path token
  | Ev_release path
  | Ev_confirm int path "token list"
  | Ev_find int path

inductive ls_step :: "lockSystem \<Rightarrow> ls_event \<Rightarrow> lockSystem \<Rightarrow> bool" where
  step_create: "canonical p \<Longrightarrow> d \<in> {depthZero, depthInfinity} \<Longrightarrow> fresh_rnd ls rnd \<Longrightarrow>
     ls_step ls (Ev_create now rnd p d ow t) (snd (create now rnd p d ow t ls))"
| step_refresh: "ls_step ls (Ev_refresh now p ts t) (snd (refresh now p ts t ls))"
| step_unlock: "ls_step ls (Ev_unlock now p t) (snd (unlock now p t ls))"
| step_release: "ls_step ls (Ev_release p) (releaseTree p ls)"
| step_confirm: "ls_step ls (Ev_confirm now p ts) (snd (confirm now p ts ls))"
| step_find: "ls_step ls (Ev_find now p) (snd (find_lock now p ls))"

inductive_cases ls_stepE: "ls_step ls e ls'"

inductive ls_steps :: "lockSystem \<Rightarrow> ls_event list \<Rightarrow> lockSystem \<Rightarrow> bool" where
  steps_Nil: "ls_steps ls [] ls"
| steps_Cons: "ls_step ls e ls1 \<Longrightarrow> ls_steps ls1 es ls2 \<Longrightarrow> ls_steps ls (e # es) ls2"

inductive_cases ls_steps_NilE [elim!]: "ls_steps ls [] ls'"
inductive_cases ls_steps_ConsE [elim!]: "ls_steps ls (e # es) ls'"

lemma create_inv:
  assumes "ls_inv ls" and "canonical p" and "d \<in> {depthZero, depthInfinity}" and "fresh_rnd ls rnd"
  shows "ls_inv (snd (create now rnd p d ow t ls))"
proof (cases "create now rnd p d ow t ls")
  case (Pair res ls')
  then show ?thesis
    using lk.acq_grant [OF assms, of now ow t] lk.acq_refuse [OF assms(1), of now rnd p d ow t]
    by (cases res) auto
qed

lemma refresh_inv: "ls_inv ls \<Longrightarrow> ls_inv (snd (refresh now p ts t ls))"
  by (rule refresh_cases [of ls now p ts t]) (auto simp: ls_inv_sweep)

lemma find_lock_state: "snd (find_lock now p ls) = sweep now ls"
  by (simp add: find_lock_def Let_def)

lemma ls_step_inv: "ls_step ls e ls' \<Longrightarrow> ls_inv ls \<Longrightarrow> ls_inv ls'"
  by (erule ls_step.cases)
     (auto simp: create_inv refresh_inv unlock_inv ls_inv_releaseTree confirm_state find_lock_state
       ls_inv_sweep)

lemma ls_steps_inv: "ls_steps ls es ls' \<Longrightarrow> ls_inv ls \<Longrightarrow> ls_inv ls'"
  by (induction rule: ls_steps.induct) (auto dest: ls_step_inv)

subsection \<open>The bound on the table\<close>

lemma sweep_shrinks: "linked ls \<Longrightarrow> length (byToken (sweep now ls)) \<le> length (byToken ls)"
  by (simp add: sweep_eq)

lemma release_shrinks: "linked ls \<Longrightarrow> length (byToken (releaseTree p ls)) \<le> length (byToken ls)"
  by (simp add: releaseTree_eq)

lemma length_delete: "length (AList.delete k xs) \<le> length xs"
  by (simp add: AList.delete_eq)

lemma length_update: "length (AList.update k v xs) \<le> Suc (length xs)"
  by (induction xs) auto

lemma ls_step_bound:
  assumes "ls_step ls e ls'" and "linked ls" and "length (byToken ls) \<le> maxLocks"
  shows "length (byToken ls') \<le> maxLocks"
proof -
  have sw: "length (byToken (sweep now ls)) \<le> maxLocks" for now
    using sweep_shrinks [OF assms(2), of now] assms(3) by simp
  have cr: "length (byToken (snd (create now rnd p d ow t ls))) \<le> maxLocks" for now rnd p d ow t
    using sw [of now] length_update [of _ _ "byToken (sweep now ls)"]
    by (auto simp: create_def Let_def split: sum.splits intro: order_trans [OF length_update])
  have un: "length (byToken (snd (unlock now p t ls))) \<le> maxLocks" for now p t
    using sw [of now] length_delete [of t "byToken (sweep now ls)"]
    by (auto simp: unlock_def Let_def split: option.splits)
  have re: "length (byToken (snd (refresh now p ts t ls))) \<le> maxLocks" for now p ts t
    using sw [of now] by (auto simp: refresh_def Let_def split: option.splits)
  have rl: "length (byToken (releaseTree p ls)) \<le> maxLocks" for p
    using release_shrinks [OF assms(2), of p] assms(3) by simp
  show ?thesis
    using assms(1) sw cr un re rl by cases (simp_all add: confirm_state find_lock_state)
qed

lemma ls_steps_bound:
  "ls_steps ls es ls' \<Longrightarrow> ls_inv ls \<Longrightarrow> length (byToken ls) \<le> maxLocks \<Longrightarrow> length (byToken ls') \<le> maxLocks"
  by (induction rule: ls_steps.induct) (auto dest: ls_step_inv ls_step_bound ls_inv_linked)

subsection \<open>How long a lock lasts\<close>

text \<open>
  The events that leave the lock with token \<open>tok\<close> on \<open>p\<close> in force up to time \<open>D\<close>: nothing
  later than \<open>D\<close>, no \<open>UNLOCK\<close> with its token, no removal of its resource, and no refresh of it
  to an earlier deadline.
\<close>

fun spares :: "int \<Rightarrow> path \<Rightarrow> token \<Rightarrow> ls_event \<Rightarrow> bool" where
  "spares D p tok (Ev_create now rnd q d ow t) \<longleftrightarrow> now \<le> D"
| "spares D p tok (Ev_refresh now q ts t) \<longleftrightarrow>
     now \<le> D \<and> (q = p \<and> tok \<in> set ts \<longrightarrow> D \<le> now + t)"
| "spares D p tok (Ev_unlock now q t) \<longleftrightarrow> now \<le> D \<and> \<not> (q = p \<and> t = tok)"
| "spares D p tok (Ev_release q) \<longleftrightarrow> \<not> under q p"
| "spares D p tok (Ev_confirm now q ts) \<longleftrightarrow> now \<le> D"
| "spares D p tok (Ev_find now q) \<longleftrightarrow> now \<le> D"

definition holds_until :: "int \<Rightarrow> path \<Rightarrow> token \<Rightarrow> int \<Rightarrow> lockSystem \<Rightarrow> bool" where
  "holds_until D p tok d ls \<longleftrightarrow>
     (\<exists>l. held ls p = Some l \<and> lk_token l = tok \<and> lk_depth l = d \<and> D \<le> lk_expiry l)"

lemma holds_live:
  "holds_until D p tok d ls \<Longrightarrow> now \<le> D \<Longrightarrow>
   \<exists>l. live now (held ls) p = Some l \<and> lk_token l = tok \<and> lk_depth l = d \<and> D \<le> lk_expiry l"
  by (auto simp: holds_until_def live_def expired_def)

lemma holds_sweep:
  "linked ls \<Longrightarrow> holds_until D p tok d ls \<Longrightarrow> now \<le> D \<Longrightarrow> holds_until D p tok d (sweep now ls)"
  by (auto dest: holds_live simp: holds_until_def [of _ _ _ _ "sweep now ls"] held_sweep)

lemma holds_step:
  assumes st: "ls_step ls e ls'" and inv: "ls_inv ls" and h: "holds_until D p tok d ls"
    and sp: "spares D p tok e"
  shows "holds_until D p tok d ls'"
  using st
proof cases
  case (step_create q d' rnd now ow t)
  then obtain l where l: "live now (held ls) p = Some l" "lk_token l = tok" "lk_depth l = d"
    "D \<le> lk_expiry l" using holds_live [OF h] sp by auto
  obtain res ls1 where c: "create now rnd q d' ow t ls = (res, ls1)" by fastforce
  show ?thesis
  proof (cases res)
    case (Inl e')
    then show ?thesis using lk.acq_refuse [OF inv] c l step_create by (auto simp: holds_until_def)
  next
    case (Inr r)
    note g = lk.acq_grant [OF inv step_create(3-5), of now ow t r ls1]
    have "q \<noteq> p" using g c Inr l(1) exclusiveD(2) [OF ls_inv_exclusive [OF inv], of p l]
      by (auto simp: blocks_def live_Some)
    then show ?thesis using g c Inr l step_create by (auto simp: holds_until_def)
  qed
next
  case (step_refresh now q ts t)
  then obtain l where l: "live now (held ls) p = Some l" "lk_token l = tok" "lk_depth l = d"
    "D \<le> lk_expiry l" using holds_live [OF h] sp by auto
  show ?thesis
  proof (cases rule: refresh_cases [OF inv, of now q ts t])
    case 1
    then show ?thesis using l step_refresh by (simp add: holds_until_def held_sweep ls_inv_linked [OF inv])
  next
    case (2 r l' ls1)
    then show ?thesis using l step_refresh sp by (auto simp: holds_until_def)
  qed
next
  case (step_unlock now q t)
  then obtain l where l: "live now (held ls) p = Some l" "lk_token l = tok" "lk_depth l = d"
    "D \<le> lk_expiry l" using holds_live [OF h] sp by auto
  then show ?thesis using unlock_cases [OF inv, of now q t] step_unlock sp
    by (auto simp: holds_until_def held_sweep ls_inv_linked [OF inv])
next
  case (step_release q)
  then show ?thesis using h sp by (auto simp: holds_until_def held_releaseTree ls_inv_linked [OF inv])
next
  case (step_confirm now q ts)
  then show ?thesis using holds_sweep [OF ls_inv_linked [OF inv] h] sp by (simp add: confirm_state)
next
  case (step_find now q)
  then show ?thesis using holds_sweep [OF ls_inv_linked [OF inv] h] sp by (simp add: find_lock_state)
qed

lemma holds_steps:
  "ls_steps ls es ls' \<Longrightarrow> ls_inv ls \<Longrightarrow> holds_until D p tok d ls \<Longrightarrow> \<forall>e \<in> set es. spares D p tok e \<Longrightarrow>
   holds_until D p tok d ls'"
  by (induction rule: ls_steps.induct) (auto dest: ls_step_inv holds_step)

section \<open>Properties\<close>

text \<open>A concrete grant, for the witnesses.\<close>

definition demo_token :: token where "demo_token = ''opaquelocktoken:78''"

definition demo_locks :: lockSystem where
  "demo_locks = \<lparr>byToken = [(demo_token, 0)], byPath = [(''/a'', 0)],
     lockHeap = [new_lock 0 demo_token ''/a'' depthInfinity [] 10]\<rparr>"

lemma demo_create: "create 0 (Inr ''x'') ''/a'' depthInfinity [] 10 empty_locks = (Inr 0, demo_locks)"
proof -
  have "newToken (Inr ''x'') = Inr demo_token" by code_simp
  moreover have "conflict_up empty_locks (parentOf ''/a'') = None" by code_simp
  ultimately show ?thesis
    by (simp add: create_def sweep_def conflict_def empty_locks_def demo_locks_def new_lock_def maxLocks_def)
qed

lemma demo_canonical [simp]: "canonical ''/a''" "canonical ''/a/b''"
  by (simp_all add: canonical_def comps_def good_comp_def)

lemma demo_fresh [simp]: "fresh_rnd empty_locks rnd"
  by (simp add: fresh_rnd_def empty_locks_def split: sum.splits)

lemma demo_inv: "ls_inv demo_locks"
  using create_inv [OF ls_inv_empty demo_canonical(1) _ demo_fresh, of depthInfinity 0 "Inr ''x''" "[]" 10]
  unfolding demo_create by simp

lemma demo_held: "held demo_locks = [''/a'' \<mapsto> new_lock 0 demo_token ''/a'' depthInfinity [] 10]"
  by (rule ext) (simp add: held_def demo_locks_def)

lemma create_verdict:
  assumes "ls_inv ls" and "canonical p" and "d \<in> {depthZero, depthInfinity}" and "fresh_rnd ls rnd"
    and "create now rnd p d ow t ls = (res, ls')"
  defines "h \<equiv> live now (held ls)"
  shows "ls_inv ls' \<and> (case res of
      Inr r \<Rightarrow> (\<forall>q l. h q = Some l \<longrightarrow> \<not> blocks p d l) \<and> card (dom h) < maxLocks \<and>
        (\<exists>tok. newToken rnd = Inr tok \<and> deref ls' r = new_lock now tok p d ow t \<and>
          held ls' = h(p \<mapsto> deref ls' r))
    | Inl e \<Rightarrow> held ls' = h \<and> (case e of
        ErrLocked \<Rightarrow> \<exists>q l. h q = Some l \<and> blocks p d l
      | ErrLockTableFull \<Rightarrow> maxLocks \<le> card (dom h)
      | ErrRand x \<Rightarrow> newToken rnd = Inl x
      | ErrNoSuchLock \<Rightarrow> False))"
proof -
  let ?s = "sweep now ls"
  have h: "h = held ?s" by (simp add: h_def held_sweep ls_inv_linked [OF assms(1)])
  note si = ls_inv_sweep [OF assms(1), of now]
  have card: "card (dom h) = length (byToken ?s)" by (simp add: h held_card ls_inv_linked [OF si])
  have met: "\<exists>q l. held ?s q = Some l \<and> blocks p d l" if "conflict ?s p d = Some r" for r
    using conflict_SomeD [OF assms(2) si that] by blast
  show ?thesis
  proof (cases res)
    case (Inl e)
    then have "ls' = ?s" using assms(5) create_Inl by simp
    moreover have "case e of
        ErrLocked \<Rightarrow> \<exists>q l. h q = Some l \<and> blocks p d l
      | ErrLockTableFull \<Rightarrow> maxLocks \<le> card (dom h)
      | ErrRand x \<Rightarrow> newToken rnd = Inl x
      | ErrNoSuchLock \<Rightarrow> False"
      using assms(5) met unfolding Inl card
      by (auto simp: create_def Let_def h split: if_splits sum.splits)
    ultimately show ?thesis using Inl si by (simp add: h)
  next
    case (Inr r)
    obtain tok where g: "newToken rnd = Inr tok" "ls_inv ls'" "deref ls' r = new_lock now tok p d ow t"
      "held ls' = (live now (held ls))(p \<mapsto> new_lock now tok p d ow t)"
      "conflict ?s p d = None" "length (byToken ?s) < maxLocks"
      by (rule create_Inr [OF assms(1-4) assms(5) [unfolded Inr]])
    moreover have "\<not> blocks p d l" if "h q = Some l" for q l
      using conflict_NoneD [OF assms(2) si g(5)] that by (simp add: h)
    ultimately show ?thesis unfolding Inr card by (simp add: h_def)
  qed
qed

text \<open>
  \<open>create\<close> grants a lock exactly when no live lock meets the requested scope, the table has
  room and a token can be minted; a grant adds that one lock under the new token, and a refusal
  changes nothing but dropping expired locks.
\<close>

theorem create_grants:
  assumes "ls_inv ls" and "canonical p" and "d \<in> {depthZero, depthInfinity}" and "fresh_rnd ls rnd"
    and "create now rnd p d ow t ls = (res, ls')"
  defines "h \<equiv> live now (held ls)"
  shows "ls_inv ls' \<and> (case res of
      Inr r \<Rightarrow> (\<forall>q l. h q = Some l \<longrightarrow> \<not> blocks p d l) \<and> card (dom h) < maxLocks \<and>
        (\<exists>tok. newToken rnd = Inr tok \<and> deref ls' r = new_lock now tok p d ow t \<and>
          held ls' = h(p \<mapsto> deref ls' r))
    | Inl e \<Rightarrow> held ls' = h \<and> (case e of
        ErrLocked \<Rightarrow> \<exists>q l. h q = Some l \<and> blocks p d l
      | ErrLockTableFull \<Rightarrow> maxLocks \<le> card (dom h)
      | ErrRand x \<Rightarrow> newToken rnd = Inl x
      | ErrNoSuchLock \<Rightarrow> False))"
  using create_verdict [OF assms(1-5)] unfolding h_def .

theorem create_grants_witness:
  "held (snd (create 0 (Inr ''x'') ''/a'' depthInfinity [] 10 empty_locks)) ''/a'' =
     Some (new_lock 0 demo_token ''/a'' depthInfinity [] 10)"
  using create_grants [of empty_locks "''/a''" depthInfinity "Inr ''x''" 0 "[]" 10 "Inr 0" demo_locks]
  by (auto simp: demo_create demo_locks_def)

text \<open>
  \<open>confirm\<close>, the check every mutating method makes, passes exactly when the request submits
  the token of every live lock whose scope contains the path, refuses with \<open>ErrLocked\<close>
  otherwise, and never changes a live lock.
\<close>

theorem confirm_enforces:
  assumes "ls_inv ls" and "canonical p"
  shows "(fst (confirm now p tokens ls) = None \<longleftrightarrow>
      (\<forall>q l. live now (held ls) q = Some l \<and>
        (q = p \<or> strictlyUnder q p \<and> lk_depth l = depthInfinity) \<longrightarrow> lk_token l \<in> set tokens))
    \<and> fst (confirm now p tokens ls) \<in> {None, Some ErrLocked}
    \<and> held (snd (confirm now p tokens ls)) = live now (held ls)"
proof -
  have "blocks p depthZero l \<longleftrightarrow> q = p \<or> strictlyUnder q p \<and> lk_depth l = depthInfinity"
    if "live now (held ls) q = Some l" for q l
    using that exclusiveD(2) [OF ls_inv_exclusive [OF assms(1)], of q l]
    by (auto simp: blocks_def live_Some depthZero_def depthInfinity_def)
  then have "fst (confirm now p tokens ls) = None \<longleftrightarrow>
      (\<forall>q l. live now (held ls) q = Some l \<and>
        (q = p \<or> strictlyUnder q p \<and> lk_depth l = depthInfinity) \<longrightarrow> lk_token l \<in> set tokens)"
    unfolding confirm_iff [OF assms] by blast
  then show ?thesis
    using confirm_result [of now p tokens ls] lk.conf_state [OF assms(1), of now p tokens] by simp
qed

theorem confirm_enforces_witness:
  "fst (confirm 3 ''/a/b'' [''other''] demo_locks) = Some ErrLocked
   \<and> fst (confirm 3 ''/a/b'' [demo_token] demo_locks) = None
   \<and> fst (confirm 11 ''/a/b'' [] demo_locks) = None"
proof -
  have s: "strictlyUnder ''/a'' ''/a/b''" by code_simp
  have l3: "live 3 (held demo_locks) = held demo_locks" and l11: "live 11 (held demo_locks) = Map.empty"
    by (rule ext, simp add: live_def demo_held expired_def new_lock_def)+
  have t: "lk_token l \<in> set ts \<longleftrightarrow> demo_token \<in> set ts"
    if "held demo_locks q = Some l" for q l ts
    using that by (auto simp: demo_held new_lock_def split: if_splits)
  have h: "held demo_locks ''/a'' = Some (new_lock 0 demo_token ''/a'' depthInfinity [] 10)"
    and d: "lk_depth (new_lock 0 demo_token ''/a'' depthInfinity [] 10) = depthInfinity"
    by (simp_all add: demo_held new_lock_def)
  note c = confirm_enforces [OF demo_inv demo_canonical(2)]
  have "demo_token \<noteq> ''other''" by (simp add: demo_token_def)
  then have "fst (confirm 3 ''/a/b'' [''other''] demo_locks) \<noteq> None"
    using c [of 3 "[''other'']"] h d s t [OF h, of "[''other'']"] unfolding l3 by auto
  moreover have "fst (confirm 3 ''/a/b'' [demo_token] demo_locks) = None"
    using c [of 3 "[demo_token]"] t [of _ _ "[demo_token]"] unfolding l3 by auto
  moreover have "fst (confirm 11 ''/a/b'' [] demo_locks) = None"
    using c [of 11 "[]"] unfolding l11 by simp
  ultimately show ?thesis using c [of 3 "[''other'']"] by auto
qed

text \<open>
  A token is a credential for one path: \<open>unlock\<close> removes a lock, and \<open>refresh\<close> extends one,
  exactly when the lock is live on that very path under a submitted token; otherwise they refuse
  and change no live lock.
\<close>

theorem token_is_path_bound:
  fixes now :: int
  assumes "ls_inv ls"
  defines "h \<equiv> live now (held ls)"
  shows "(case unlock now p t ls of (res, ls') \<Rightarrow>
      (res = None \<longleftrightarrow> (\<exists>l. h p = Some l \<and> lk_token l = t)) \<and>
      held ls' = (if res = None then h(p := None) else h))
    \<and> (case refresh now p ts tmo ls of (res, ls') \<Rightarrow>
      ((\<exists>r. res = Inr r) \<longleftrightarrow> (\<exists>l. h p = Some l \<and> lk_token l \<in> set ts)) \<and>
      held ls' = (case res of Inl _ \<Rightarrow> h
        | Inr r \<Rightarrow> h(p \<mapsto> (the (h p))\<lparr>lk_timeout := tmo, lk_expiry := now + tmo\<rparr>)))"
proof
  show "case unlock now p t ls of (res, ls') \<Rightarrow>
      (res = None \<longleftrightarrow> (\<exists>l. h p = Some l \<and> lk_token l = t)) \<and>
      held ls' = (if res = None then h(p := None) else h)"
    using unlock_cases [OF assms(1), of now p t] held_sweep [OF ls_inv_linked [OF assms(1)], of now]
    unfolding h_def by (auto split: prod.splits)
  show "case refresh now p ts tmo ls of (res, ls') \<Rightarrow>
      ((\<exists>r. res = Inr r) \<longleftrightarrow> (\<exists>l. h p = Some l \<and> lk_token l \<in> set ts)) \<and>
      held ls' = (case res of Inl _ \<Rightarrow> h
        | Inr r \<Rightarrow> h(p \<mapsto> (the (h p))\<lparr>lk_timeout := tmo, lk_expiry := now + tmo\<rparr>))"
    using held_sweep [OF ls_inv_linked [OF assms(1)], of now] unfolding h_def
    by (cases rule: refresh_cases [OF assms(1), of now p ts tmo]) auto
qed

theorem token_is_path_bound_witness:
  "fst (unlock 3 ''/a/b'' demo_token demo_locks) \<noteq> None \<and> fst (unlock 3 ''/a'' demo_token demo_locks) = None"
proof -
  have l3: "live 3 (held demo_locks) = [''/a'' \<mapsto> new_lock 0 demo_token ''/a'' depthInfinity [] 10]"
    by (rule ext) (simp add: live_def demo_held expired_def new_lock_def)
  show ?thesis
    using token_is_path_bound [OF demo_inv, of 3 "''/a/b''" demo_token "[]" 0]
      token_is_path_bound [OF demo_inv, of 3 "''/a''" demo_token "[]" 0]
    unfolding l3 by (simp add: new_lock_def split: prod.splits)
qed

text \<open>
  C5. Along every sequence of operations from the empty table the two maps and the shared
  \<open>lockInfo\<close>s agree, no lock lies in the scope of another, and the table never exceeds
  \<open>maxLocks\<close>.
\<close>

theorem table_invariant:
  assumes "ls_steps empty_locks es ls"
  shows "linked ls \<and> card (dom (held ls)) \<le> maxLocks
    \<and> (\<forall>p q l m. held ls p = Some l \<and> held ls q = Some m \<and> strictlyUnder p q \<longrightarrow>
        lk_depth l = depthZero)
    \<and> (\<forall>p l. held ls p = Some l \<longrightarrow> canonical p \<and> lk_path l = p)"
proof -
  have inv: "ls_inv ls" using ls_steps_inv [OF assms] by simp
  have "length (byToken ls) \<le> maxLocks"
    using ls_steps_bound [OF assms ls_inv_empty] by (simp add: empty_locks_def)
  then have "card (dom (held ls)) \<le> maxLocks" using held_card [OF ls_inv_linked [OF inv]] by simp
  moreover have "lk_depth l = depthZero"
    if "held ls p = Some l" "held ls q = Some m" "strictlyUnder p q" for p q l m
    using exclusive_disjoint [OF ls_inv_exclusive [OF inv] that]
      exclusiveD(3) [OF ls_inv_exclusive [OF inv] that(1)] by blast
  ultimately show ?thesis
    using ls_inv_linked [OF inv] exclusiveD [OF ls_inv_exclusive [OF inv]] by blast
qed

lemma demo_steps: "ls_steps empty_locks [Ev_create 0 (Inr ''x'') ''/a'' depthInfinity [] 10] demo_locks"
proof -
  have "ls_step empty_locks (Ev_create 0 (Inr ''x'') ''/a'' depthInfinity [] 10)
      (snd (create 0 (Inr ''x'') ''/a'' depthInfinity [] 10 empty_locks))"
    by (rule step_create) simp_all
  then show ?thesis unfolding demo_create by (auto intro: steps_Cons steps_Nil)
qed

theorem table_invariant_witness: "linked demo_locks \<and> card (dom (held demo_locks)) \<le> maxLocks"
  using table_invariant [OF demo_steps] by simp

text \<open>While a live lock stands in the way, no other is granted.\<close>

lemma blocked_create:
  assumes "ls_inv ls" and "live now (held ls) p = Some l" and "canonical q" and "blocks q d l"
  shows "fst (create now rnd q d ow t ls) = Inl ErrLocked"
proof -
  have "conflict (sweep now ls) q d \<noteq> None"
    using conflict_NoneD [OF assms(3) ls_inv_sweep [OF assms(1)], of now d p l] assms(2,4)
    by (auto simp: held_sweep ls_inv_linked [OF assms(1)])
  then show ?thesis by (auto simp: create_def Let_def)
qed

lemma blocks_scope:
  assumes "lk_path l = p" and "q = p \<or> lk_depth l = depthInfinity \<and> under p q \<or> d = depthInfinity \<and> under q p"
  shows "blocks q d l"
  using assms by (auto simp: blocks_def strictlyUnder_def)

text \<open>
  C4. Mutual exclusion: a lock granted by \<open>create\<close> stays in force, whatever other requests do,
  until its deadline, an \<open>UNLOCK\<close> with its token, or the removal of its resource. Up to then an
  operation in its scope passes only with its token, and no second lock is granted whose scope
  meets it.
\<close>

theorem granted_lock_excludes:
  assumes "ls_inv ls" and "canonical p" and "d \<in> {depthZero, depthInfinity}" and "fresh_rnd ls rnd"
    and "create now rnd p d ow t ls = (Inr r, ls1)"
    and "ls_steps ls1 es ls2" and "D \<le> now + t"
    and "\<forall>e \<in> set es. spares D p (lk_token (deref ls1 r)) e"
    and "now' \<le> D"
  shows "(\<forall>q ts. canonical q \<and> (q = p \<or> d = depthInfinity \<and> under p q) \<longrightarrow>
      (fst (confirm now' q ts ls2) = None \<longleftrightarrow> lk_token (deref ls1 r) \<in> set ts))
    \<and> (\<forall>rnd' q d' ow' t'. canonical q \<and> (q = p \<or> d = depthInfinity \<and> under p q \<or>
        d' = depthInfinity \<and> under q p) \<longrightarrow>
      fst (create now' rnd' q d' ow' t' ls2) = Inl ErrLocked)"
proof -
  obtain tok where g: "ls_inv ls1" "deref ls1 r = new_lock now tok p d ow t"
    "held ls1 = (live now (held ls))(p \<mapsto> new_lock now tok p d ow t)"
    by (rule create_Inr [OF assms(1-5)])
  have tok: "lk_token (deref ls1 r) = tok" by (simp add: g(2) new_lock_def)
  have inv2: "ls_inv ls2" by (rule ls_steps_inv [OF assms(6) g(1)])
  have "holds_until D p tok d ls1"
    using assms(7) by (simp add: holds_until_def g(3) new_lock_def)
  then have h2: "holds_until D p tok d ls2"
    using holds_steps [OF assms(6) g(1)] assms(8) tok by blast
  then obtain l where l: "live now' (held ls2) p = Some l" "lk_token l = tok" "lk_depth l = d"
    using holds_live assms(9) by blast
  have path: "lk_path l = p"
    using l(1) exclusiveD(2) [OF ls_inv_exclusive [OF inv2]] by (simp add: live_Some)
  note scope = blocks_scope [OF path, unfolded l(3)]
  show ?thesis
  proof (intro conjI allI impI)
    fix q ts assume q: "canonical q \<and> (q = p \<or> d = depthInfinity \<and> under p q)"
    then have "blocks q depthZero l" using scope by blast
    from lk.scope_credential [OF inv2 _ l(1) this] q
    show "fst (confirm now' q ts ls2) = None \<longleftrightarrow> lk_token (deref ls1 r) \<in> set ts"
      by (simp add: tok l(2))
  next
    fix rnd' q d' ow' t'
    assume "canonical q \<and> (q = p \<or> d = depthInfinity \<and> under p q \<or> d' = depthInfinity \<and> under q p)"
    then show "fst (create now' rnd' q d' ow' t' ls2) = Inl ErrLocked" using blocked_create [OF inv2 l(1)] scope by blast
  qed
qed


theorem granted_lock_excludes_witness:
  "fst (create 5 (Inr ''y'') ''/'' depthInfinity [] 9 (snd (find_lock 4 ''/b'' demo_locks))) = Inl ErrLocked"
proof -
  have s: "ls_steps demo_locks [Ev_find 4 ''/b''] (snd (find_lock 4 ''/b'' demo_locks))"
    by (blast intro: steps_Cons steps_Nil step_find)
  show ?thesis
    using granted_lock_excludes [OF ls_inv_empty demo_canonical(1) _ demo_fresh demo_create s, of 10 5]
    by simp
qed

end
