(* ===== verification/Http.thy ===== *)
theory Http
  imports Headers Status Paths
begin

text \<open>
  What the handlers exchange with \<open>net/http\<close> and \<open>encoding/xml\<close>: requests, responses, header
  maps, \<open>http.Error\<close>, the escaping of text, and the multistatus document of \<open>props.go\<close> with
  the bytes the encoder makes of it.
\<close>

section \<open>Runes\<close>

text \<open>
  \<open>utf8.DecodeRune\<close>: the code point at the front of a non-empty string and its width, or
  \<open>None\<close> for the invalid encoding Go reads as one byte of \<open>RuneError\<close>.
\<close>

definition in_range :: "nat \<Rightarrow> nat \<Rightarrow> char \<Rightarrow> bool" where
  "in_range lo hi c \<longleftrightarrow> lo \<le> (of_char c :: nat) \<and> (of_char c :: nat) \<le> hi"

definition second_byte_ok :: "nat \<Rightarrow> char \<Rightarrow> bool" where
  "second_byte_ok b c =
     (if b = 0xE0 then in_range 0xA0 0xBF c
      else if b = 0xED then in_range 0x80 0x9F c
      else if b = 0xF0 then in_range 0x90 0xBF c
      else if b = 0xF4 then in_range 0x80 0x8F c
      else in_range 0x80 0xBF c)"

definition cont :: "char \<Rightarrow> nat" where "cont c = of_char c - 0x80"

definition decode_rune :: "string \<Rightarrow> (nat \<times> nat) option" where
  "decode_rune s =
     (case s of
        [] \<Rightarrow> None
      | a # s1 \<Rightarrow>
          (let b = (of_char a :: nat)
           in if b < 0x80 then Some (b, 1)
              else if b < 0xC2 \<or> 0xF4 < b then None
              else (case s1 of
                  [] \<Rightarrow> None
                | c # s2 \<Rightarrow>
                    if \<not> second_byte_ok b c then None
                    else if b < 0xE0 then Some ((b - 0xC0) * 64 + cont c, 2)
                    else (case s2 of
                        [] \<Rightarrow> None
                      | d # s3 \<Rightarrow>
                          if \<not> in_range 0x80 0xBF d then None
                          else if b < 0xF0 then Some (((b - 0xE0) * 64 + cont c) * 64 + cont d, 3)
                          else (case s3 of
                              [] \<Rightarrow> None
                            | e # s4 \<Rightarrow>
                                if \<not> in_range 0x80 0xBF e then None
                                else Some ((((b - 0xF0) * 64 + cont c) * 64 + cont d) * 64 + cont e, 4))))))"

lemma decode_rune_width:
  "decode_rune s = Some (r, n) \<Longrightarrow> 0 < n \<and> n \<le> length s"
  by (auto simp: decode_rune_def Let_def split: list.splits if_splits)

text \<open>The loop \<open>for _, r := range s\<close>: each step's rune, when valid, with the bytes it spans.\<close>

function runes :: "string \<Rightarrow> (nat option \<times> string) list" where
  "runes s =
     (case s of
        [] \<Rightarrow> []
      | c # s' \<Rightarrow>
          (case decode_rune s of
             None \<Rightarrow> (None, [c]) # runes s'
           | Some (r, n) \<Rightarrow> (Some r, take n s) # runes (drop n s)))"
  by pat_completeness auto
termination
  by (relation "measure length") (auto dest!: decode_rune_width)

declare runes.simps [simp del]

lemma runes_Nil [simp]: "runes [] = []"
  by (simp add: runes.simps)

lemma concat_runes: "concat (map snd (runes s)) = s"
proof (induction s rule: runes.induct)
  case (1 s)
  then show ?case
    by (subst runes.simps) (auto split: list.splits option.splits)
qed

lemma runes_ascii:
  "\<forall>c \<in> set s. (of_char c :: nat) < 128 \<Longrightarrow> runes s = map (\<lambda>c. (Some (of_char c), [c])) s"
  by (induction s) (simp_all add: runes.simps [of "_ # _"] decode_rune_def Let_def)

section \<open>Escaping text in XML\<close>

definition in_character_range :: "nat \<Rightarrow> bool" where
  "in_character_range r \<longleftrightarrow>
     r = 0x09 \<or> r = 0x0A \<or> r = 0x0D \<or> (0x20 \<le> r \<and> r \<le> 0xD7FF) \<or>
     (0xE000 \<le> r \<and> r \<le> 0xFFFD) \<or> (0x10000 \<le> r \<and> r \<le> 0x10FFFF)"

lemma in_character_range_code [code]:
  "in_character_range r =
     (let i = int r
      in i = 0x09 \<or> i = 0x0A \<or> i = 0x0D \<or> (0x20 \<le> i \<and> i \<le> 0xD7FF) \<or>
         (0xE000 \<le> i \<and> i \<le> 0xFFFD) \<or> (0x10000 \<le> i \<and> i \<le> 0x10FFFF))"
  unfolding in_character_range_def Let_def by linarith

definition replacement :: string where "replacement = [CHR 0xEF, CHR 0xBF, CHR 0xBD]"

definition escape_rune :: "nat option \<times> string \<Rightarrow> string" where
  "escape_rune u =
     (case fst u of
        None \<Rightarrow> replacement
      | Some r \<Rightarrow>
          if r = 34 then ''&#34;'' else if r = 39 then ''&#39;''
          else if r = 38 then ''&amp;'' else if r = 60 then ''&lt;''
          else if r = 62 then ''&gt;'' else if r = 9 then ''&#x9;''
          else if r = 10 then ''&#xA;'' else if r = 13 then ''&#xD;''
          else if \<not> in_character_range r then replacement else snd u)"

text \<open>\<open>textValue\<close> of \<open>props.go\<close>, which is \<open>xml.EscapeText\<close>.\<close>

definition textValue :: "string \<Rightarrow> bytes" where
  "textValue s = concat (map escape_rune (runes s))"

section \<open>Header maps\<close>

type_synonym headers = "(string \<times> string) list"

text \<open>\<open>Header.Get\<close>, \<open>Set\<close>, \<open>Add\<close> and \<open>Del\<close> over canonical keys.\<close>

definition header_get :: "headers \<Rightarrow> string \<Rightarrow> string" where
  "header_get w k = (case map_of w k of None \<Rightarrow> [] | Some v \<Rightarrow> v)"

definition header_del :: "headers \<Rightarrow> string \<Rightarrow> headers" where
  "header_del w k = filter (\<lambda>e. fst e \<noteq> k) w"

definition header_set :: "headers \<Rightarrow> string \<Rightarrow> string \<Rightarrow> headers" where
  "header_set w k v = header_del w k @ [(k, v)]"

definition header_add :: "headers \<Rightarrow> string \<Rightarrow> string \<Rightarrow> headers" where
  "header_add w k v = w @ [(k, v)]"

lemma map_of_header_del [simp]: "map_of (header_del w k) j = (if j = k then None else map_of w j)"
  by (induction w) (auto simp: header_del_def)

lemma header_get_set [simp]: "header_get (header_set w k v) j = (if j = k then v else header_get w j)"
  by (auto simp: header_get_def header_set_def map_add_def split: option.splits)

section \<open>Requests and responses\<close>

text \<open>
  The body of a request is the bytes that arrive and how they end: \<open>None\<close> for the end of file,
  an error when the connection fails in the middle.
\<close>

record request =
  rq_method :: string
  rq_path :: string
  rq_headers :: headers
  rq_host :: string
  rq_remote :: string
  rq_tls :: bool
  rq_body :: bytes
  rq_body_err :: "go_error option"

abbreviation rq_header :: "request \<Rightarrow> string \<Rightarrow> string" where
  "rq_header r k \<equiv> header_get (rq_headers r) k"

text \<open>The rows of a multistatus document (\<open>props.go\<close>); names are (namespace, local) pairs.\<close>

type_synonym xml_name = "string \<times> string"

definition davNS :: string where "davNS = ''DAV:''"

record xml_property =
  pr_name :: xml_name
  pr_inner :: bytes

record propstat =
  ps_props :: "xml_property list"
  ps_status :: string

record response =
  row_href :: string
  row_propstat :: "propstat list"
  row_status :: string

datatype body = Plain bytes | Multistatus "response list"

record http_response =
  rs_status :: nat
  rs_headers :: headers
  rs_body :: body

definition status_texts :: "(nat \<times> string) list" where
  "status_texts =
     [(200, ''OK''), (201, ''Created''), (202, ''Accepted''),
      (203, ''Non-Authoritative Information''), (204, ''No Content''), (205, ''Reset Content''),
      (206, ''Partial Content''), (207, ''Multi-Status''), (208, ''Already Reported''),
      (226, ''IM Used''), (100, ''Continue''), (101, ''Switching Protocols''), (102, ''Processing''),
      (103, ''Early Hints''), (300, ''Multiple Choices''), (301, ''Moved Permanently''),
      (302, ''Found''), (303, ''See Other''), (304, ''Not Modified''), (305, ''Use Proxy''),
      (307, ''Temporary Redirect''), (308, ''Permanent Redirect''), (400, ''Bad Request''),
      (401, ''Unauthorized''), (402, ''Payment Required''), (403, ''Forbidden''),
      (404, ''Not Found''), (405, ''Method Not Allowed''), (406, ''Not Acceptable''),
      (407, ''Proxy Authentication Required''), (408, ''Request Timeout''), (409, ''Conflict''),
      (410, ''Gone''), (411, ''Length Required''), (412, ''Precondition Failed''),
      (413, ''Request Entity Too Large''), (414, ''Request URI Too Long''),
      (415, ''Unsupported Media Type''), (416, ''Requested Range Not Satisfiable''),
      (417, ''Expectation Failed''), (418, ''I'' @ [CHR 39] @ ''m a teapot''),
      (421, ''Misdirected Request''), (422, ''Unprocessable Entity''), (423, ''Locked''),
      (424, ''Failed Dependency''), (425, ''Too Early''), (426, ''Upgrade Required''),
      (428, ''Precondition Required''), (429, ''Too Many Requests''),
      (431, ''Request Header Fields Too Large''), (451, ''Unavailable For Legal Reasons''),
      (500, ''Internal Server Error''), (501, ''Not Implemented''), (502, ''Bad Gateway''),
      (503, ''Service Unavailable''), (504, ''Gateway Timeout''),
      (505, ''HTTP Version Not Supported''), (506, ''Variant Also Negotiates''),
      (507, ''Insufficient Storage''), (508, ''Loop Detected''), (510, ''Not Extended''),
      (511, ''Network Authentication Required'')]"

definition statusText :: "nat \<Rightarrow> string" where
  "statusText code = ''HTTP/1.1 '' @ format_nat code @ '' '' @
     (case map_of status_texts code of None \<Rightarrow> [] | Some t \<Rightarrow> t)"

text \<open>\<open>http.Error\<close> over the headers set so far, and a bare status.\<close>

definition http_error :: "headers \<Rightarrow> nat \<Rightarrow> string \<Rightarrow> http_response" where
  "http_error w code msg =
     \<lparr>rs_status = code,
      rs_headers = header_set (header_set (header_del w ''Content-Length'')
        ''Content-Type'' ''text/plain; charset=utf-8'') ''X-Content-Type-Options'' ''nosniff'',
      rs_body = Plain (msg @ [CHR 0x0A])\<rparr>"

definition respond_with :: "headers \<Rightarrow> nat \<Rightarrow> bytes \<Rightarrow> http_response" where
  "respond_with w code b = \<lparr>rs_status = code, rs_headers = w, rs_body = Plain b\<rparr>"

section \<open>The multistatus document\<close>

definition prop_dav :: "string \<Rightarrow> bytes \<Rightarrow> xml_property" where
  "prop_dav name inner = \<lparr>pr_name = (davNS, name), pr_inner = inner\<rparr>"

definition newPropstat :: "nat \<Rightarrow> xml_property list \<Rightarrow> propstat" where
  "newPropstat code props = \<lparr>ps_props = props, ps_status = statusText code\<rparr>"

definition failure_row :: "string \<Rightarrow> nat \<Rightarrow> response" where
  "failure_row hr code = \<lparr>row_href = hr, row_propstat = [], row_status = statusText code\<rparr>"

text \<open>
  How \<open>encoding/xml\<close> writes the rows: every element carries its namespace as a default
  namespace declaration; a property without a name takes the name of its field.
\<close>

definition xml_element :: "xml_name \<Rightarrow> bytes \<Rightarrow> bytes" where
  "xml_element n inner =
     ''<'' @ snd n @ (if fst n = [] then [] else '' xmlns='' @ [CHR 34] @ textValue (fst n) @ [CHR 34]) @
     ''>'' @ inner @ ''</'' @ snd n @ ''>''"

definition marshal_property :: "xml_property \<Rightarrow> bytes" where
  "marshal_property p =
     xml_element (if snd (pr_name p) = [] then ([], ''Props'') else pr_name p) (pr_inner p)"

definition marshal_propstat :: "propstat \<Rightarrow> bytes" where
  "marshal_propstat s =
     xml_element (davNS, ''propstat'')
       (xml_element (davNS, ''prop'') (concat (map marshal_property (ps_props s))) @
        xml_element (davNS, ''status'') (textValue (ps_status s)))"

definition marshal_response :: "response \<Rightarrow> bytes" where
  "marshal_response r =
     xml_element (davNS, ''response'')
       (xml_element (davNS, ''href'') (textValue (row_href r)) @
        concat (map marshal_propstat (row_propstat r)) @
        (if row_status r = [] then [] else xml_element (davNS, ''status'') (textValue (row_status r))))"

definition xml_header :: string where
  "xml_header = ''<?xml version='' @ [CHR 34] @ ''1.0'' @ [CHR 34] @ '' encoding='' @ [CHR 34] @
     ''UTF-8'' @ [CHR 34] @ ''?>'' @ [CHR 0x0A]"

definition marshal_multistatus :: "response list \<Rightarrow> bytes" where
  "marshal_multistatus rows =
     xml_header @ xml_element (davNS, ''multistatus'') (concat (map marshal_response rows))"

definition body_bytes :: "body \<Rightarrow> bytes" where
  "body_bytes b = (case b of Plain x \<Rightarrow> x | Multistatus rows \<Rightarrow> marshal_multistatus rows)"

definition writeMultistatus :: "headers \<Rightarrow> response list \<Rightarrow> http_response" where
  "writeMultistatus w rows =
     \<lparr>rs_status = StatusMulti,
      rs_headers = header_set (header_set w ''Content-Type'' ''application/xml; charset=utf-8'')
        ''Content-Length'' (format_nat (length (marshal_multistatus rows))),
      rs_body = Multistatus rows\<rparr>"

section \<open>Reading a body\<close>

datatype read_error = TooLarge | ReadErr go_error

text \<open>\<open>io.ReadAll\<close> of \<open>http.MaxBytesReader\<close>: more than \<open>n\<close> bytes is an error, whatever follows.\<close>

definition read_all_max :: "int \<Rightarrow> request \<Rightarrow> read_error + bytes" where
  "read_all_max n r =
     (if int (length (rq_body r)) > n then Inl TooLarge
      else case rq_body_err r of Some e \<Rightarrow> Inl (ReadErr e) | None \<Rightarrow> Inr (rq_body r))"

text \<open>The same behind an \<open>io.LimitReader\<close> of \<open>lim\<close> bytes, which stops reading once it has them.\<close>

definition read_all_limited :: "int \<Rightarrow> int \<Rightarrow> request \<Rightarrow> read_error + bytes" where
  "read_all_limited n lim r =
     (if lim \<le> int (length (rq_body r)) \<and> lim \<le> n then Inr (take (nat lim) (rq_body r))
      else read_all_max n r)"

end
