(* ===== verification/Program.thy ===== *)
theory Program
  imports Http LockTable
begin

text \<open>
  How a request runs. A handler is a program of atomic actions: taking and releasing the mutex
  \<open>fsmu\<close>, a run of driver calls, one method of the lock table (which holds its own mutex for the
  whole call), a call of the configured capacity callback. \<open>run_proc\<close> runs one request alone;
  \<open>pool_step\<close> interleaves any number of requests action by action.
\<close>

section \<open>The world\<close>

record lock_world =
  lw_table :: lockSystem
  lw_now :: int
  lw_rand :: "nat \<Rightarrow> go_error + bytes"

text \<open>\<open>'s\<close> is the state behind the driver, \<open>w_mu\<close> is \<open>fsmu\<close>.\<close>

record 's world =
  w_fs :: 's
  w_lk :: lock_world
  w_mu :: bool

section \<open>Programs\<close>

datatype 's proc =
    Done http_response
  | Diverge
  | Lock "'s proc"
  | Unlock "'s proc"
  | Fs "('s, 's proc) state"
  | Ls "(lock_world, 's proc) state"
  | Call "('s, 's proc) state"

primrec run_proc :: "'s proc \<Rightarrow> 's world \<Rightarrow> http_response option \<times> 's world" where
  "run_proc (Done r) w = (Some r, w)"
| "run_proc Diverge w = (None, w)"
| "run_proc (Lock p) w = (if w_mu w then (None, w) else run_proc p (w\<lparr>w_mu := True\<rparr>))"
| "run_proc (Unlock p) w = run_proc p (w\<lparr>w_mu := False\<rparr>)"
| "run_proc (Fs m) w = (case run_state (map_state run_proc m) (w_fs w) of (f, s) \<Rightarrow> f (w\<lparr>w_fs := s\<rparr>))"
| "run_proc (Ls m) w = (case run_state (map_state run_proc m) (w_lk w) of (f, l) \<Rightarrow> f (w\<lparr>w_lk := l\<rparr>))"
| "run_proc (Call m) w = (case run_state (map_state run_proc m) (w_fs w) of (f, s) \<Rightarrow> f (w\<lparr>w_fs := s\<rparr>))"

lemma run_Fs: "run_proc (Fs m) w = (case run_state m (w_fs w) of (p, s) \<Rightarrow> run_proc p (w\<lparr>w_fs := s\<rparr>))"
  by (simp add: run_map_state split: prod.splits)

lemma run_Ls: "run_proc (Ls m) w = (case run_state m (w_lk w) of (p, l) \<Rightarrow> run_proc p (w\<lparr>w_lk := l\<rparr>))"
  by (simp add: run_map_state split: prod.splits)

lemma run_Call: "run_proc (Call m) w = (case run_state m (w_fs w) of (p, s) \<Rightarrow> run_proc p (w\<lparr>w_fs := s\<rparr>))"
  by (simp add: run_map_state split: prod.splits)

declare run_proc.simps(5-7) [simp del]

lemmas run_proc_simps [run_simps] = run_proc.simps(1-4) run_Fs run_Ls run_Call

section \<open>What a program preserves\<close>

text \<open>
  \<open>keeps P Q R p\<close>: every action of \<open>p\<close> preserves \<open>P\<close> of the driver's state and \<open>Q\<close> of the lock
  table's, whatever other requests do in between, and every response satisfies \<open>R\<close>.
\<close>

primrec keeps ::
  "('s \<Rightarrow> bool) \<Rightarrow> (lock_world \<Rightarrow> bool) \<Rightarrow> (http_response \<Rightarrow> bool) \<Rightarrow> 's proc \<Rightarrow> bool" where
  "keeps P Q R (Done r) \<longleftrightarrow> R r"
| "keeps P Q R Diverge \<longleftrightarrow> True"
| "keeps P Q R (Lock p) \<longleftrightarrow> keeps P Q R p"
| "keeps P Q R (Unlock p) \<longleftrightarrow> keeps P Q R p"
| "keeps P Q R (Fs m) \<longleftrightarrow>
     (\<forall>s. P s \<longrightarrow> (case run_state (map_state (keeps P Q R) m) s of (b, s') \<Rightarrow> b \<and> P s'))"
| "keeps P Q R (Ls m) \<longleftrightarrow>
     (\<forall>l. Q l \<longrightarrow> (case run_state (map_state (keeps P Q R) m) l of (b, l') \<Rightarrow> b \<and> Q l'))"
| "keeps P Q R (Call m) \<longleftrightarrow>
     (\<forall>s. P s \<longrightarrow> (case run_state (map_state (keeps P Q R) m) s of (b, s') \<Rightarrow> b \<and> P s'))"

text \<open>
  \<open>sat P B m\<close>: the driver call \<open>m\<close> preserves \<open>P\<close> and its result satisfies \<open>B\<close>.
\<close>

definition sat :: "('s \<Rightarrow> bool) \<Rightarrow> ('a \<Rightarrow> bool) \<Rightarrow> ('s, 'a) state \<Rightarrow> bool" where
  "sat P B m \<longleftrightarrow> (\<forall>s. P s \<longrightarrow> (case run_state m s of (x, s') \<Rightarrow> B x \<and> P s'))"

lemma keeps_Fs: "keeps P Q R (Fs m) \<longleftrightarrow> sat P (keeps P Q R) m"
  by (auto simp: sat_def run_map_state split: prod.splits)

lemma keeps_Ls: "keeps P Q R (Ls m) \<longleftrightarrow> sat Q (keeps P Q R) m"
  by (auto simp: sat_def run_map_state split: prod.splits)

lemma keeps_Call: "keeps P Q R (Call m) \<longleftrightarrow> sat P (keeps P Q R) m"
  by (auto simp: sat_def run_map_state split: prod.splits)

declare keeps.simps(5-7) [simp del]

named_theorems sat_intros "rules that prove what a run of calls preserves"

lemmas keeps_simps [simp] = keeps_Fs keeps_Ls keeps_Call

lemma sat_return [sat_intros]: "B x \<Longrightarrow> sat P B (State_Monad.return x)"
  by (simp add: sat_def)

lemma sat_bind [sat_intros]:
  assumes "sat P A m" and "\<And>x. A x \<Longrightarrow> sat P B (f x)"
  shows "sat P B (State_Monad.bind m f)"
  unfolding sat_def
proof (intro allI impI)
  fix s assume "P s"
  moreover obtain x s' where m: "run_state m s = (x, s')" by fastforce
  ultimately have "A x" "P s'" using assms(1) by (auto simp: sat_def)
  then show "case run_state (State_Monad.bind m f) s of (x, s') \<Rightarrow> B x \<and> P s'"
    using assms(2) m by (simp add: sat_def)
qed

lemma sat_mono: "sat P A m \<Longrightarrow> (\<And>x. A x \<Longrightarrow> B x) \<Longrightarrow> sat P B m"
  by (fastforce simp: sat_def split: prod.splits)

lemma satD: "sat P B m \<Longrightarrow> P s \<Longrightarrow> run_state m s = (x, s') \<Longrightarrow> B x \<and> P s'"
  by (auto simp: sat_def)

text \<open>Running a program alone respects what it keeps.\<close>

lemma keeps_run:
  assumes "keeps P Q R p" and "P (w_fs w)" and "Q (w_lk w)" and "run_proc p w = (res, w')"
  shows "P (w_fs w') \<and> Q (w_lk w') \<and> (\<forall>r. res = Some r \<longrightarrow> R r)"
  using assms
proof (induction p arbitrary: w)
  case (Fs m)
  obtain p s where m: "run_state m (w_fs w) = (p, s)" by fastforce
  then have "p \<in> set_state m" by (auto simp: set_state_iff)
  moreover have "keeps P Q R p" "P s" using Fs.prems(1,2) m by (auto simp: sat_def)
  ultimately show ?case using Fs.IH [of p "w\<lparr>w_fs := s\<rparr>"] Fs.prems(3,4) m by (simp add: run_Fs)
next
  case (Ls m)
  obtain p l where m: "run_state m (w_lk w) = (p, l)" by fastforce
  then have "p \<in> set_state m" by (auto simp: set_state_iff)
  moreover have "keeps P Q R p" "Q l" using Ls.prems(1,3) m by (auto simp: sat_def)
  ultimately show ?case using Ls.IH [of p "w\<lparr>w_lk := l\<rparr>"] Ls.prems(2,4) m by (simp add: run_Ls)
next
  case (Call m)
  obtain p s where m: "run_state m (w_fs w) = (p, s)" by fastforce
  then have "p \<in> set_state m" by (auto simp: set_state_iff)
  moreover have "keeps P Q R p" "P s" using Call.prems(1,2) m by (auto simp: sat_def)
  ultimately show ?case using Call.IH [of p "w\<lparr>w_fs := s\<rparr>"] Call.prems(3,4) m by (simp add: run_Call)
next
  case (Lock p)
  show ?case
  proof (cases "w_mu w")
    case True
    then have "res = None" "w' = w" using Lock.prems(4) by simp_all
    then show ?thesis using Lock.prems(2,3) by blast
  next
    case False
    show ?thesis
      by (rule Lock.IH [of "w\<lparr>w_mu := True\<rparr>"]) (use Lock.prems False in simp_all)
  qed
next
  case (Unlock p)
  show ?case
    by (rule Unlock.IH [of "w\<lparr>w_mu := False\<rparr>"]) (use Unlock.prems in simp_all)
qed auto

section \<open>The discipline of the mutex\<close>

text \<open>
  \<open>orderly late p has\<close>: the program never takes \<open>fsmu\<close> twice, never releases it unheld, calls the driver
  only while it holds it, except for the calls that \<open>late\<close> names, and does not hold it when it has
  answered. A \<open>disciplined\<close> program has no exception.
\<close>

primrec orderly :: "('s proc \<Rightarrow> bool) \<Rightarrow> 's proc \<Rightarrow> bool \<Rightarrow> bool" where
  "orderly late (Done r) has \<longleftrightarrow> \<not> has"
| "orderly late Diverge has \<longleftrightarrow> True"
| "orderly late (Lock p) has \<longleftrightarrow> \<not> has \<and> orderly late p True"
| "orderly late (Unlock p) has \<longleftrightarrow> has \<and> orderly late p False"
| "orderly late (Fs m) has \<longleftrightarrow>
     (has \<or> late (Fs m)) \<and> (\<forall>f \<in> set_state (map_state (orderly late) m). f has)"
| "orderly late (Ls m) has \<longleftrightarrow> (\<forall>f \<in> set_state (map_state (orderly late) m). f has)"
| "orderly late (Call m) has \<longleftrightarrow> (\<forall>f \<in> set_state (map_state (orderly late) m). f has)"

abbreviation disciplined :: "'s proc \<Rightarrow> bool \<Rightarrow> bool" where
  "disciplined \<equiv> orderly (\<lambda>_. False)"

text \<open>\<open>all_results B m\<close>: whatever state the calls start in, what they return satisfies \<open>B\<close>.\<close>

abbreviation all_results :: "('a \<Rightarrow> bool) \<Rightarrow> ('s, 'a) state \<Rightarrow> bool" where
  "all_results B m \<equiv> sat (\<lambda>s. True) B m"

lemma set_state_all: "(\<forall>f \<in> set_state (map_state g m). f h) \<longleftrightarrow> all_results (\<lambda>p. g p h) m"
  unfolding state.set_map sat_def Ball_def image_iff Bex_def set_state_iff
  by (auto split: prod.splits)

lemma orderly_Fs [simp]:
    "orderly late (Fs m) has \<longleftrightarrow> (has \<or> late (Fs m)) \<and> all_results (\<lambda>p. orderly late p has) m"
  and orderly_Ls [simp]: "orderly late (Ls l) has \<longleftrightarrow> all_results (\<lambda>p. orderly late p has) l"
  and orderly_Call [simp]: "orderly late (Call m) has \<longleftrightarrow> all_results (\<lambda>p. orderly late p has) m"
  by (simp_all add: set_state_all)

declare orderly.simps(5-7) [simp del]

lemma orderly_mono: "orderly late p has \<Longrightarrow> (\<And>q. late q \<Longrightarrow> late' q) \<Longrightarrow> orderly late' p has"
  by (induction p arbitrary: has) (auto simp: orderly.simps state.set_map simp del: orderly_Fs orderly_Ls orderly_Call)

lemma all_results_True [sat_intros]: "(\<And>x. B x) \<Longrightarrow> all_results B m"
  by (auto simp: sat_def)

section \<open>Many requests at once\<close>

text \<open>
  A pool holds the requests in flight, each with whether it holds \<open>fsmu\<close>. Requests arrive at
  any time, the clock moves on, and any request whose next action is enabled may take it;
  \<open>sync.Mutex\<close> lets a program take \<open>fsmu\<close> only when it is free.
\<close>

type_synonym 's pool = "'s world \<times> (bool \<times> 's proc) list"

inductive pool_step :: "('s proc \<Rightarrow> bool) \<Rightarrow> 's pool \<Rightarrow> 's pool \<Rightarrow> bool" for arrives where
  act_arrive: "arrives p \<Longrightarrow> pool_step arrives (w, ts) (w, ts @ [(False, p)])"
| act_tick: "lw_now (w_lk w) \<le> t \<Longrightarrow>
     pool_step arrives (w, ts) (w\<lparr>w_lk := (w_lk w)\<lparr>lw_now := t\<rparr>\<rparr>, ts)"
| act_lock: "i < length ts \<Longrightarrow> ts ! i = (b, Lock p) \<Longrightarrow> \<not> w_mu w \<Longrightarrow>
     pool_step arrives (w, ts) (w\<lparr>w_mu := True\<rparr>, ts[i := (True, p)])"
| act_unlock: "i < length ts \<Longrightarrow> ts ! i = (b, Unlock p) \<Longrightarrow>
     pool_step arrives (w, ts) (w\<lparr>w_mu := False\<rparr>, ts[i := (False, p)])"
| act_fs: "i < length ts \<Longrightarrow> ts ! i = (b, Fs m) \<Longrightarrow> run_state m (w_fs w) = (p, s) \<Longrightarrow>
     pool_step arrives (w, ts) (w\<lparr>w_fs := s\<rparr>, ts[i := (b, p)])"
| act_ls: "i < length ts \<Longrightarrow> ts ! i = (b, Ls m) \<Longrightarrow> run_state m (w_lk w) = (p, l) \<Longrightarrow>
     pool_step arrives (w, ts) (w\<lparr>w_lk := l\<rparr>, ts[i := (b, p)])"
| act_call: "i < length ts \<Longrightarrow> ts ! i = (b, Call m) \<Longrightarrow> run_state m (w_fs w) = (p, s) \<Longrightarrow>
     pool_step arrives (w, ts) (w\<lparr>w_fs := s\<rparr>, ts[i := (b, p)])"

inductive pool_reach :: "('s proc \<Rightarrow> bool) \<Rightarrow> 's world \<Rightarrow> 's pool \<Rightarrow> bool" for arrives w0 where
  reach_start: "pool_reach arrives w0 (w0, [])"
| reach_step: "pool_reach arrives w0 c \<Longrightarrow> pool_step arrives c c' \<Longrightarrow> pool_reach arrives w0 c'"

definition pool_keeps ::
  "('s \<Rightarrow> bool) \<Rightarrow> (lock_world \<Rightarrow> bool) \<Rightarrow> (http_response \<Rightarrow> bool) \<Rightarrow> 's pool \<Rightarrow> bool" where
  "pool_keeps P Q R c \<longleftrightarrow>
     P (w_fs (fst c)) \<and> Q (w_lk (fst c)) \<and> (\<forall>t \<in> set (snd c). keeps P Q R (snd t))"

lemma set_update: "x \<in> set (xs[i := y]) \<Longrightarrow> x = y \<or> x \<in> set xs"
  using set_update_subset_insert [of xs i y] by blast

lemma pool_step_keeps:
  assumes "pool_step arrives c c'" and "pool_keeps P Q R c" and "\<And>p. arrives p \<Longrightarrow> keeps P Q R p"
    and "\<And>l t. Q l \<Longrightarrow> lw_now l \<le> t \<Longrightarrow> Q (l\<lparr>lw_now := t\<rparr>)"
  shows "pool_keeps P Q R c'"
proof -
  have at: "keeps P Q R p" if "i < length ts" "ts ! i = (b, p)" "\<forall>t \<in> set ts. keeps P Q R (snd t)" for ts i b p
    using that by (metis nth_mem snd_conv)
  show ?thesis
    using assms(1)
  proof cases
    case (act_arrive p w ts)
    then show ?thesis using assms(2,3) by (auto simp: pool_keeps_def)
  next
    case (act_tick w t ts)
    then show ?thesis using assms(2,4) by (auto simp: pool_keeps_def)
  next
    case (act_lock i ts b p w)
    then show ?thesis using assms(2) at [of i ts b "Lock p"] by (auto simp: pool_keeps_def dest: set_update)
  next
    case (act_unlock i ts b p w)
    then show ?thesis using assms(2) at [of i ts b "Unlock p"] by (auto simp: pool_keeps_def dest: set_update)
  next
    case (act_fs i ts b m w p s)
    then have "keeps P Q R (Fs m)" using assms(2) at [of i ts b "Fs m"] by (auto simp: pool_keeps_def)
    with act_fs assms(2) show ?thesis
      by (auto simp: pool_keeps_def dest!: set_update satD [of P _ m "w_fs w" p s])
  next
    case (act_ls i ts b m w p l)
    then have "keeps P Q R (Ls m)" using assms(2) at [of i ts b "Ls m"] by (auto simp: pool_keeps_def)
    with act_ls assms(2) show ?thesis
      by (auto simp: pool_keeps_def dest!: set_update satD [of Q _ m "w_lk w" p l])
  next
    case (act_call i ts b m w p s)
    then have "keeps P Q R (Call m)" using assms(2) at [of i ts b "Call m"] by (auto simp: pool_keeps_def)
    with act_call assms(2) show ?thesis
      by (auto simp: pool_keeps_def dest!: set_update satD [of P _ m "w_fs w" p s])
  qed
qed

lemma pool_reach_keeps:
  assumes "pool_reach arrives w0 c" and "P (w_fs w0)" and "Q (w_lk w0)"
    and "\<And>p. arrives p \<Longrightarrow> keeps P Q R p"
    and "\<And>l t. Q l \<Longrightarrow> lw_now l \<le> t \<Longrightarrow> Q (l\<lparr>lw_now := t\<rparr>)"
  shows "pool_keeps P Q R c"
  using assms(1)
proof induction
  case reach_start
  show ?case using assms(2,3) by (simp add: pool_keeps_def)
next
  case (reach_step c c')
  show ?case by (rule pool_step_keeps [OF reach_step(2,3) assms(4,5)])
qed

subsection \<open>Mutual exclusion on the driver\<close>

definition pool_orderly :: "('s proc \<Rightarrow> bool) \<Rightarrow> 's pool \<Rightarrow> bool" where
  "pool_orderly late c \<longleftrightarrow>
     (\<forall>t \<in> set (snd c). orderly late (snd t) (fst t)) \<and>
     length (filter fst (snd c)) = (if w_mu (fst c) then 1 else 0)"

lemma length_filter_update:
  assumes "i < length xs"
  shows "length (filter Q (xs[i := y])) + (if Q (xs ! i) then 1 else 0) =
    length (filter Q xs) + (if Q y then 1 else 0)"
  using assms
proof (induction xs arbitrary: i)
  case (Cons x xs)
  then show ?case by (cases i) auto
qed simp

lemma sat_results: "all_results B m \<Longrightarrow> run_state m s = (x, s') \<Longrightarrow> B x"
  by (auto simp: sat_def split: prod.splits)

lemma pool_step_orderly:
  assumes "pool_step arrives c c'" and "pool_orderly late c" and "\<And>p. arrives p \<Longrightarrow> orderly late p False"
  shows "pool_orderly late c'"
proof -
  have at: "orderly late p b" if "i < length ts" "ts ! i = (b, p)" "\<forall>t \<in> set ts. orderly late (snd t) (fst t)"
    for ts i b p
    using that by (metis nth_mem fst_conv snd_conv)
  show ?thesis
    using assms(1)
  proof cases
    case (act_arrive p w ts)
    then show ?thesis using assms(2,3) by (auto simp: pool_orderly_def)
  next
    case (act_tick w t ts)
    then show ?thesis using assms(2) by (auto simp: pool_orderly_def)
  next
    case (act_lock i ts b p w)
    then have d: "orderly late (Lock p) b" using assms(2) at [of i ts b] by (auto simp: pool_orderly_def)
    show ?thesis
      using act_lock d assms(2) length_filter_update [OF act_lock(3), of fst "(True, p)"]
      by (auto simp: pool_orderly_def dest: set_update)
  next
    case (act_unlock i ts b p w)
    then have d: "orderly late (Unlock p) b" using assms(2) at [of i ts b] by (auto simp: pool_orderly_def)
    show ?thesis
      using act_unlock d assms(2) length_filter_update [OF act_unlock(3), of fst "(False, p)"]
      by (auto simp: pool_orderly_def dest: set_update split: if_splits)
  next
    case (act_fs i ts b m w p s)
    then have d: "orderly late (Fs m) b" using assms(2) at [of i ts b] by (auto simp: pool_orderly_def)
    have "orderly late p b"
      by (rule sat_results [of "\<lambda>p. orderly late p b", OF _ act_fs(5)]) (use d in \<open>cases b; simp\<close>)
    then show ?thesis
      using act_fs assms(2) length_filter_update [OF act_fs(3), of fst "(b, p)"]
      by (auto simp: pool_orderly_def dest: set_update)
  next
    case (act_ls i ts b m w p l)
    then have d: "orderly late (Ls m) b" using assms(2) at [of i ts b] by (auto simp: pool_orderly_def)
    have "orderly late p b"
      by (rule sat_results [of "\<lambda>p. orderly late p b", OF _ act_ls(5)]) (use d in \<open>cases b; simp\<close>)
    then show ?thesis
      using act_ls assms(2) length_filter_update [OF act_ls(3), of fst "(b, p)"]
      by (auto simp: pool_orderly_def dest: set_update)
  next
    case (act_call i ts b m w p s)
    then have d: "orderly late (Call m) b" using assms(2) at [of i ts b] by (auto simp: pool_orderly_def)
    have "orderly late p b"
      by (rule sat_results [of "\<lambda>p. orderly late p b", OF _ act_call(5)]) (use d in \<open>cases b; simp\<close>)
    then show ?thesis
      using act_call assms(2) length_filter_update [OF act_call(3), of fst "(b, p)"]
      by (auto simp: pool_orderly_def dest: set_update)
  qed
qed

lemma pool_reach_orderly:
  assumes "pool_reach arrives w0 c" and "\<not> w_mu w0" and "\<And>p. arrives p \<Longrightarrow> orderly late p False"
  shows "pool_orderly late c"
  using assms(1)
proof induction
  case reach_start
  show ?case using assms(2) by (simp add: pool_orderly_def)
next
  case (reach_step c c')
  show ?case by (rule pool_step_orderly [OF reach_step(2,3) assms(3)])
qed

text \<open>Whether a request can take its next action, and whether it still has one to take.\<close>

definition enabled :: "'s world \<Rightarrow> 's proc \<Rightarrow> bool" where
  "enabled w p \<longleftrightarrow>
     (case p of Done _ \<Rightarrow> False | Diverge \<Rightarrow> False | Lock _ \<Rightarrow> \<not> w_mu w | _ \<Rightarrow> True)"

definition finished :: "'s proc \<Rightarrow> bool" where
  "finished p \<longleftrightarrow> (case p of Done _ \<Rightarrow> True | _ \<Rightarrow> False)"

lemma holder_exists:
  assumes "pool_orderly late (w, ts)" and "w_mu w"
  shows "\<exists>i < length ts. fst (ts ! i)"
proof -
  have "length (filter fst ts) = 1" using assms by (simp add: pool_orderly_def)
  then have "filter fst ts \<noteq> []" by (cases "filter fst ts") auto
  then show ?thesis by (metis filter_empty_conv in_set_conv_nth)
qed

lemma pool_progress:
  assumes "pool_orderly late (w, ts)" and "\<forall>t \<in> set ts. snd t \<noteq> Diverge"
    and "\<exists>t \<in> set ts. \<not> finished (snd t)"
  shows "\<exists>i < length ts. enabled w (snd (ts ! i))"
proof (cases "w_mu w")
  case True
  then obtain i where i: "i < length ts" "fst (ts ! i)" using holder_exists [OF assms(1)] by blast
  then have "orderly late (snd (ts ! i)) True" "snd (ts ! i) \<noteq> Diverge"
    using assms(1,2) by (auto simp: pool_orderly_def) (metis nth_mem)
  then have "enabled w (snd (ts ! i))"
    by (cases "snd (ts ! i)") (simp_all add: enabled_def)
  then show ?thesis using i by blast
next
  case False
  obtain i where i: "i < length ts" "\<not> finished (snd (ts ! i))"
    using assms(3) by (metis in_set_conv_nth)
  then have "enabled w (snd (ts ! i))"
    using False assms(2) nth_mem [OF i(1)]
    by (cases "snd (ts ! i)") (auto simp: enabled_def finished_def)
  then show ?thesis using i by blast
qed

text \<open>No two requests are inside the driver at once.\<close>

lemma one_holder:
  assumes "pool_orderly late (w, ts)" and "i < length ts" and "j < length ts"
    and "fst (ts ! i)" and "fst (ts ! j)"
  shows "i = j"
proof (rule ccontr)
  assume ne: "i \<noteq> j"
  have "length (filter fst (ts[i := (False, Diverge)])) + 1 = length (filter fst ts)"
    using length_filter_update [OF assms(2), of fst "(False, Diverge)"] assms(4) by simp
  moreover have "length (filter fst ts) \<le> 1"
    using assms(1) by (auto simp: pool_orderly_def split: if_splits)
  ultimately have "length (filter fst (ts[i := (False, Diverge)])) = 0" by linarith
  then have "filter fst (ts[i := (False, Diverge)]) = []" by (simp only: length_0_conv)
  moreover have "ts ! j \<in> set (ts[i := (False, Diverge)])"
    using ne assms(3) by (metis length_list_update nth_list_update_neq nth_mem)
  ultimately show False using assms(5) by (auto simp: filter_empty_conv)
qed

subsection \<open>A request alone is one of the interleavings\<close>

lemma pool_run_from:
  assumes "pool_reach arrives w0 (w, [(b, p)])" and "run_proc p w = (Some r, w')"
  shows "\<exists>b'. pool_reach arrives w0 (w', [(b', Done r)])"
  using assms
proof (induction p arbitrary: w b)
  case (Done x)
  then show ?case by auto
next
  case Diverge
  then show ?case by simp
next
  case (Lock p)
  then have mu: "\<not> w_mu w" and run: "run_proc p (w\<lparr>w_mu := True\<rparr>) = (Some r, w')"
    by (auto split: if_splits)
  have "pool_reach arrives w0 (w\<lparr>w_mu := True\<rparr>, [(b, Lock p)][0 := (True, p)])"
    by (rule reach_step [OF Lock.prems(1)], rule act_lock) (use mu in auto)
  then show ?case using Lock.IH [OF _ run] by simp
next
  case (Unlock p)
  have "pool_reach arrives w0 (w\<lparr>w_mu := False\<rparr>, [(b, Unlock p)][0 := (False, p)])"
    by (rule reach_step [OF Unlock.prems(1)], rule act_unlock) auto
  then show ?case using Unlock.IH [of "w\<lparr>w_mu := False\<rparr>"] Unlock.prems(2) by simp
next
  case (Fs m)
  obtain p s where m: "run_state m (w_fs w) = (p, s)" by fastforce
  have "pool_reach arrives w0 (w\<lparr>w_fs := s\<rparr>, [(b, Fs m)][0 := (b, p)])"
    by (rule reach_step [OF Fs.prems(1)], rule act_fs) (use m in auto)
  then show ?case
    using Fs.IH [of p "w\<lparr>w_fs := s\<rparr>" b] Fs.prems(2) m by (auto simp: run_Fs set_state_iff)
next
  case (Ls m)
  obtain p l where m: "run_state m (w_lk w) = (p, l)" by fastforce
  have "pool_reach arrives w0 (w\<lparr>w_lk := l\<rparr>, [(b, Ls m)][0 := (b, p)])"
    by (rule reach_step [OF Ls.prems(1)], rule act_ls) (use m in auto)
  then show ?case
    using Ls.IH [of p "w\<lparr>w_lk := l\<rparr>" b] Ls.prems(2) m by (auto simp: run_Ls set_state_iff)
next
  case (Call m)
  obtain p s where m: "run_state m (w_fs w) = (p, s)" by fastforce
  have "pool_reach arrives w0 (w\<lparr>w_fs := s\<rparr>, [(b, Call m)][0 := (b, p)])"
    by (rule reach_step [OF Call.prems(1)], rule act_call) (use m in auto)
  then show ?case
    using Call.IH [of p "w\<lparr>w_fs := s\<rparr>" b] Call.prems(2) m by (auto simp: run_Call set_state_iff)
qed

lemma pool_of_run:
  assumes "arrives p" and "run_proc p w = (Some r, w')"
  shows "\<exists>b. pool_reach arrives w (w', [(b, Done r)])"
proof -
  have "pool_reach arrives w (w, [] @ [(False, p)])"
    by (rule reach_step [OF reach_start], rule act_arrive) (rule assms(1))
  then show ?thesis using pool_run_from [OF _ assms(2)] by simp
qed

end
