(* ===== verification/GoTime.thy ===== *)
theory GoTime
  imports GoText
begin

text \<open>
  The instants of \<open>time\<close> in UTC, as \<open>Time.Format\<close> writes them with the layouts \<open>http.TimeFormat\<close> and
  \<open>time.RFC3339\<close>. An instant is a number of nanoseconds since the Unix epoch. The lemmas show that the
  calendar date is the right one and that a client reads back what is written.
\<close>

section \<open>The calendar\<close>

text \<open>The days of an ordinary year before each month.\<close>

definition days_before :: "int list" where
  "days_before = [0, 31, 59, 90, 120, 151, 181, 212, 243, 273, 304, 334, 365]"

definition leap :: "int \<Rightarrow> bool" where
  "leap y \<longleftrightarrow> y mod 4 = 0 \<and> (y mod 100 \<noteq> 0 \<or> y mod 400 = 0)"

text \<open>Month and day, from the day of the year counted from 0.\<close>

definition month_day :: "bool \<Rightarrow> int \<Rightarrow> int \<times> int" where
  "month_day lp yday =
     (if lp \<and> yday = 59 then (2, 29)
      else (let d = (if lp \<and> yday > 59 then yday - 1 else yday);
                m = nat (d div 31);
                m = (if d \<ge> days_before ! Suc m then Suc m else m)
            in (int m + 1, d - days_before ! m + 1)))"

text \<open>
  Year and day of the year, from the days since the 1st of January of the year 1: cycles of 400,
  100, 4 and 1 years, the last century of a cycle and the last year of four being a day longer.
\<close>

definition year_day :: "int \<Rightarrow> int \<times> int" where
  "year_day z =
     (let n = z div 146097; z = z mod 146097;
          c = min 3 (z div 36524); z = z - 36524 * c;
          q = z div 1461; z = z mod 1461;
          y = min 3 (z div 365)
      in (400 * n + 100 * c + 4 * q + y + 1, z - 365 * y))"

text \<open>The 719162 days from there to the 1st of January 1970.\<close>

definition civil :: "int \<Rightarrow> int \<times> int \<times> int" where
  "civil days = (case year_day (days + 719162) of (y, yday) \<Rightarrow>
     case month_day (leap y) yday of (m, d) \<Rightarrow> (y, m, d))"

text \<open>The other way round: the days from the 1st of January 1970 to a date.\<close>

definition days_of :: "int \<Rightarrow> int \<Rightarrow> int \<Rightarrow> int" where
  "days_of y m d =
     365 * (y - 1) + (y - 1) div 4 - (y - 1) div 100 + (y - 1) div 400 +
     days_before ! nat (m - 1) + (if leap y \<and> m > 2 then 1 else 0) + (d - 1) - 719162"

lemma year_day_cases:
  obtains n c q y where "year_day z = (400 * n + 100 * c + 4 * q + y + 1, z - (146097 * n + 36524 * c + 1461 * q + 365 * y))"
    and "0 \<le> c" "c \<le> 3" "0 \<le> q" "q \<le> 24" "0 \<le> y" "y \<le> 3"
    and "0 \<le> z - (146097 * n + 36524 * c + 1461 * q + 365 * y)"
    and "z - (146097 * n + 36524 * c + 1461 * q + 365 * y) \<le> (if y = 3 \<and> (q \<noteq> 24 \<or> c = 3) then 365 else 364)"
proof -
  define n where "n = z div 146097"
  define a where "a = z mod 146097"
  have a: "z = 146097 * n + a" "0 \<le> a" "a < 146097" by (simp_all add: n_def a_def)
  define c where "c = min 3 (a div 36524)"
  define b where "b = a - 36524 * c"
  have c: "0 \<le> c" "c \<le> 3" "0 \<le> b" "b < (if c = 3 then 36525 else 36524)"
    using a(2,3) unfolding b_def c_def min_def by (auto split: if_splits)
  define q where "q = b div 1461"
  define d where "d = b mod 1461"
  have q: "b = 1461 * q + d" "0 \<le> d" "d < 1461" by (simp_all add: q_def d_def)
  have q': "0 \<le> q" "q \<le> 24" using c(3,4) q by (auto split: if_splits)
  define y where "y = min 3 (d div 365)"
  have y: "0 \<le> y" "y \<le> 3" "0 \<le> d - 365 * y" "d - 365 * y \<le> (if y = 3 then 365 else 364)"
    using q(2,3) unfolding y_def min_def by (auto split: if_splits)
  have long: "d - 365 * y \<le> (if y = 3 \<and> (q \<noteq> 24 \<or> c = 3) then 365 else 364)"
    using y c(4) q(1) by (auto split: if_splits)
  have "year_day z = (400 * n + 100 * c + 4 * q + y + 1, d - 365 * y)"
    unfolding year_day_def Let_def n_def [symmetric] a_def [symmetric] c_def [symmetric] b_def [symmetric]
      q_def [symmetric] d_def [symmetric] y_def [symmetric] by simp
  moreover have "d - 365 * y = z - (146097 * n + 36524 * c + 1461 * q + 365 * y)" using a(1) q(1) b_def by simp
  ultimately show ?thesis using that [of n c q y] c(1,2) q' y long by simp
qed

lemma mod_split: "(x :: int) = r + m * k \<Longrightarrow> x mod m = r mod m"
  by simp

lemma leap_year:
  fixes n c q y :: int
  assumes "0 \<le> c" "c \<le> 3" "0 \<le> q" "q \<le> 24" "0 \<le> y" "y \<le> 3"
  shows "leap (400 * n + 100 * c + 4 * q + y + 1) \<longleftrightarrow> y = 3 \<and> (q \<noteq> 24 \<or> c = 3)"
proof -
  have 4: "(400 * n + 100 * c + 4 * q + y + 1) mod 4 = (y + 1) mod 4"
    by (rule mod_split [where k = "100 * n + 25 * c + q"]) simp
  have 100: "(400 * n + 100 * c + 4 * q + y + 1) mod 100 = (4 * q + y + 1) mod 100"
    by (rule mod_split [where k = "4 * n + c"]) simp
  have 400: "(400 * n + 100 * c + 4 * q + y + 1) mod 400 = (100 * c + 4 * q + y + 1) mod 400"
    by (rule mod_split [where k = n]) simp
  have "(y + 1) mod 4 = 0 \<longleftrightarrow> y = 3" using assms(5,6) by presburger
  moreover have "(4 * q + 3 + 1) mod 100 = 0 \<longleftrightarrow> q = 24"
    using mod_pos_pos_trivial [of "4 * q + 3 + 1" 100] assms(3,4) by (cases "q = 24") auto
  moreover have "(100 * c + 4 * 24 + 3 + 1) mod 400 = 0 \<longleftrightarrow> c = 3"
    using mod_pos_pos_trivial [of "100 * c + 4 * 24 + 3 + 1" 400] assms(1,2) by (cases "c = 3") auto
  ultimately show ?thesis unfolding leap_def 4 100 400 by metis
qed

lemma days_to_year:
  fixes n c q y :: int
  assumes "0 \<le> c" "c \<le> 3" "0 \<le> q" "q \<le> 24" "0 \<le> y" "y \<le> 3"
  shows "365 * (400 * n + 100 * c + 4 * q + y) + (400 * n + 100 * c + 4 * q + y) div 4
      - (400 * n + 100 * c + 4 * q + y) div 100 + (400 * n + 100 * c + 4 * q + y) div 400
    = 146097 * n + 36524 * c + 1461 * q + 365 * y"
proof -
  have "(400 * n + 100 * c + 4 * q + y) div 4 = 100 * n + 25 * c + q"
    by (rule int_div_pos_eq [where r = y]) (use assms in auto)
  moreover have "(400 * n + 100 * c + 4 * q + y) div 100 = 4 * n + c"
    by (rule int_div_pos_eq [where r = "4 * q + y"]) (use assms in auto)
  moreover have "(400 * n + 100 * c + 4 * q + y) div 400 = n"
    by (rule int_div_pos_eq [where r = "100 * c + 4 * q + y"]) (use assms in auto)
  ultimately show ?thesis by simp
qed

definition month_day_ok :: "bool \<Rightarrow> int \<Rightarrow> bool" where
  "month_day_ok lp yday = (case month_day lp yday of (m, d) \<Rightarrow>
     1 \<le> m \<and> m \<le> 12 \<and> 1 \<le> d \<and> d \<le> 31 \<and>
     days_before ! nat (m - 1) + (if lp \<and> m > 2 then 1 else 0) + (d - 1) = yday)"

lemma below_12: "k < (12 :: nat) \<Longrightarrow> k \<in> {0, 1, 2, 3, 4, 5, 6, 7, 8, 9, 10, 11}"
  by (simp add: eval_nat_numeral less_Suc_eq)

lemma month_day_inverse:
  assumes "0 \<le> yday" and "yday \<le> (if lp then 365 else 364)"
  shows "month_day_ok lp yday"
proof (cases "lp \<and> yday = 59")
  case True
  then show ?thesis by (simp add: month_day_ok_def month_day_def days_before_def)
next
  case False
  define d where "d = (if lp \<and> yday > 59 then yday - 1 else yday)"
  define k where "k = nat (d div 31)"
  have d: "0 \<le> d" "d \<le> 364" using assms by (auto simp: d_def split: if_splits)
  then have k: "31 * int k \<le> d" "d < 31 * int k + 31" "k < 12" by (auto simp: k_def)
  have "month_day lp yday =
      (let m = (if d \<ge> days_before ! Suc k then Suc k else k) in (int m + 1, d - days_before ! m + 1))"
    unfolding month_day_def if_not_P [OF False] Let_def d_def [symmetric] k_def [symmetric] by (rule refl)
  moreover have "yday = d + (if lp \<and> 59 \<le> d then 1 else 0)" using False by (auto simp: d_def)
  ultimately show ?thesis
    using below_12 [OF k(3)] k(1,2) d(2) unfolding month_day_ok_def days_before_def
    by (elim insertE emptyE) (simp_all split: if_split)
qed

lemma civil_inverse:
  assumes "civil days = (y, m, d)"
  shows "1 \<le> m \<and> m \<le> 12 \<and> 1 \<le> d \<and> d \<le> 31 \<and> days_of y m d = days"
proof (cases rule: year_day_cases [of "days + 719162"])
  case (1 n c q k)
  let ?yday = "days + 719162 - (146097 * n + 36524 * c + 1461 * q + 365 * k)"
  have "month_day_ok (leap y) ?yday" and y: "y = 400 * n + 100 * c + 4 * q + k + 1"
    and md: "month_day (leap y) ?yday = (m, d)"
    using assms 1 month_day_inverse [of ?yday "leap y"] leap_year [OF 1(2-7), of n]
    by (auto simp: civil_def split: prod.splits)
  then have "1 \<le> m \<and> m \<le> 12 \<and> 1 \<le> d \<and> d \<le> 31"
    and "days_before ! nat (m - 1) + (if leap y \<and> m > 2 then 1 else 0) + (d - 1) = ?yday"
    by (auto simp: month_day_ok_def)
  then show ?thesis unfolding days_of_def using days_to_year [OF 1(2-7), of n] y by simp
qed

section \<open>Formats\<close>

text \<open>
  \<open>time\<close> counts seconds in 64 bits from the 1st of March of the year \<open>-292277022400\<close>; what does not fit
  wraps. (The wrap concerns the lowest 8 thousand million values of \<open>int64\<close> only.)
\<close>

definition calendar_start :: int where
  "calendar_start = (730692556 * 146097 + 306 + 719162) * 86400"

definition unix_seconds :: "int \<Rightarrow> int" where
  "unix_seconds t = (t div 1000000000 + calendar_start) mod 2 ^ 64 - calendar_start"

text \<open>A number in at least \<open>w\<close> digits.\<close>

definition pad :: "nat \<Rightarrow> int \<Rightarrow> string" where
  "pad w x = (let ds = format_nat (nat \<bar>x\<bar>) in
     (if x < 0 then ''-'' else []) @ replicate (w - length ds) (CHR ''0'') @ ds)"

definition weekdays :: "string list" where
  "weekdays = [''Sun'', ''Mon'', ''Tue'', ''Wed'', ''Thu'', ''Fri'', ''Sat'']"

definition months :: "string list" where
  "months = [''Jan'', ''Feb'', ''Mar'', ''Apr'', ''May'', ''Jun'', ''Jul'', ''Aug'', ''Sep'', ''Oct'', ''Nov'', ''Dec'']"

definition clock :: "int \<Rightarrow> string" where
  "clock s = pad 2 (s div 3600) @ '':'' @ pad 2 (s div 60 mod 60) @ '':'' @ pad 2 (s mod 60)"

text \<open>\<open>t.UTC().Format(http.TimeFormat)\<close>; the 1st of January 1970 was a Thursday.\<close>

definition http_time :: "int \<Rightarrow> string" where
  "http_time t =
     (let s = unix_seconds t; days = s div 86400
      in case civil days of (y, m, d) \<Rightarrow>
        weekdays ! nat ((days + 4) mod 7) @ '', '' @ pad 2 d @ '' '' @ months ! nat (m - 1) @ '' '' @ pad 4 y @
        '' '' @ clock (s mod 86400) @ '' GMT'')"

text \<open>\<open>t.UTC().Format(time.RFC3339)\<close>.\<close>

definition rfc3339 :: "int \<Rightarrow> string" where
  "rfc3339 t =
     (let s = unix_seconds t
      in case civil (s div 86400) of (y, m, d) \<Rightarrow>
        pad 4 y @ ''-'' @ pad 2 m @ ''-'' @ pad 2 d @ ''T'' @ clock (s mod 86400) @ ''Z'')"

section \<open>Reading them back\<close>

text \<open>A client's reading of both formats, by position, as seconds since the Unix epoch.\<close>

definition number_at :: "string \<Rightarrow> nat \<Rightarrow> nat \<Rightarrow> int option" where
  "number_at s i n = map_option int (digits_val (take n (drop i s)))"

definition month_at :: "string \<Rightarrow> nat \<Rightarrow> int option" where
  "month_at s i = map_option (\<lambda>k. int k + 1) (List.find (\<lambda>k. months ! k = take 3 (drop i s)) [0..<12])"

definition instant :: "int option \<Rightarrow> int option \<Rightarrow> int option \<Rightarrow> int option \<Rightarrow> int option \<Rightarrow> int option \<Rightarrow> int option" where
  "instant y m d h mi s =
     (case (y, m, d, h, mi, s) of
        (Some y, Some m, Some d, Some h, Some mi, Some s) \<Rightarrow>
          Some (86400 * days_of y m d + 3600 * h + 60 * mi + s)
      | _ \<Rightarrow> None)"

definition read_http_time :: "string \<Rightarrow> int option" where
  "read_http_time s = instant (number_at s 12 4) (month_at s 8) (number_at s 5 2)
     (number_at s 17 2) (number_at s 20 2) (number_at s 23 2)"

definition read_rfc3339 :: "string \<Rightarrow> int option" where
  "read_rfc3339 s = instant (number_at s 0 4) (number_at s 5 2) (number_at s 8 2)
     (number_at s 11 2) (number_at s 14 2) (number_at s 17 2)"

lemma length_format_nat: "n < 10 ^ w \<Longrightarrow> 0 < w \<Longrightarrow> length (format_nat n) \<le> w"
proof (induction n arbitrary: w rule: format_nat.induct)
  case (1 n)
  show ?case
  proof (cases "n < 10")
    case True
    then show ?thesis using 1 by (simp add: format_nat.simps [of n])
  next
    case False
    obtain v where w: "w = Suc v" "0 < v" using 1(2,3) False by (cases w; cases "w - 1") auto
    then have "n div 10 < 10 ^ v" using 1(2) by (simp add: less_mult_imp_div_less mult.commute)
    then show ?thesis using 1(1) [OF False _ w(2)] w by (simp add: format_nat.simps [of n] False)
  qed
qed

lemma zeros_val: "foldl (\<lambda>n c. 10 * n + digit_val c) 0 (replicate k (CHR ''0'')) = 0"
  by (induction k) (simp_all add: digit_val_def)

lemma pad_reads:
  assumes "0 \<le> x" and "x < 10 ^ w" and "0 < w"
  shows "length (pad w x) = w" and "digits_val (pad w x) = Some (nat x)" and "\<forall>c \<in> set (pad w x). is_digit c"
proof -
  have "nat x < 10 ^ w" using assms(1,2) by (simp add: nat_less_iff)
  then show "length (pad w x) = w"
    using length_format_nat [of "nat x" w] assms(1,3) by (simp add: pad_def Let_def)
  show "digits_val (pad w x) = Some (nat x)"
    using format_nat_digits [of "nat x"] assms(1) by (auto simp: pad_def Let_def digits_val_def zeros_val is_digit_def)
  then show "\<forall>c \<in> set (pad w x). is_digit c" using digits_val_SomeD by blast
qed

text \<open>The seconds of the years 1 to 9999, whose dates have the width of the layouts.\<close>

definition four_digit_year :: "int \<Rightarrow> bool" where
  "four_digit_year s \<longleftrightarrow> -62135596800 \<le> s \<and> s < 253402300800"

lemma unix_seconds_id: "four_digit_year (t div 1000000000) \<Longrightarrow> unix_seconds t = t div 1000000000"
  unfolding four_digit_year_def unix_seconds_def calendar_start_def
  by (subst mod_pos_pos_trivial) simp_all

lemma civil_year:
  assumes "civil days = (y, m, d)" and "-719162 \<le> days" and "days < 2932897"
  shows "1 \<le> y \<and> y \<le> 9999"
proof (cases rule: year_day_cases [of "days + 719162"])
  case (1 n c q k)
  have y: "y = 400 * n + 100 * c + 4 * q + k + 1" using assms(1) 1(1) by (simp add: civil_def split: prod.splits)
  have "0 \<le> n" using 1(2-9) assms(2) by (auto split: if_splits)
  moreover have "n \<le> 24" using 1(2-8) assms(3) by auto
  ultimately show ?thesis using y 1(2-8) assms(3) by auto
qed

lemma pad_two:
  assumes "0 \<le> x" and "x < 100"
  obtains a b where "pad 2 x = [a, b]" and "digits_val [a, b] = Some (nat x)"
  using pad_reads(1,2) [of x 2] assms by (auto simp: numeral_2_eq_2 length_Suc_conv)

lemma pad_four:
  assumes "0 \<le> x" and "x < 10000"
  obtains a b c d where "pad 4 x = [a, b, c, d]" and "digits_val [a, b, c, d] = Some (nat x)"
  using pad_reads(1,2) [of x 4] assms by (auto simp: eval_nat_numeral length_Suc_conv)

lemma clock_reads:
  assumes "0 \<le> s" and "s < 86400"
  obtains a b c d e f where "clock s = [a, b, CHR '':'', c, d, CHR '':'', e, f]"
    and "digits_val [a, b] = Some (nat (s div 3600))" and "digits_val [c, d] = Some (nat (s div 60 mod 60))"
    and "digits_val [e, f] = Some (nat (s mod 60))"
proof -
  have "s div 3600 < 100" "0 \<le> s div 3600" using assms by auto
  then show ?thesis
    using that by (rule_tac pad_two [of "s div 3600"], simp, simp, rule_tac pad_two [of "s div 60 mod 60"], simp,
      simp, rule_tac pad_two [of "s mod 60"]) (simp_all add: clock_def)
qed

lemma clock_seconds: "3600 * (s div 3600) + 60 * (s div 60 mod 60) + s mod 60 = (s :: int)"
proof -
  have "s div 3600 = s div 60 div 60" by (simp add: zdiv_zmult2_eq [symmetric])
  then show ?thesis using mult_div_mod_eq [of 60 "s div 60"] mult_div_mod_eq [of 60 s] by linarith
qed

lemma instant_seconds:
  assumes "days_of y m d = s div 86400"
  shows "instant (Some y) (Some m) (Some d) (Some (s mod 86400 div 3600)) (Some (s mod 86400 div 60 mod 60))
    (Some (s mod 86400 mod 60)) = Some s"
proof -
  have "86400 * (s div 86400) + 3600 * (s mod 86400 div 3600) + 60 * (s mod 86400 div 60 mod 60) + s mod 86400 mod 60
      = 86400 * (s div 86400) + s mod 86400"
    using clock_seconds [of "s mod 86400"] by (simp only: add.assoc)
  then show ?thesis unfolding instant_def option.case prod.case assms mult_div_mod_eq by (rule arg_cong)
qed

lemma month_found:
  assumes "1 \<le> m" and "m \<le> 12"
  obtains a b c where "months ! nat (m - 1) = [a, b, c]"
    and "List.find (\<lambda>k. months ! k = [a, b, c]) [0..<12] = Some (nat (m - 1))"
proof -
  have "nat (m - 1) < 12" using assms by simp
  then have "nat (m - 1) \<in> {0, 1, 2, 3, 4, 5, 6, 7, 8, 9, 10, 11}" by (rule below_12)
  then show ?thesis using that by (auto simp: months_def upt_rec)
qed

lemma weekday_three: obtains a b c where "weekdays ! nat (n mod 7) = [a, b, c]"
proof -
  have "nat (n mod 7) < 7" by simp
  then have "nat (n mod 7) \<in> {0, 1, 2, 3, 4, 5, 6}" by (simp add: eval_nat_numeral less_Suc_eq)
  then show ?thesis using that by (auto simp: weekdays_def)
qed

lemma civil_of_seconds:
  assumes "four_digit_year s"
  obtains y m d where "civil (s div 86400) = (y, m, d)" and "1 \<le> y" "y \<le> 9999" "1 \<le> m" "m \<le> 12" "1 \<le> d" "d \<le> 31"
    and "days_of y m d = s div 86400"
proof -
  obtain y m d where c: "civil (s div 86400) = (y, m, d)" by (metis surj_pair)
  have "-719162 \<le> s div 86400" "s div 86400 < 2932897" using assms by (auto simp: four_digit_year_def)
  then show ?thesis using that [OF c] civil_year [OF c] civil_inverse [OF c] by blast
qed

lemma http_time_reads:
  assumes "four_digit_year (t div 1000000000)"
  shows "read_http_time (http_time t) = Some (t div 1000000000)"
proof -
  define s where "s = t div 1000000000"
  obtain y m d where c: "civil (s div 86400) = (y, m, d)" "1 \<le> y" "y \<le> 9999" "1 \<le> m" "m \<le> 12" "1 \<le> d" "d \<le> 31"
    and days: "days_of y m d = s div 86400"
    by (rule civil_of_seconds [of s]) (use assms in \<open>simp add: s_def\<close>)
  obtain w1 w2 w3 where w: "weekdays ! nat ((s div 86400 + 4) mod 7) = [w1, w2, w3]" by (rule weekday_three)
  obtain d1 d2 where d: "pad 2 d = [d1, d2]" "digits_val [d1, d2] = Some (nat d)" by (rule pad_two [of d]) (use c in simp_all)
  obtain y1 y2 y3 y4 where y: "pad 4 y = [y1, y2, y3, y4]" "digits_val [y1, y2, y3, y4] = Some (nat y)"
    by (rule pad_four [of y]) (use c in simp_all)
  obtain m1 m2 m3 where m: "months ! nat (m - 1) = [m1, m2, m3]"
    "List.find (\<lambda>k. months ! k = [m1, m2, m3]) [0..<12] = Some (nat (m - 1))"
    by (rule month_found [OF c(4,5)])
  obtain h1 h2 i1 i2 s1 s2 where k: "clock (s mod 86400) = [h1, h2, CHR '':'', i1, i2, CHR '':'', s1, s2]"
    "digits_val [h1, h2] = Some (nat (s mod 86400 div 3600))" "digits_val [i1, i2] = Some (nat (s mod 86400 div 60 mod 60))"
    "digits_val [s1, s2] = Some (nat (s mod 86400 mod 60))"
    by (rule clock_reads [of "s mod 86400"]) simp_all
  have "http_time t = [w1, w2, w3] @ '', '' @ [d1, d2] @ '' '' @ [m1, m2, m3] @ '' '' @ [y1, y2, y3, y4] @ '' '' @
      [h1, h2, CHR '':'', i1, i2, CHR '':'', s1, s2] @ '' GMT''"
    using unix_seconds_id [OF assms] by (simp add: http_time_def Let_def s_def [symmetric] c(1) w d y m k)
  then have "number_at (http_time t) 12 4 = Some y" "number_at (http_time t) 5 2 = Some d"
    "number_at (http_time t) 17 2 = Some (s mod 86400 div 3600)"
    "number_at (http_time t) 20 2 = Some (s mod 86400 div 60 mod 60)"
    "number_at (http_time t) 23 2 = Some (s mod 86400 mod 60)" and at: "take 3 (drop 8 (http_time t)) = [m1, m2, m3]"
    using c by (simp_all add: number_at_def d y k)
  moreover have "month_at (http_time t) 8 = Some m"
    unfolding month_at_def at m(2) using c by simp
  ultimately show ?thesis
    unfolding read_http_time_def using instant_seconds [OF days] by (simp add: s_def)
qed

lemma rfc3339_reads:
  assumes "four_digit_year (t div 1000000000)"
  shows "read_rfc3339 (rfc3339 t) = Some (t div 1000000000)"
proof -
  define s where "s = t div 1000000000"
  obtain y m d where c: "civil (s div 86400) = (y, m, d)" "1 \<le> y" "y \<le> 9999" "1 \<le> m" "m \<le> 12" "1 \<le> d" "d \<le> 31"
    and days: "days_of y m d = s div 86400"
    by (rule civil_of_seconds [of s]) (use assms in \<open>simp add: s_def\<close>)
  obtain d1 d2 where d: "pad 2 d = [d1, d2]" "digits_val [d1, d2] = Some (nat d)" by (rule pad_two [of d]) (use c in simp_all)
  obtain m1 m2 where m: "pad 2 m = [m1, m2]" "digits_val [m1, m2] = Some (nat m)" by (rule pad_two [of m]) (use c in simp_all)
  obtain y1 y2 y3 y4 where y: "pad 4 y = [y1, y2, y3, y4]" "digits_val [y1, y2, y3, y4] = Some (nat y)"
    by (rule pad_four [of y]) (use c in simp_all)
  obtain h1 h2 i1 i2 s1 s2 where k: "clock (s mod 86400) = [h1, h2, CHR '':'', i1, i2, CHR '':'', s1, s2]"
    "digits_val [h1, h2] = Some (nat (s mod 86400 div 3600))" "digits_val [i1, i2] = Some (nat (s mod 86400 div 60 mod 60))"
    "digits_val [s1, s2] = Some (nat (s mod 86400 mod 60))"
    by (rule clock_reads [of "s mod 86400"]) simp_all
  have "rfc3339 t = [y1, y2, y3, y4] @ ''-'' @ [m1, m2] @ ''-'' @ [d1, d2] @ ''T'' @
      [h1, h2, CHR '':'', i1, i2, CHR '':'', s1, s2] @ ''Z''"
    using unix_seconds_id [OF assms] by (simp add: rfc3339_def Let_def s_def [symmetric] c(1) d y m k)
  then have "number_at (rfc3339 t) 0 4 = Some y" "number_at (rfc3339 t) 5 2 = Some m" "number_at (rfc3339 t) 8 2 = Some d"
    "number_at (rfc3339 t) 11 2 = Some (s mod 86400 div 3600)"
    "number_at (rfc3339 t) 14 2 = Some (s mod 86400 div 60 mod 60)"
    "number_at (rfc3339 t) 17 2 = Some (s mod 86400 mod 60)"
    using c by (simp_all add: number_at_def d m y k)
  then show ?thesis
    unfolding read_rfc3339_def using instant_seconds [OF days] by (simp add: s_def)
qed

end
