(* ===== verification/Driver.thy ===== *)
theory Driver
  imports Program GoTime GoUrl "HOL-Library.Word"
begin

unbundle bit_operations_syntax

text \<open>
  The interface a driver offers (\<open>go-filesystems/interface\<close>, a parameter of the development), the
  configuration of a \<open>Handler\<close> (\<open>server.go\<close>), and \<open>info\<close> of \<open>props.go\<close>.
\<close>

section \<open>Drivers\<close>

text \<open>
  What \<open>Stat\<close> tells: the mode, the size, and the modification time when the driver has the
  \<open>TimeStat\<close> capability. A nil \<open>Stat\<close> or \<open>File\<close> returned with no error is \<open>None\<close>.
\<close>

record fstat =
  st_mode :: "16 word"
  st_size :: "64 word"
  st_mtime :: "int option"

text \<open>
  \<open>'s\<close> is the driver's state, \<open>'f\<close> its open files. An error is \<open>Inl\<close>, or \<open>Some\<close> where a call
  returns nothing else. \<open>ReadAt\<close> and \<open>WriteAt\<close> return a count with the error.
\<close>

record ('s, 'f) file_ops =
  file_Size :: "'f \<Rightarrow> ('s, int) state"
  file_ReadAt :: "'f \<Rightarrow> int \<Rightarrow> int \<Rightarrow> ('s, bytes \<times> go_error option) state"
  file_Close :: "'f \<Rightarrow> ('s, go_error option) state"
  file_is_host :: "'f \<Rightarrow> bool"
  file_is_writable :: "'f \<Rightarrow> bool"
  file_WriteAt :: "'f \<Rightarrow> bytes \<Rightarrow> int \<Rightarrow> ('s, int \<times> go_error option) state"
  file_Truncate :: "'f \<Rightarrow> int \<Rightarrow> ('s, go_error option) state"
  file_Sync :: "'f \<Rightarrow> ('s, go_error option) state"
  file_Range :: "'f \<Rightarrow> 'f \<Rightarrow> int \<Rightarrow> int \<Rightarrow> int \<Rightarrow> ('s, int \<times> go_error option) state"

record ('s, 'f) driver =
  drv_Stat :: "path \<Rightarrow> ('s, go_error + fstat option) state"
  drv_ReadFile :: "path \<Rightarrow> ('s, go_error + bytes) state"
  drv_ListDir :: "path \<Rightarrow> ('s, go_error + string list) state"
  drv_WriteFile :: "path \<Rightarrow> bytes \<Rightarrow> nat \<Rightarrow> ('s, go_error option) state"
  drv_MkDir :: "path \<Rightarrow> nat \<Rightarrow> ('s, go_error option) state"
  drv_DeleteFile :: "path \<Rightarrow> ('s, go_error option) state"
  drv_DeleteDir :: "path \<Rightarrow> ('s, go_error option) state"
  drv_Rename :: "path \<Rightarrow> path \<Rightarrow> ('s, go_error option) state"
  drv_OpenFile :: "(path \<Rightarrow> ('s, go_error + 'f option) state) option"
  drv_file :: "('s, 'f) file_ops"

section \<open>The configuration of a handler\<close>

text \<open>
  The parts of the standard library whose result the code does not determine are parameters:
  the hash, the operating system's media types, the host in the authority of a URL, the XML tokenizer
  with the error that ends it, and for the serving of a content: the reading of a date (as seconds), the
  type that a content's first bytes suggest, how many bytes are copied at a time, and the random
  boundary between the parts of a body.
\<close>

datatype xml_token =
    StartElement xml_name "(xml_name \<times> string) list"
  | EndElement xml_name
  | CharData bytes
  | OtherToken

text \<open>
  \<open>http.ServeContent\<close> decides the status, the ranges and the headers of a \<open>GET\<close>; what it does to
  the content is to read it, piece by piece, and to answer in the end.
\<close>

datatype serve_io =
    Served http_response
  | ReadPiece int int "bytes \<times> go_error option \<Rightarrow> serve_io"

record std =
  std_sha256 :: "bytes \<Rightarrow> bytes"
  std_mime :: "string \<Rightarrow> string"
  std_authority :: "string \<Rightarrow> string option"
  std_xml :: "bytes \<Rightarrow> go_error option \<Rightarrow> xml_token list \<times> go_error option"
  std_reencode :: "xml_token list \<Rightarrow> bytes"
  std_date :: "string \<Rightarrow> int option"
  std_sniff :: "bytes \<Rightarrow> string"
  std_chunk :: "int \<Rightarrow> int"
  std_boundary :: string

text \<open>
  The fields of \<open>Handler\<close>; the lock table is in the world. \<open>h_fuel\<close> bounds the depth of the
  recursion over a tree, which the code leaves to the stack.
\<close>

record ('s, 'f) handler =
  h_fs :: "('s, 'f) driver"
  h_ro :: bool
  h_prefix :: string
  h_basic :: "(string \<Rightarrow> string \<Rightarrow> bool) option"
  h_bearer :: "(string \<Rightarrow> bool) option"
  h_realm :: string
  h_insecureAuth :: bool
  h_maxBody :: int
  h_start :: int
  h_total :: "64 word"
  h_avail :: "64 word"
  h_capacity :: "('s, 64 word \<times> 64 word) state option"
  h_std :: std
  h_fuel :: nat

section \<open>Resources\<close>

record resourceInfo =
  ri_path :: path
  ri_name :: string
  ri_isDir :: bool
  ri_isLink :: bool
  ri_size :: "64 word"
  ri_modTime :: int
  ri_etag :: string

definition sIFMT :: "16 word" where "sIFMT = 0xF000"

definition sIFDIR :: "16 word" where "sIFDIR = 0x4000"

definition sIFLNK :: "16 word" where "sIFLNK = 0xA000"

text \<open>\<open>path.Base\<close> and \<open>path.Ext\<close>.\<close>

definition path_base :: "string \<Rightarrow> string" where
  "path_base p =
     (if p = [] then ''.''
      else (let q = rev (dropWhile (\<lambda>c. c = CHR ''/'') (rev p));
                b = (case last_index_byte q CHR ''/'' of None \<Rightarrow> q | Some i \<Rightarrow> drop (Suc i) q)
            in if b = [] then ''/'' else b))"

definition path_ext :: "string \<Rightarrow> string" where
  "path_ext p =
     (let b = (case last_index_byte p CHR ''/'' of None \<Rightarrow> p | Some i \<Rightarrow> drop (Suc i) p)
      in case last_index_byte b CHR ''.'' of None \<Rightarrow> [] | Some i \<Rightarrow> drop i b)"

definition etagFor :: "std \<Rightarrow> resourceInfo \<Rightarrow> string" where
  "etagFor g r =
     [CHR 34] @ hex_encode (take 12 (std_sha256 g
       (ri_path r @ [CHR 0x00] @ format_nat (unat (ri_size r)) @ [CHR 0x00] @
        format_int (int64 (ri_modTime r))))) @ [CHR 34]"

definition infoFromStat :: "('s, 'f) handler \<Rightarrow> path \<Rightarrow> fstat \<Rightarrow> resourceInfo" where
  "infoFromStat h p st =
     (let r = \<lparr>ri_path = p, ri_name = path_base p,
               ri_isDir = (st_mode st AND sIFMT = sIFDIR),
               ri_isLink = (st_mode st AND sIFMT = sIFLNK),
               ri_size = st_size st, ri_modTime = h_start h, ri_etag = []\<rparr>;
          r = (if p = ''/'' then r\<lparr>ri_name := [], ri_isDir := True\<rparr> else r);
          r = (case st_mtime st of Some t \<Rightarrow> r\<lparr>ri_modTime := t * second\<rparr> | None \<Rightarrow> r)
      in r\<lparr>ri_etag := etagFor (h_std h) r\<rparr>)"

definition errNilStat :: go_error where
  "errNilStat = plain_error ''webdav: driver Stat returned a nil Stat with no error''"

definition errNilFile :: go_error where
  "errNilFile = plain_error ''webdav: driver OpenFile returned a nil File with no error''"

definition info :: "('s, 'f) handler \<Rightarrow> path \<Rightarrow> ('s, go_error + resourceInfo) state" where
  "info h p = do {
     st \<leftarrow> drv_Stat (h_fs h) p;
     State_Monad.return (case st of
       Inl err \<Rightarrow> Inl err
     | Inr None \<Rightarrow> Inl errNilStat
     | Inr (Some st) \<Rightarrow> Inr (infoFromStat h p st))
   }"

lemma infoFromStat_path [simp]: "ri_path (infoFromStat h p st) = p"
  by (simp add: infoFromStat_def Let_def split: option.splits)

lemma infoFromStat_isDir:
  "ri_isDir (infoFromStat h p st) \<longleftrightarrow> p = ''/'' \<or> st_mode st AND sIFMT = sIFDIR"
  by (simp add: infoFromStat_def Let_def split: option.splits)

lemma infoFromStat_size [simp]: "ri_size (infoFromStat h p st) = st_size st"
  by (simp add: infoFromStat_def Let_def split: option.splits)

lemma run_info:
  "run_state (info h p) s =
     (case run_state (drv_Stat (h_fs h) p) s of
        (Inl err, s') \<Rightarrow> (Inl err, s')
      | (Inr None, s') \<Rightarrow> (Inl errNilStat, s')
      | (Inr (Some st), s') \<Rightarrow> (Inr (infoFromStat h p st), s'))"
  by (simp add: info_def split: prod.splits sum.splits option.splits)

end
