(* ===== verification/Tree.thy ===== *)
theory Tree
  imports Driver
begin

text \<open>
  The operations of \<open>write.go\<close> that walk a tree or copy a file: \<open>removeTree\<close>, \<open>copyTree\<close> and
  \<open>copyFile\<close>. They run under \<open>fsmu\<close> from beginning to end, so each is one run of driver calls.
  The list of failures they append to is returned; \<open>None\<close> is a recursion deeper than the fuel.
\<close>

definition defaultFilePerm :: nat where "defaultFilePerm = 420"

definition defaultDirPerm :: nat where "defaultDirPerm = 493"

abbreviation hrefOf :: "('s, 'f) handler \<Rightarrow> path \<Rightarrow> bool \<Rightarrow> string" where
  "hrefOf h \<equiv> href (h_prefix h)"

definition failed :: "('s, 'f) handler \<Rightarrow> path \<Rightarrow> bool \<Rightarrow> go_error \<Rightarrow> response" where
  "failed h p coll err = failure_row (hrefOf h p coll) (statusFor err StatusInternalServerError)"

text \<open>The loop over the entries of a directory, which skips the entries for itself and its parent.\<close>

primrec each_member ::
  "(string \<Rightarrow> ('s, response list option) state) \<Rightarrow> string list \<Rightarrow> ('s, response list option) state" where
  "each_member f [] = State_Monad.return (Some [])"
| "each_member f (e # es) =
     (if e = ''.'' \<or> e = ''..'' then each_member f es
      else do {
        a \<leftarrow> f e;
        case a of
          None \<Rightarrow> State_Monad.return None
        | Some xs \<Rightarrow> do {
            b \<leftarrow> each_member f es;
            State_Monad.return (map_option ((@) xs) b)
          }
      })"

primrec removeTree :: "nat \<Rightarrow> ('s, 'f) handler \<Rightarrow> resourceInfo \<Rightarrow> ('s, response list option) state" where
  "removeTree 0 h i = State_Monad.return None"
| "removeTree (Suc n) h i =
     (if \<not> ri_isDir i then do {
        e \<leftarrow> drv_DeleteFile (h_fs h) (ri_path i);
        State_Monad.return (Some (case e of None \<Rightarrow> [] | Some err \<Rightarrow> [failed h (ri_path i) False err]))
      }
      else do {
        entries \<leftarrow> drv_ListDir (h_fs h) (ri_path i);
        case entries of
          Inl err \<Rightarrow> State_Monad.return (Some [failed h (ri_path i) True err])
        | Inr names \<Rightarrow> do {
            failures \<leftarrow> each_member (\<lambda>nm. do {
              child \<leftarrow> info h (join (ri_path i) nm);
              case child of
                Inl err \<Rightarrow> State_Monad.return (Some [failed h (join (ri_path i) nm) False err])
              | Inr c \<Rightarrow> removeTree n h c
            }) names;
            if failures \<noteq> Some [] then State_Monad.return failures
            else do {
              e \<leftarrow> drv_DeleteDir (h_fs h) (ri_path i);
              State_Monad.return (Some (case e of None \<Rightarrow> [] | Some err \<Rightarrow> [failed h (ri_path i) True err]))
            }
          }
      })"

text \<open>The copy that goes through memory, for a driver that cannot open files or write into them.\<close>

definition copy_whole :: "('s, 'f) handler \<Rightarrow> path \<Rightarrow> path \<Rightarrow> ('s, go_error option) state" where
  "copy_whole h src dst = do {
     data \<leftarrow> drv_ReadFile (h_fs h) src;
     case data of
       Inl err \<Rightarrow> State_Monad.return (Some err)
     | Inr d \<Rightarrow> drv_WriteFile (h_fs h) dst d defaultFilePerm
   }"

definition copy_short :: "int \<Rightarrow> int \<Rightarrow> go_error" where
  "copy_short n len = plain_error (''copied '' @ format_int n @ '' of '' @ format_int len @ '' bytes'')"

text \<open>From one open file into the other: truncate, copy the range, sync, close.\<close>

definition copy_range :: "('s, 'f) file_ops \<Rightarrow> 'f \<Rightarrow> 'f \<Rightarrow> ('s, go_error option) state" where
  "copy_range f wfile sfile = do {
     len \<leftarrow> file_Size f sfile;
     err \<leftarrow> file_Truncate f wfile len;
     err \<leftarrow> (case err of
         Some e \<Rightarrow> State_Monad.return (Some e)
       | None \<Rightarrow> do {
           res \<leftarrow> file_Range f wfile sfile 0 0 len;
           State_Monad.return (if snd res = None \<and> fst res \<noteq> len
             then Some (copy_short (fst res) len) else snd res)
         });
     err \<leftarrow> (case err of Some e \<Rightarrow> State_Monad.return (Some e) | None \<Rightarrow> file_Sync f wfile);
     cerr \<leftarrow> file_Close f wfile;
     State_Monad.return (case err of None \<Rightarrow> cerr | Some e \<Rightarrow> Some e)
   }"

definition copy_opened ::
  "('s, 'f) handler \<Rightarrow> (path \<Rightarrow> ('s, go_error + 'f option) state) \<Rightarrow> path \<Rightarrow> path \<Rightarrow> 'f \<Rightarrow>
   ('s, go_error option) state" where
  "copy_opened h opn src dst sfile = do {
     err \<leftarrow> drv_WriteFile (h_fs h) dst [] defaultFilePerm;
     case err of
       Some e \<Rightarrow> State_Monad.return (Some e)
     | None \<Rightarrow> do {
         df \<leftarrow> opn dst;
         case df of
           Inl e \<Rightarrow> State_Monad.return (Some e)
         | Inr None \<Rightarrow> State_Monad.return (Some errNilFile)
         | Inr (Some wfile) \<Rightarrow>
             if \<not> file_is_writable (drv_file (h_fs h)) wfile then do {
               _ \<leftarrow> file_Close (drv_file (h_fs h)) wfile;
               copy_whole h src dst
             }
             else copy_range (drv_file (h_fs h)) wfile sfile
       }
   }"

definition copyFile :: "('s, 'f) handler \<Rightarrow> path \<Rightarrow> path \<Rightarrow> ('s, go_error option) state" where
  "copyFile h src dst =
     (case drv_OpenFile (h_fs h) of
        None \<Rightarrow> copy_whole h src dst
      | Some opn \<Rightarrow> do {
          sfile \<leftarrow> opn src;
          case sfile of
            Inl e \<Rightarrow> State_Monad.return (Some e)
          | Inr None \<Rightarrow> State_Monad.return (Some errNilFile)
          | Inr (Some sfile) \<Rightarrow> do {
              err \<leftarrow> copy_opened h opn src dst sfile;
              _ \<leftarrow> file_Close (drv_file (h_fs h)) sfile;
              State_Monad.return err
            }
        })"

primrec copyTree ::
  "nat \<Rightarrow> ('s, 'f) handler \<Rightarrow> resourceInfo \<Rightarrow> path \<Rightarrow> bool \<Rightarrow> ('s, response list option) state" where
  "copyTree 0 h src dst deep = State_Monad.return None"
| "copyTree (Suc n) h src dst deep =
     (if \<not> ri_isDir src then do {
        e \<leftarrow> copyFile h (ri_path src) dst;
        State_Monad.return (Some (case e of None \<Rightarrow> [] | Some err \<Rightarrow> [failed h dst False err]))
      }
      else do {
        e \<leftarrow> drv_MkDir (h_fs h) dst defaultDirPerm;
        case e of
          Some err \<Rightarrow> State_Monad.return (Some [failed h dst True err])
        | None \<Rightarrow>
            if \<not> deep then State_Monad.return (Some [])
            else do {
              entries \<leftarrow> drv_ListDir (h_fs h) (ri_path src);
              case entries of
                Inl err \<Rightarrow> State_Monad.return (Some [failed h dst True err])
              | Inr names \<Rightarrow> each_member (\<lambda>nm. do {
                  child \<leftarrow> info h (join (ri_path src) nm);
                  case child of
                    Inl err \<Rightarrow> State_Monad.return (Some [failed h (join dst nm) False err])
                  | Inr c \<Rightarrow> copyTree n h c (join dst nm) True
                }) names
            }
      })"

end
