(* ===== verification/LockCalls.thy ===== *)
theory LockCalls
  imports LockSafety Driver
begin

text \<open>
  How a handler calls its collaborators: the methods of the lock table at the clock of the
  world, the driver, the capacity callback; and what a lock failure is answered with.
\<close>

section \<open>Calls\<close>

definition fs_call :: "('s, 'a) state \<Rightarrow> ('a \<Rightarrow> 's proc) \<Rightarrow> 's proc" where
  "fs_call m k = Fs (do { x \<leftarrow> m; State_Monad.return (k x) })"

definition ls_call :: "(lock_world, 'a) state \<Rightarrow> ('a \<Rightarrow> 's proc) \<Rightarrow> 's proc" where
  "ls_call m k = Ls (do { x \<leftarrow> m; State_Monad.return (k x) })"

definition cap_call :: "('s, 'a) state \<Rightarrow> ('a \<Rightarrow> 's proc) \<Rightarrow> 's proc" where
  "cap_call m k = Call (do { x \<leftarrow> m; State_Monad.return (k x) })"

lemma run_fs_call [run_simps]:
  "run_proc (fs_call m k) w = (case run_state m (w_fs w) of (x, s) \<Rightarrow> run_proc (k x) (w\<lparr>w_fs := s\<rparr>))"
  by (simp add: fs_call_def run_Fs split: prod.splits)

lemma run_ls_call [run_simps]:
  "run_proc (ls_call m k) w = (case run_state m (w_lk w) of (x, l) \<Rightarrow> run_proc (k x) (w\<lparr>w_lk := l\<rparr>))"
  by (simp add: ls_call_def run_Ls split: prod.splits)

lemma run_cap_call [run_simps]:
  "run_proc (cap_call m k) w = (case run_state m (w_fs w) of (x, s) \<Rightarrow> run_proc (k x) (w\<lparr>w_fs := s\<rparr>))"
  by (simp add: cap_call_def run_Call split: prod.splits)

lemma sat_map: "sat P B (do { x \<leftarrow> m; State_Monad.return (k x) }) \<longleftrightarrow> sat P (\<lambda>x. B (k x)) m"
  by (simp add: sat_def split: prod.splits)

lemma keeps_fs_call:
  "sat P A m \<Longrightarrow> (\<And>x. A x \<Longrightarrow> keeps P Q R (k x)) \<Longrightarrow> keeps P Q R (fs_call m k)"
  by (auto simp: fs_call_def sat_map intro: sat_mono)

lemma keeps_ls_call:
  "sat Q A m \<Longrightarrow> (\<And>x. A x \<Longrightarrow> keeps P Q R (k x)) \<Longrightarrow> keeps P Q R (ls_call m k)"
  by (auto simp: ls_call_def sat_map intro: sat_mono)

lemma keeps_cap_call:
  "sat P A m \<Longrightarrow> (\<And>x. A x \<Longrightarrow> keeps P Q R (k x)) \<Longrightarrow> keeps P Q R (cap_call m k)"
  by (auto simp: cap_call_def sat_map intro: sat_mono)

lemma orderly_fs_call [intro]:
  "has \<Longrightarrow> (\<And>x. orderly late (k x) has) \<Longrightarrow> orderly late (fs_call m k) has"
  by (simp add: fs_call_def sat_map all_results_True)

lemma orderly_ls_call [intro]:
  "(\<And>x. orderly late (k x) has) \<Longrightarrow> orderly late (ls_call m k) has"
  by (simp add: ls_call_def sat_map all_results_True)

lemma orderly_cap_call [intro]:
  "(\<And>x. orderly late (k x) has) \<Longrightarrow> orderly late (cap_call m k) has"
  by (simp add: cap_call_def sat_map all_results_True)

section \<open>The lock table in the world\<close>

definition lw_confirm :: "path \<Rightarrow> token list \<Rightarrow> (lock_world, lock_error option) state" where
  "lw_confirm p ts = State (\<lambda>l. case confirm (lw_now l) p ts (lw_table l) of (r, t) \<Rightarrow> (r, l\<lparr>lw_table := t\<rparr>))"

definition lw_unlock :: "path \<Rightarrow> token \<Rightarrow> (lock_world, lock_error option) state" where
  "lw_unlock p tok = State (\<lambda>l. case unlock (lw_now l) p tok (lw_table l) of (r, t) \<Rightarrow> (r, l\<lparr>lw_table := t\<rparr>))"

definition lw_refresh :: "path \<Rightarrow> token list \<Rightarrow> nanos \<Rightarrow> (lock_world, lock_error + nat) state" where
  "lw_refresh p ts d = State (\<lambda>l. case refresh (lw_now l) p ts d (lw_table l) of (r, t) \<Rightarrow> (r, l\<lparr>lw_table := t\<rparr>))"

definition lw_release :: "path \<Rightarrow> (lock_world, unit) state" where
  "lw_release p = State (\<lambda>l. ((), l\<lparr>lw_table := releaseTree p (lw_table l)\<rparr>))"

definition lw_find :: "path \<Rightarrow> (lock_world, nat option) state" where
  "lw_find p = State (\<lambda>l. case find_lock (lw_now l) p (lw_table l) of (r, t) \<Rightarrow> (r, l\<lparr>lw_table := t\<rparr>))"

text \<open>A lock the table handed out is read through its pointer, outside the table's mutex.\<close>

definition lw_read :: "nat \<Rightarrow> (lock_world, lockInfo) state" where
  "lw_read r = gets (\<lambda>l. deref (lw_table l) r)"

text \<open>A token is drawn only once the lock is known to be free and the table to have room.\<close>

definition lw_create :: "path \<Rightarrow> int \<Rightarrow> bytes \<Rightarrow> nanos \<Rightarrow> (lock_world, lock_error + nat) state" where
  "lw_create p d ow t = State (\<lambda>l.
     case create (lw_now l) (lw_rand l 0) p d ow t (lw_table l) of (r, tab) \<Rightarrow>
       (r, l\<lparr>lw_table := tab,
             lw_rand := (if r = Inl ErrLocked \<or> r = Inl ErrLockTableFull then lw_rand l
                         else (\<lambda>n. lw_rand l (Suc n)))\<rparr>))"

section \<open>Answering a lock failure\<close>

definition locked_xml :: string where
  "locked_xml = xml_header @ ''<error xmlns='' @ [CHR 34] @ ''DAV:'' @ [CHR 34] @
     ''><lock-token-submitted/></error>'' @ [CHR 0x0A]"

definition writeLockError :: "headers \<Rightarrow> lock_error \<Rightarrow> http_response" where
  "writeLockError w err =
     (case err of
        ErrLocked \<Rightarrow>
          respond_with (header_set w ''Content-Type'' ''application/xml; charset=utf-8'') StatusLocked locked_xml
      | ErrNoSuchLock \<Rightarrow> http_error w StatusConflict ''webdav: webdav: no such lock''
      | ErrLockTableFull \<Rightarrow> http_error w StatusInternalServerError ''webdav: webdav: lock table full''
      | ErrRand e \<Rightarrow> http_error w StatusInternalServerError (''webdav: '' @ err_text e))"

definition checkLocks :: "request \<Rightarrow> path \<Rightarrow> (lock_error option \<Rightarrow> 's proc) \<Rightarrow> 's proc" where
  "checkLocks r p k = ls_call (lw_confirm p (submittedTokens (rq_header r ''If''))) k"

lemma writeLockError_status [simp]:
  "rs_status (writeLockError w ErrLocked) = StatusLocked"
  "rs_status (writeLockError w ErrNoSuchLock) = StatusConflict"
  "rs_status (writeLockError w ErrLockTableFull) = StatusInternalServerError"
  "rs_status (writeLockError w (ErrRand e)) = StatusInternalServerError"
  by (simp_all add: writeLockError_def respond_with_def http_error_def)

end
