(* ===== verification/WriteOps.thy ===== *)
theory WriteOps
  imports LockCalls Tree
begin

text \<open>
  The mutating methods of \<open>write.go\<close> and \<open>putrange.go\<close>: \<open>PUT\<close> (whole and ranged), \<open>MKCOL\<close>,
  \<open>DELETE\<close>, \<open>MOVE\<close>, \<open>COPY\<close>. The argument \<open>w\<close> is the header map of the response so far. A
  deferred unlock is written out before each answer; a body is read where the code reads it,
  between two critical sections.
\<close>

abbreviation fail_with :: "headers \<Rightarrow> go_error \<Rightarrow> http_response" where
  "fail_with w err \<equiv>
     http_error w (statusFor err StatusInternalServerError) (''webdav: '' @ err_text err)"

section \<open>Partial PUT\<close>

datatype writable_error = NotWritable | DriverError go_error

definition writableAt :: "('s, 'f) handler \<Rightarrow> path \<Rightarrow> ('s, writable_error + 'f) state" where
  "writableAt h p =
     (case drv_OpenFile (h_fs h) of
        None \<Rightarrow> State_Monad.return (Inl NotWritable)
      | Some opn \<Rightarrow> do {
          f \<leftarrow> opn p;
          case f of
            Inl err \<Rightarrow> State_Monad.return (Inl (DriverError err))
          | Inr None \<Rightarrow> State_Monad.return (Inl (DriverError errNilFile))
          | Inr (Some f) \<Rightarrow>
              if \<not> file_is_writable (drv_file (h_fs h)) f then do {
                _ \<leftarrow> file_Close (drv_file (h_fs h)) f;
                State_Monad.return (Inl NotWritable)
              }
              else State_Monad.return (Inr f)
        })"

definition closeFile :: "('s, 'f) handler \<Rightarrow> 'f \<Rightarrow> 's proc \<Rightarrow> 's proc" where
  "closeFile h f k = Lock (fs_call (file_Close (drv_file (h_fs h)) f) (\<lambda>_. Unlock k))"

text \<open>Grow (when appending), write, shrink back if that failed, sync, close.\<close>

definition write_range ::
  "('s, 'f) file_ops \<Rightarrow> 'f \<Rightarrow> contentRange \<Rightarrow> bytes \<Rightarrow> bool \<Rightarrow> int \<Rightarrow> ('s, go_error option) state" where
  "write_range ops f cr body appending len = do {
     err \<leftarrow> (if appending then file_Truncate ops f (int64 (cr_end cr + 1)) else State_Monad.return None);
     err \<leftarrow> (case err of
         Some e \<Rightarrow> State_Monad.return (Some e)
       | None \<Rightarrow> do {
           res \<leftarrow> file_WriteAt ops f body (cr_start cr);
           if snd res \<noteq> None \<and> appending then do {
             _ \<leftarrow> file_Truncate ops f len;
             State_Monad.return (snd res)
           }
           else State_Monad.return (snd res)
         });
     err \<leftarrow> (case err of Some e \<Rightarrow> State_Monad.return (Some e) | None \<Rightarrow> file_Sync ops f);
     cerr \<leftarrow> file_Close ops f;
     State_Monad.return (case err of None \<Rightarrow> cerr | Some e \<Rightarrow> Some e)
   }"

definition with_etag :: "headers \<Rightarrow> go_error + resourceInfo \<Rightarrow> headers" where
  "with_etag w ri =
     (case ri of
        Inl _ \<Rightarrow> w
      | Inr i \<Rightarrow> if ri_etag i = [] then w else header_set w ''Etag'' (ri_etag i))"

definition putRange_write ::
  "('s, 'f) handler \<Rightarrow> headers \<Rightarrow> path \<Rightarrow> contentRange \<Rightarrow> 'f \<Rightarrow> bytes \<Rightarrow> bool \<Rightarrow> int \<Rightarrow> 's proc" where
  "putRange_write h w name cr f body appending len =
     Lock (fs_call (write_range (drv_file (h_fs h)) f cr body appending len) (\<lambda>err.
       case err of
         Some e \<Rightarrow> Unlock (Done (fail_with w e))
       | None \<Rightarrow> fs_call (info h name) (\<lambda>after.
           Unlock (Done (respond_with (with_etag w after) StatusNoContent [])))))"

definition putRange_body ::
  "('s, 'f) handler \<Rightarrow> headers \<Rightarrow> request \<Rightarrow> path \<Rightarrow> contentRange \<Rightarrow> 'f \<Rightarrow> int \<Rightarrow> 's proc" where
  "putRange_body h w r name cr f len =
     (let appending = (cr_start cr = len)
      in if cr_end cr \<ge> len \<and> \<not> appending
         then closeFile h f (Done (http_error (header_set w ''Content-Range'' (''bytes */'' @ format_int len))
                StatusRequestedRangeNotSatisfiable ''webdav: range beyond the end of the resource''))
         else (case read_all_limited (h_maxBody h) (cr_length cr) r of
             Inl TooLarge \<Rightarrow>
               closeFile h f (Done (http_error w StatusRequestEntityTooLarge ''webdav: request body too large''))
           | Inl (ReadErr e) \<Rightarrow>
               closeFile h f (Done (http_error w StatusBadRequest (''webdav: reading request body: '' @ err_text e)))
           | Inr body \<Rightarrow>
               if int (length body) \<noteq> cr_length cr
               then closeFile h f (Done (http_error w StatusBadRequest
                      ''webdav: body shorter than the declared Content-Range''))
               else putRange_write h w name cr f body appending len))"

definition servePutRange ::
  "('s, 'f) handler \<Rightarrow> headers \<Rightarrow> request \<Rightarrow> path \<Rightarrow> contentRange \<Rightarrow> 's proc" where
  "servePutRange h w r name cr =
     Lock (fs_call (info h name) (\<lambda>ri. case ri of
         Inl err \<Rightarrow> Unlock (Done (http_error w (conflictOr err)
           (''webdav: partial PUT on a resource that does not exist: '' @ err_text err)))
       | Inr i \<Rightarrow>
           if ri_isDir i
           then Unlock (Done (http_error w StatusMethodNotAllowed
                  ''webdav: cannot PUT a range into a collection''))
           else fs_call (writableAt h name) (\<lambda>wf'. case wf' of
               Inl NotWritable \<Rightarrow> Unlock (Done (http_error w StatusNotImplemented
                 ''webdav: this filesystem cannot write at an offset; send the whole resource with a plain PUT''))
             | Inl (DriverError err) \<Rightarrow> Unlock (Done (fail_with w err))
             | Inr f \<Rightarrow> fs_call (file_Size (drv_file (h_fs h)) f) (\<lambda>len.
                 Unlock (putRange_body h w r name cr f len)))))"

section \<open>PUT\<close>

definition put_response ::
  "('s, 'f) handler \<Rightarrow> headers \<Rightarrow> path \<Rightarrow> bool \<Rightarrow> go_error + resourceInfo \<Rightarrow> http_response" where
  "put_response h w name existed ri =
     (if existed then respond_with (with_etag w ri) StatusNoContent []
      else respond_with (header_set (with_etag w ri) ''Location'' (hrefOf h name False)) StatusCreated [])"

definition put_write :: "('s, 'f) handler \<Rightarrow> headers \<Rightarrow> request \<Rightarrow> path \<Rightarrow> bool \<Rightarrow> 's proc" where
  "put_write h w r name existed =
     (case read_all_max (h_maxBody h) r of
        Inl TooLarge \<Rightarrow> Done (http_error w StatusRequestEntityTooLarge ''webdav: request body too large'')
      | Inl (ReadErr e) \<Rightarrow>
          Done (http_error w StatusBadRequest (''webdav: reading request body: '' @ err_text e))
      | Inr body \<Rightarrow>
          Lock (fs_call (drv_WriteFile (h_fs h) name body defaultFilePerm) (\<lambda>err. case err of
              Some e \<Rightarrow> Unlock (Done (fail_with w e))
            | None \<Rightarrow> fs_call (info h name) (\<lambda>ri. Unlock (Done (put_response h w name existed ri))))))"

definition servePut :: "('s, 'f) handler \<Rightarrow> headers \<Rightarrow> request \<Rightarrow> path \<Rightarrow> 's proc" where
  "servePut h w r name =
     (if name = ''/''
      then Done (http_error w StatusMethodNotAllowed ''webdav: cannot PUT the root collection'')
      else checkLocks r name (\<lambda>lerr. case lerr of
          Some err \<Rightarrow> Done (writeLockError w err)
        | None \<Rightarrow>
            if rq_header r ''Content-Range'' \<noteq> []
            then (case parseContentRange (rq_header r ''Content-Range'') of
                None \<Rightarrow> Done (http_error w StatusBadRequest ''webdav: malformed Content-Range'')
              | Some cr \<Rightarrow> servePutRange h w r name cr)
            else Lock (fs_call (info h (parentOf name)) (\<lambda>parent. case parent of
                Inl err \<Rightarrow> Unlock (Done (http_error w (conflictOr err)
                  (''webdav: parent collection: '' @ err_text err)))
              | Inr pi \<Rightarrow>
                  if \<not> ri_isDir pi
                  then Unlock (Done (http_error w StatusConflict ''webdav: parent is not a collection''))
                  else fs_call (drv_Stat (h_fs h) name) (\<lambda>st.
                    Unlock (put_write h w r name (\<not> isl st)))))))"

section \<open>MKCOL\<close>

definition serveMkcol :: "('s, 'f) handler \<Rightarrow> headers \<Rightarrow> request \<Rightarrow> path \<Rightarrow> 's proc" where
  "serveMkcol h w r name = checkLocks r name (\<lambda>lerr. case lerr of
       Some err \<Rightarrow> Done (writeLockError w err)
     | None \<Rightarrow>
         if rq_body r \<noteq> []
         then Done (http_error w StatusUnsupportedMediaType ''webdav: MKCOL with a request body is not supported'')
         else Lock (fs_call (drv_Stat (h_fs h) name) (\<lambda>st. case st of
             Inr _ \<Rightarrow> Unlock (Done (http_error w StatusMethodNotAllowed ''webdav: resource already exists''))
           | Inl _ \<Rightarrow> fs_call (info h (parentOf name)) (\<lambda>parent. case parent of
               Inl err \<Rightarrow> Unlock (Done (http_error w (conflictOr err)
                 (''webdav: parent collection: '' @ err_text err)))
             | Inr pi \<Rightarrow>
                 if \<not> ri_isDir pi
                 then Unlock (Done (http_error w StatusConflict ''webdav: parent is not a collection''))
                 else fs_call (drv_MkDir (h_fs h) name defaultDirPerm) (\<lambda>err. case err of
                     Some e \<Rightarrow> Unlock (Done (fail_with w e))
                   | None \<Rightarrow> Unlock (Done (respond_with
                       (header_set w ''Location'' (hrefOf h name True)) StatusCreated [])))))))"

section \<open>DELETE\<close>

text \<open>Removing a tree for a handler: running out of fuel is a recursion with no answer.\<close>

definition remove_call ::
  "('s, 'f) handler \<Rightarrow> resourceInfo \<Rightarrow> (response list \<Rightarrow> 's proc) \<Rightarrow> 's proc" where
  "remove_call h i k = fs_call (removeTree (h_fuel h) h i) (\<lambda>res. case res of
       None \<Rightarrow> Diverge
     | Some failures \<Rightarrow> k failures)"

definition serveDelete :: "('s, 'f) handler \<Rightarrow> headers \<Rightarrow> request \<Rightarrow> path \<Rightarrow> 's proc" where
  "serveDelete h w r name =
     (if name = ''/''
      then Done (http_error w StatusForbidden ''webdav: cannot DELETE the root collection'')
      else checkLocks r name (\<lambda>lerr. case lerr of
          Some err \<Rightarrow> Done (writeLockError w err)
        | None \<Rightarrow> Lock (fs_call (info h name) (\<lambda>ri. case ri of
            Inl err \<Rightarrow> Unlock (Done (fail_with w err))
          | Inr i \<Rightarrow> remove_call h i (\<lambda>failures.
              if failures = []
              then ls_call (lw_release name) (\<lambda>_. Unlock (Done (respond_with w StatusNoContent [])))
              else Unlock (Done (writeMultistatus w failures)))))))"

section \<open>MOVE and COPY\<close>

definition destination :: "('s, 'f) handler \<Rightarrow> request \<Rightarrow> nat + path" where
  "destination h r =
     (let raw = rq_header r ''Destination''
      in if raw = [] then Inl StatusBadRequest
         else (case url_parse (std_authority (h_std h)) raw of
             None \<Rightarrow> Inl StatusBadRequest
           | Some (host, upath) \<Rightarrow>
               if host \<noteq> [] \<and> \<not> equal_fold host (rq_host r) then Inl StatusBadGateway
               else (case resource (h_prefix h) upath of
                   None \<Rightarrow> Inl StatusBadGateway
                 | Some dst \<Rightarrow> Inr dst)))"

lemma canonical_destination: "destination h r = Inr dst \<Longrightarrow> canonical dst"
  by (auto simp: destination_def Let_def dest: resource_SomeD(1) split: if_splits option.splits)

text \<open>
  \<open>prepareDestination\<close>, under \<open>fsmu\<close>: an answer of its own, or \<open>k\<close> with the status to report.
\<close>

definition prepareDestination ::
  "('s, 'f) handler \<Rightarrow> headers \<Rightarrow> request \<Rightarrow> path \<Rightarrow> path \<Rightarrow> (nat \<Rightarrow> 's proc) \<Rightarrow> 's proc" where
  "prepareDestination h w r src dst k =
     (if dst = src
      then Unlock (Done (http_error w StatusForbidden ''webdav: source and destination are the same''))
      else if dst = ''/''
      then Unlock (Done (http_error w StatusForbidden ''webdav: cannot overwrite the root collection''))
      else if strictlyUnder src dst
      then Unlock (Done (http_error w StatusForbidden ''webdav: destination is inside the source''))
      else (case overwrite (rq_header r ''Overwrite'') of
          None \<Rightarrow> Unlock (Done (http_error w StatusBadRequest ''webdav: bad Overwrite header''))
        | Some ow \<Rightarrow> fs_call (info h (parentOf dst)) (\<lambda>parent. case parent of
            Inl err \<Rightarrow> Unlock (Done (http_error w (conflictOr err)
              (''webdav: destination parent: '' @ err_text err)))
          | Inr pi \<Rightarrow>
              if \<not> ri_isDir pi
              then Unlock (Done (http_error w StatusConflict ''webdav: destination parent is not a collection''))
              else fs_call (info h dst) (\<lambda>existing. case existing of
                  Inl err \<Rightarrow> if notFound err then k StatusCreated else Unlock (Done (fail_with w err))
                | Inr e \<Rightarrow>
                    if \<not> ow
                    then Unlock (Done (http_error w StatusPreconditionFailed
                           ''webdav: destination exists and Overwrite is F''))
                    else remove_call h e (\<lambda>failures.
                      if failures \<noteq> [] then Unlock (Done (writeMultistatus w failures))
                      else ls_call (lw_release dst) (\<lambda>_. k StatusNoContent))))))"

definition serveMove :: "('s, 'f) handler \<Rightarrow> headers \<Rightarrow> request \<Rightarrow> path \<Rightarrow> 's proc" where
  "serveMove h w r name =
     (case destination h r of
        Inl bad \<Rightarrow> Done (http_error w bad ''webdav: bad Destination'')
      | Inr dst \<Rightarrow>
          if name = ''/''
          then Done (http_error w StatusForbidden ''webdav: cannot MOVE the root collection'')
          else checkLocks r name (\<lambda>lerr. case lerr of
              Some err \<Rightarrow> Done (writeLockError w err)
            | None \<Rightarrow> checkLocks r dst (\<lambda>lerr'. case lerr' of
                Some err \<Rightarrow> Done (writeLockError w err)
              | None \<Rightarrow> Lock (fs_call (info h name) (\<lambda>ri. case ri of
                  Inl err \<Rightarrow> Unlock (Done (fail_with w err))
                | Inr _ \<Rightarrow> prepareDestination h w r name dst (\<lambda>code.
                    fs_call (drv_Rename (h_fs h) name dst) (\<lambda>err. case err of
                        Some e \<Rightarrow> Unlock (Done (fail_with w e))
                      | None \<Rightarrow> ls_call (lw_release name) (\<lambda>_. Unlock (Done (respond_with
                          (header_set w ''Location'' (hrefOf h dst False)) code []))))))))))"

definition serveCopy :: "('s, 'f) handler \<Rightarrow> headers \<Rightarrow> request \<Rightarrow> path \<Rightarrow> 's proc" where
  "serveCopy h w r name =
     (case destination h r of
        Inl bad \<Rightarrow> Done (http_error w bad ''webdav: bad Destination'')
      | Inr dst \<Rightarrow>
     (case parseDepth (rq_header r ''Depth'') of
        None \<Rightarrow> Done (http_error w StatusBadRequest ''webdav: COPY accepts Depth 0 or infinity'')
      | Some depth \<Rightarrow>
          if depth = depthOne
          then Done (http_error w StatusBadRequest ''webdav: COPY accepts Depth 0 or infinity'')
          else checkLocks r dst (\<lambda>lerr. case lerr of
              Some err \<Rightarrow> Done (writeLockError w err)
            | None \<Rightarrow> Lock (fs_call (info h name) (\<lambda>ri. case ri of
                Inl err \<Rightarrow> Unlock (Done (fail_with w err))
              | Inr src \<Rightarrow> prepareDestination h w r name dst (\<lambda>code.
                  fs_call (copyTree (h_fuel h) h src dst (depth = depthInfinity)) (\<lambda>res. case res of
                      None \<Rightarrow> Diverge
                    | Some failures \<Rightarrow>
                        if failures \<noteq> [] then Unlock (Done (writeMultistatus w failures))
                        else Unlock (Done (respond_with
                          (header_set w ''Location'' (hrefOf h dst (ri_isDir src))) code [])))))))))"

lemmas [handler_defs] = servePut_def serveMkcol_def serveDelete_def serveMove_def serveCopy_def
  servePutRange_def putRange_body_def putRange_write_def put_write_def put_response_def
  prepareDestination_def remove_call_def closeFile_def checkLocks_def

end
