(* ===== verification/LockOps.thy ===== *)
theory LockOps
  imports LockCalls
begin

text \<open>
  \<open>LOCK\<close>, \<open>UNLOCK\<close> and the \<open>lockdiscovery\<close> property of \<open>lock.go\<close>, with the parsing of a
  \<open>LOCK\<close> body from the tokens of the XML decoder.
\<close>

section \<open>Rendering a lock\<close>

definition supportedLockXML :: bytes where
  \<open>supportedLockXML = ''<lockentry xmlns="DAV:"><lockscope><exclusive/></lockscope>'' @
     ''<locktype><write/></locktype></lockentry>''\<close>

text \<open>Go's integer division truncates towards zero.\<close>

definition quot :: "int \<Rightarrow> int \<Rightarrow> int" where
  "quot a b = (if a < 0 then - ((- a) div b) else a div b)"

definition activeLockXML :: "lockInfo \<Rightarrow> string \<Rightarrow> bytes" where
  \<open>activeLockXML l lockroot =
     ''<activelock xmlns="DAV:">'' @
     ''<locktype><write/></locktype>'' @
     ''<lockscope><exclusive/></lockscope>'' @
     ''<depth>'' @ depthHeader (lk_depth l) @ ''</depth>'' @
     (if lk_owner l \<noteq> [] then ''<owner>'' @ lk_owner l @ ''</owner>'' else []) @
     ''<timeout>Second-'' @ format_int (quot (lk_timeout l) second) @ ''</timeout>'' @
     ''<locktoken><href>'' @ textValue (lk_token l) @ ''</href></locktoken>'' @
     ''<lockroot><href>'' @ textValue lockroot @ ''</href></lockroot>'' @
     ''</activelock>''\<close>

definition discoveryXML :: "('s, 'f) handler \<Rightarrow> path \<Rightarrow> (bytes \<Rightarrow> 's proc) \<Rightarrow> 's proc" where
  "discoveryXML h p k = ls_call (lw_find p) (\<lambda>l. case l of
       None \<Rightarrow> k []
     | Some l \<Rightarrow> ls_call (lw_read l) (\<lambda>li. k (activeLockXML li (href (h_prefix h) (lk_path li) False))))"

section \<open>Reading XML bodies\<close>

definition maxPropfindBody :: nat where "maxPropfindBody = 2 ^ 20"

text \<open>The decoder over an \<open>io.LimitReader\<close>, which ends cleanly once it has given its bytes.\<close>

definition xml_input :: "('s, 'f) handler \<Rightarrow> request \<Rightarrow> xml_token list \<times> go_error option" where
  "xml_input h r = std_xml (h_std h) (take maxPropfindBody (rq_body r))
     (if maxPropfindBody \<le> length (rq_body r) then None else rq_body_err r)"

lemma xml_input_code [code]:
  "xml_input h r =
     (if int (length (rq_body r)) < 1048576 then std_xml (h_std h) (rq_body r) (rq_body_err r)
      else std_xml (h_std h) (take maxPropfindBody (rq_body r)) None)"
proof -
  have "int n < 1048576 \<longleftrightarrow> \<not> maxPropfindBody \<le> n" for n by (auto simp: maxPropfindBody_def)
  then show ?thesis by (simp add: xml_input_def)
qed

text \<open>\<open>Decoder.Skip\<close>: past the end of the element that is open, unless the tokens run out.\<close>

fun skip :: "nat \<Rightarrow> xml_token list \<Rightarrow> xml_token list option" where
  "skip d [] = None"
| "skip d (StartElement n a # ts) = skip (Suc d) ts"
| "skip d (EndElement n # ts) = (if d = 0 then Some ts else skip (d - 1) ts)"
| "skip d (CharData b # ts) = skip d ts"
| "skip d (OtherToken # ts) = skip d ts"

lemma skip_shorter: "skip d ts = Some us \<Longrightarrow> length us < length ts"
  by (induction d ts rule: skip.induct) (auto split: if_splits)

text \<open>
  The loop of \<open>reencode\<close>: the tokens up to the end of the element named \<open>n\<close>, without comments,
  instructions and directives, and the tokens after it.
\<close>

fun reencode_tokens ::
  "xml_name \<Rightarrow> int \<Rightarrow> xml_token list \<Rightarrow> xml_token list \<Rightarrow> (xml_token list \<times> xml_token list) option" where
  "reencode_tokens n d out [] = None"
| "reencode_tokens n d out (StartElement m a # ts) = reencode_tokens n (d + 1) (out @ [StartElement m a]) ts"
| "reencode_tokens n d out (EndElement m # ts) =
     (if d = 0 \<and> m = n then Some (out, ts) else reencode_tokens n (d - 1) (out @ [EndElement m]) ts)"
| "reencode_tokens n d out (CharData b # ts) = reencode_tokens n d (out @ [CharData b]) ts"
| "reencode_tokens n d out (OtherToken # ts) = reencode_tokens n d out ts"

lemma reencode_shorter:
  "reencode_tokens n d out ts = Some (o', us) \<Longrightarrow> length us < length ts"
  by (induction n d out ts rule: reencode_tokens.induct) (auto split: if_splits)

section \<open>The body of a LOCK\<close>

record lockRequest =
  lr_refresh :: bool
  lr_owner :: bytes

function parse_lock_loop ::
  "(xml_token list \<Rightarrow> bytes) \<Rightarrow> bool \<Rightarrow> bytes \<Rightarrow> xml_token list \<Rightarrow> go_error option \<Rightarrow> lockRequest option" where
  "parse_lock_loop enc seenRoot own ts ending =
     (case ts of
        [] \<Rightarrow>
          (case ending of
             Some _ \<Rightarrow> None
           | None \<Rightarrow> Some \<lparr>lr_refresh = (\<not> seenRoot), lr_owner = own\<rparr>)
      | StartElement n a # us \<Rightarrow>
          if \<not> seenRoot then
            (if fst n \<noteq> davNS \<or> snd n \<noteq> ''lockinfo'' then None
             else parse_lock_loop enc True own us ending)
          else if fst n = davNS \<and> snd n = ''owner'' then
            (case reencode_tokens n 0 [] us of
               None \<Rightarrow> None
             | Some (toks, vs) \<Rightarrow> parse_lock_loop enc seenRoot (enc toks) vs ending)
          else
            (case skip 0 us of
               None \<Rightarrow> None
             | Some vs \<Rightarrow> parse_lock_loop enc seenRoot own vs ending)
      | _ # us \<Rightarrow> parse_lock_loop enc seenRoot own us ending)"
  by pat_completeness auto
termination
  by (relation "measure (\<lambda>(enc, seenRoot, own, ts, ending). length ts)")
     (auto dest: skip_shorter reencode_shorter)

declare parse_lock_loop.simps [simp del]

definition parseLock :: "('s, 'f) handler \<Rightarrow> request \<Rightarrow> lockRequest option" where
  "parseLock h r =
     (case xml_input h r of (ts, ending) \<Rightarrow> parse_lock_loop (std_reencode (h_std h)) False [] ts ending)"

section \<open>LOCK\<close>

definition lock_body :: "('s, 'f) handler \<Rightarrow> lockInfo \<Rightarrow> bytes" where
  \<open>lock_body h l = xml_header @ ''<prop xmlns="DAV:"><lockdiscovery>'' @
     activeLockXML l (href (h_prefix h) (lk_path l) False) @ ''</lockdiscovery></prop>'' @ [CHR 0x0A]\<close>

definition lock_response :: "('s, 'f) handler \<Rightarrow> headers \<Rightarrow> lockInfo \<Rightarrow> nat \<Rightarrow> http_response" where
  "lock_response h w l code =
     respond_with (header_set (header_set w ''Lock-Token'' (''<'' @ lk_token l @ ''>''))
       ''Content-Type'' ''application/xml; charset=utf-8'') code (lock_body h l)"

definition writeLockResponse :: "('s, 'f) handler \<Rightarrow> headers \<Rightarrow> nat \<Rightarrow> nat \<Rightarrow> 's proc" where
  "writeLockResponse h w l code = ls_call (lw_read l) (\<lambda>li. Done (lock_response h w li code))"

definition lock_create ::
  "('s, 'f) handler \<Rightarrow> headers \<Rightarrow> path \<Rightarrow> int \<Rightarrow> bytes \<Rightarrow> nanos \<Rightarrow> bool \<Rightarrow> 's proc" where
  "lock_create h w name depth own timeout created =
     ls_call (lw_create name depth own timeout) (\<lambda>res. case res of
         Inl err \<Rightarrow> Done (writeLockError w err)
       | Inr l \<Rightarrow> writeLockResponse h w l (if created then StatusCreated else StatusOK))"

definition serveLock :: "('s, 'f) handler \<Rightarrow> headers \<Rightarrow> request \<Rightarrow> path \<Rightarrow> 's proc" where
  "serveLock h w r name =
     (case parseDepth (rq_header r ''Depth'') of
        None \<Rightarrow> Done (http_error w StatusBadRequest ''webdav: LOCK accepts Depth 0 or infinity'')
      | Some depth \<Rightarrow>
          if depth = depthOne
          then Done (http_error w StatusBadRequest ''webdav: LOCK accepts Depth 0 or infinity'')
          else (case parseLock h r of
              None \<Rightarrow> Done (http_error w StatusUnprocessable ''webdav: malformed LOCK body'')
            | Some req \<Rightarrow>
                (let timeout = parseTimeout (rq_header r ''Timeout'')
                 in if lr_refresh req
                    then ls_call (lw_refresh name (submittedTokens (rq_header r ''If'')) timeout) (\<lambda>res. case res of
                        Inl _ \<Rightarrow> Done (http_error w StatusPreconditionFailed ''webdav: no lock to refresh'')
                      | Inr l \<Rightarrow> writeLockResponse h w l StatusOK)
                    else Lock (fs_call (drv_Stat (h_fs h) name) (\<lambda>st. case st of
                        Inr _ \<Rightarrow> Unlock (lock_create h w name depth (lr_owner req) timeout False)
                      | Inl err \<Rightarrow>
                          if \<not> notFound err
                          then Unlock (Done (http_error w (statusFor err StatusInternalServerError)
                                 (''webdav: '' @ err_text err)))
                          else fs_call (drv_WriteFile (h_fs h) name [] 420) (\<lambda>e. case e of
                              Some e \<Rightarrow> Unlock (Done (http_error w (statusFor e StatusInternalServerError)
                                 (''webdav: '' @ err_text e)))
                            | None \<Rightarrow> Unlock (lock_create h w name depth (lr_owner req) timeout True)))))))"

section \<open>UNLOCK\<close>

definition serveUnlock :: "('s, 'f) handler \<Rightarrow> headers \<Rightarrow> request \<Rightarrow> path \<Rightarrow> 's proc" where
  "serveUnlock h w r name =
     (let raw = trim_space (rq_header r ''Lock-Token'')
      in if \<not> has_prefix raw ''<'' \<or> \<not> has_suffix raw ''>''
         then Done (http_error w StatusBadRequest ''webdav: UNLOCK requires a Lock-Token header'')
         else ls_call (lw_unlock name (butlast (tl raw))) (\<lambda>err. case err of
             Some e \<Rightarrow> Done (writeLockError w e)
           | None \<Rightarrow> Done (respond_with w StatusNoContent [])))"

lemmas [handler_defs] = serveLock_def serveUnlock_def lock_create_def writeLockResponse_def
  discoveryXML_def

end
