(* ===== verification/Propfind.thy ===== *)
theory Propfind
  imports LockOps Tree
begin

text \<open>
  \<open>PROPFIND\<close> and \<open>PROPPATCH\<close> (\<open>propfind.go\<close>): the parsing of their bodies from the decoder's
  tokens, the properties of a resource and the rows of the multistatus answer.
\<close>

section \<open>The bodies\<close>

record propfindRequest =
  pf_allprop :: bool
  pf_propname :: bool
  pf_names :: "xml_name list"
  pf_include :: "xml_name list"

definition empty_propfind :: propfindRequest where
  "empty_propfind = \<lparr>pf_allprop = False, pf_propname = False, pf_names = [], pf_include = []\<rparr>"

text \<open>What an element outside the two containers of names adds to the request.\<close>

definition request_kind :: "string \<Rightarrow> propfindRequest \<Rightarrow> propfindRequest" where
  "request_kind local req =
     (if local = ''allprop'' then req\<lparr>pf_allprop := True\<rparr>
      else if local = ''propname'' then req\<lparr>pf_propname := True\<rparr> else req)"

function parse_propfind_loop ::
  "bool \<Rightarrow> bool \<Rightarrow> bool \<Rightarrow> propfindRequest \<Rightarrow> xml_token list \<Rightarrow> (bool \<times> propfindRequest) option" where
  "parse_propfind_loop inProp inInclude seenRoot req ts =
     (case ts of
        [] \<Rightarrow> Some (seenRoot, req)
      | StartElement n a # us \<Rightarrow>
          if \<not> seenRoot then
            (if fst n \<noteq> davNS \<or> snd n \<noteq> ''propfind'' then None
             else parse_propfind_loop inProp inInclude True req us)
          else if \<not> inProp \<and> \<not> inInclude \<and> fst n = davNS \<and> snd n = ''prop''
          then parse_propfind_loop True inInclude seenRoot req us
          else if \<not> inProp \<and> \<not> inInclude \<and> fst n = davNS \<and> snd n = ''include''
          then parse_propfind_loop inProp True seenRoot req us
          else
            (case skip 0 us of
               None \<Rightarrow> None
             | Some vs \<Rightarrow> parse_propfind_loop inProp inInclude seenRoot
                 (if inProp then req\<lparr>pf_names := pf_names req @ [n]\<rparr>
                  else if inInclude then req\<lparr>pf_include := pf_include req @ [n]\<rparr>
                  else if fst n = davNS then request_kind (snd n) req else req) vs)
      | EndElement n # us \<Rightarrow>
          parse_propfind_loop
            (if fst n = davNS \<and> snd n = ''prop'' then False else inProp)
            (if fst n = davNS \<and> snd n = ''include'' then False else inInclude) seenRoot req us
      | _ # us \<Rightarrow> parse_propfind_loop inProp inInclude seenRoot req us)"
  by pat_completeness auto
termination
  by (relation "measure (\<lambda>(inProp, inInclude, seenRoot, req, ts). length ts)") (auto dest: skip_shorter)

declare parse_propfind_loop.simps [simp del]

definition parsePropfind :: "('s, 'f) handler \<Rightarrow> request \<Rightarrow> propfindRequest option" where
  "parsePropfind h r =
     (case xml_input h r of (ts, ending) \<Rightarrow>
        (case parse_propfind_loop False False False empty_propfind ts of
           None \<Rightarrow> None
         | Some (seenRoot, req) \<Rightarrow>
             if ending \<noteq> None then None
             else if \<not> seenRoot then Some (req\<lparr>pf_allprop := True\<rparr>)
             else if \<not> pf_allprop req \<and> \<not> pf_propname req \<and> pf_names req = [] then None
             else Some req))"

function parse_proppatch_loop ::
  "bool \<Rightarrow> bool \<Rightarrow> xml_name list \<Rightarrow> xml_token list \<Rightarrow> (bool \<times> xml_name list) option" where
  "parse_proppatch_loop inProp seenRoot names ts =
     (case ts of
        [] \<Rightarrow> Some (seenRoot, names)
      | StartElement n a # us \<Rightarrow>
          if \<not> seenRoot then
            (if fst n \<noteq> davNS \<or> snd n \<noteq> ''propertyupdate'' then None
             else parse_proppatch_loop inProp True names us)
          else if \<not> inProp \<and> fst n = davNS \<and> snd n = ''prop''
          then parse_proppatch_loop True seenRoot names us
          else if \<not> inProp \<and> fst n = davNS \<and> (snd n = ''set'' \<or> snd n = ''remove'')
          then parse_proppatch_loop inProp seenRoot names us
          else
            (case skip 0 us of
               None \<Rightarrow> None
             | Some vs \<Rightarrow> parse_proppatch_loop inProp seenRoot (if inProp then names @ [n] else names) vs)
      | EndElement n # us \<Rightarrow>
          parse_proppatch_loop (if fst n = davNS \<and> snd n = ''prop'' then False else inProp) seenRoot names us
      | _ # us \<Rightarrow> parse_proppatch_loop inProp seenRoot names us)"
  by pat_completeness auto
termination
  by (relation "measure (\<lambda>(inProp, seenRoot, names, ts). length ts)") (auto dest: skip_shorter)

declare parse_proppatch_loop.simps [simp del]

definition parseProppatch :: "('s, 'f) handler \<Rightarrow> request \<Rightarrow> xml_name list option" where
  "parseProppatch h r =
     (case xml_input h r of (ts, ending) \<Rightarrow>
        (case parse_proppatch_loop False False [] ts of
           None \<Rightarrow> None
         | Some (seenRoot, names) \<Rightarrow> if ending \<noteq> None \<or> \<not> seenRoot then None else Some names))"

section \<open>The properties of a resource\<close>

text \<open>\<open>space\<close> of \<open>server.go\<close>: the fixed numbers, or the callback's.\<close>

definition space :: "('s, 'f) handler \<Rightarrow> (64 word \<times> 64 word \<Rightarrow> 's proc) \<Rightarrow> 's proc" where
  "space h k = (case h_capacity h of None \<Rightarrow> k (h_total h, h_avail h) | Some f \<Rightarrow> cap_call f k)"

definition base_names :: "string list" where
  "base_names = [''resourcetype'', ''displayname'', ''getlastmodified'', ''creationdate'',
     ''getetag'', ''getcontenttype'', ''supportedlock'', ''lockdiscovery'']"

definition propNames :: "('s, 'f) handler \<Rightarrow> resourceInfo \<Rightarrow> (string list \<Rightarrow> 's proc) \<Rightarrow> 's proc" where
  "propNames h i k =
     (if \<not> ri_isDir i then k (base_names @ [''getcontentlength''])
      else space h (\<lambda>(tot, avail).
        k (base_names @ (if tot > 0 then [''quota-available-bytes'', ''quota-used-bytes''] else []))))"

definition collectionType :: string where "collectionType = ''httpd/unix-directory''"

definition contentTypeOf :: "std \<Rightarrow> resourceInfo \<Rightarrow> string" where
  "contentTypeOf g i =
     (if ri_isDir i then collectionType
      else if std_mime g (path_ext (ri_name i)) \<noteq> [] then std_mime g (path_ext (ri_name i))
      else ''application/octet-stream'')"

definition quota_value :: "string \<Rightarrow> 64 word \<times> 64 word \<Rightarrow> 64 word" where
  "quota_value local sp =
     (if local = ''quota-available-bytes'' then snd sp else fst sp - min (snd sp) (fst sp))"

text \<open>A property this server does not have is \<open>None\<close>.\<close>

definition propValue ::
  "('s, 'f) handler \<Rightarrow> resourceInfo \<Rightarrow> xml_name \<Rightarrow> (xml_property option \<Rightarrow> 's proc) \<Rightarrow> 's proc" where
  \<open>propValue h i n k =
     (let local = snd n in
      if fst n \<noteq> davNS then k None
      else if local = ''resourcetype'' then
        k (Some (prop_dav local (if ri_isDir i then ''<collection xmlns="DAV:"/>'' else [])))
      else if local = ''displayname'' then k (Some (prop_dav local (textValue (ri_name i))))
      else if local = ''getlastmodified'' then
        k (Some (prop_dav local (textValue (http_time (ri_modTime i)))))
      else if local = ''creationdate'' then
        k (Some (prop_dav local (textValue (rfc3339 (ri_modTime i)))))
      else if local = ''getetag'' then k (Some (prop_dav local (textValue (ri_etag i))))
      else if local = ''supportedlock'' then k (Some (prop_dav local supportedLockXML))
      else if local = ''lockdiscovery'' then
        discoveryXML h (ri_path i) (\<lambda>x. k (Some (prop_dav local x)))
      else if local = ''getcontentlength'' then
        (if ri_isDir i then k None
         else k (Some (prop_dav local (textValue (format_nat (unat (ri_size i)))))))
      else if local = ''getcontenttype'' then
        k (Some (prop_dav local (textValue (contentTypeOf (h_std h) i))))
      else if local = ''quota-available-bytes'' \<or> local = ''quota-used-bytes'' then
        (if \<not> ri_isDir i then k None
         else space h (\<lambda>sp.
           if fst sp = 0 then k None
           else k (Some (prop_dav local (textValue (format_nat (unat (quota_value local sp))))))))
      else k None)\<close>

definition empty_property :: xml_property where
  "empty_property = \<lparr>pr_name = ([], []), pr_inner = []\<rparr>"

text \<open>The loop of \<open>allProps\<close>, which takes a missing value for the zero \<open>property\<close>.\<close>

primrec all_props_loop ::
  "('s, 'f) handler \<Rightarrow> resourceInfo \<Rightarrow> string list \<Rightarrow> (xml_property list \<Rightarrow> 's proc) \<Rightarrow> 's proc" where
  "all_props_loop h i [] k = k []"
| "all_props_loop h i (n # ns) k =
     propValue h i (davNS, n) (\<lambda>p. all_props_loop h i ns (\<lambda>ps.
       k ((case p of Some p \<Rightarrow> p | None \<Rightarrow> empty_property) # ps)))"

definition allProps :: "('s, 'f) handler \<Rightarrow> resourceInfo \<Rightarrow> (xml_property list \<Rightarrow> 's proc) \<Rightarrow> 's proc" where
  "allProps h i k = propNames h i (\<lambda>names. all_props_loop h i names k)"

primrec namedProps ::
  "('s, 'f) handler \<Rightarrow> resourceInfo \<Rightarrow> xml_name list \<Rightarrow>
   (xml_property list \<times> xml_property list \<Rightarrow> 's proc) \<Rightarrow> 's proc" where
  "namedProps h i [] k = k ([], [])"
| "namedProps h i (n # ns) k =
     propValue h i n (\<lambda>p. namedProps h i ns (\<lambda>(found, missing).
       case p of
         Some p \<Rightarrow> k (p # found, missing)
       | None \<Rightarrow> k (found, \<lparr>pr_name = n, pr_inner = []\<rparr> # missing)))"

definition propstat_row :: "string \<Rightarrow> propstat list \<Rightarrow> response" where
  "propstat_row hr pss = \<lparr>row_href = hr, row_propstat = pss, row_status = []\<rparr>"

definition respond ::
  "('s, 'f) handler \<Rightarrow> resourceInfo \<Rightarrow> propfindRequest \<Rightarrow> (response \<Rightarrow> 's proc) \<Rightarrow> 's proc" where
  "respond h i req k =
     (let hr = hrefOf h (ri_path i) (ri_isDir i)
      in if pf_propname req then
           propNames h i (\<lambda>_. propNames h i (\<lambda>names.
             k (propstat_row hr [newPropstat StatusOK (map (\<lambda>n. prop_dav n []) names)])))
         else if pf_allprop req then
           allProps h i (\<lambda>ps. k (propstat_row hr [newPropstat StatusOK ps]))
         else
           namedProps h i (pf_names req) (\<lambda>(found, missing).
             k (propstat_row hr
               ((if found \<noteq> [] then [newPropstat StatusOK found] else []) @
                (if missing \<noteq> [] then [newPropstat StatusNotFound missing] else [])))))"

section \<open>PROPFIND\<close>

text \<open>The rows of the members of a collection.\<close>

primrec member_rows ::
  "('s, 'f) handler \<Rightarrow> path \<Rightarrow> propfindRequest \<Rightarrow> string list \<Rightarrow> (response list \<Rightarrow> 's proc) \<Rightarrow> 's proc" where
  "member_rows h name req [] k = k []"
| "member_rows h name req (n # ns) k =
     (if n = ''.'' \<or> n = ''..'' then member_rows h name req ns k
      else fs_call (info h (join name n)) (\<lambda>child. case child of
          Inl err \<Rightarrow> member_rows h name req ns (\<lambda>rows. k (failed h (join name n) False err # rows))
        | Inr c \<Rightarrow> respond h c req (\<lambda>row. member_rows h name req ns (\<lambda>rows. k (row # rows)))))"

definition finite_depth_xml :: bytes where
  \<open>finite_depth_xml = xml_header @ ''<error xmlns="DAV:"><propfind-finite-depth/></error>'' @ [CHR 0x0A]\<close>

definition servePropfind :: "('s, 'f) handler \<Rightarrow> headers \<Rightarrow> request \<Rightarrow> path \<Rightarrow> 's proc" where
  "servePropfind h w r name =
     (case parseDepth (rq_header r ''Depth'') of
        None \<Rightarrow> Done (http_error w StatusBadRequest ''webdav: bad Depth'')
      | Some depth \<Rightarrow>
          if depth = depthInfinity
          then Done (respond_with (header_set w ''Content-Type'' ''application/xml; charset=utf-8'')
                 StatusForbidden finite_depth_xml)
          else (case parsePropfind h r of
              None \<Rightarrow> Done (http_error w StatusUnprocessable ''webdav: malformed PROPFIND body'')
            | Some req \<Rightarrow> Lock (fs_call (info h name) (\<lambda>self. case self of
                Inl err \<Rightarrow> Unlock (Done (http_error w (statusFor err StatusInternalServerError)
                  (''webdav: '' @ err_text err)))
              | Inr i \<Rightarrow> respond h i req (\<lambda>row.
                  if depth = depthOne \<and> ri_isDir i
                  then fs_call (drv_ListDir (h_fs h) name) (\<lambda>entries. case entries of
                      Inl err \<Rightarrow> Unlock (Done (http_error w (statusFor err StatusInternalServerError)
                        (''webdav: '' @ err_text err)))
                    | Inr names \<Rightarrow> member_rows h name req names (\<lambda>rows.
                        Unlock (Done (writeMultistatus w (row # rows)))))
                  else Unlock (Done (writeMultistatus w [row])))))))"

section \<open>PROPPATCH\<close>

definition serveProppatch :: "('s, 'f) handler \<Rightarrow> headers \<Rightarrow> request \<Rightarrow> path \<Rightarrow> 's proc" where
  "serveProppatch h w r name = checkLocks r name (\<lambda>lerr. case lerr of
       Some err \<Rightarrow> Done (writeLockError w err)
     | None \<Rightarrow>
        (case parseProppatch h r of
           None \<Rightarrow> Done (http_error w StatusUnprocessable ''webdav: malformed PROPPATCH body'')
         | Some names \<Rightarrow> Lock (fs_call (info h name) (\<lambda>self. Unlock (Done (case self of
             Inl err \<Rightarrow> http_error w (statusFor err StatusInternalServerError) (''webdav: '' @ err_text err)
           | Inr i \<Rightarrow> writeMultistatus w [propstat_row (hrefOf h (ri_path i) (ri_isDir i))
               [newPropstat StatusForbidden (map (\<lambda>n. \<lparr>pr_name = n, pr_inner = []\<rparr>) names)]]))))))"

lemmas [handler_defs] = servePropfind_def serveProppatch_def respond_def allProps_def propNames_def
  space_def propValue_def

end
