(* ===== verification/ServeContent.thy ===== *)
theory ServeContent
  imports Driver
begin

text \<open>
  \<open>http.ServeContent\<close>: what \<open>net/http\<close> does with the content \<open>get.go\<close> hands to it: conditional requests,
  the content type, ranges of bytes, one or several, and \<open>HEAD\<close>. The content is read piece by piece; how
  much is asked for at a time, the sniffing of a type, the boundary between parts and the reading of
  dates are fields of \<open>std\<close>.
\<close>

section \<open>Entity tags\<close>

definition blank :: "char \<Rightarrow> bool" where
  "blank c \<longleftrightarrow> c = CHR '' '' \<or> c = CHR 0x09 \<or> c = CHR 0x0A \<or> c = CHR 0x0D"

text \<open>\<open>textproto.TrimString\<close>.\<close>

definition trim_string :: "string \<Rightarrow> string" where
  "trim_string s = rev (dropWhile blank (rev (dropWhile blank s)))"

definition etag_char :: "char \<Rightarrow> bool" where
  "etag_char c \<longleftrightarrow> (let n = (of_char c :: nat) in n = 0x21 \<or> 0x23 \<le> n \<and> n \<le> 0x7E \<or> 0x80 \<le> n)"

text \<open>\<open>scanETag\<close>: the tag at the start of a list and what follows it; no tag is the empty string.\<close>

definition scanETag :: "string \<Rightarrow> string \<times> string" where
  "scanETag s =
     (let s = trim_string s;
          start = (if has_prefix s ''W/'' then 2 else 0 :: nat);
          t = drop start s
      in case t of
           [] \<Rightarrow> ([], [])
         | q # u \<Rightarrow>
             if q \<noteq> CHR 34 then ([], [])
             else (case dropWhile etag_char u of
                 [] \<Rightarrow> ([], [])
               | c # rest \<Rightarrow>
                   if c = CHR 34 then (take start s @ [q] @ takeWhile etag_char u @ [c], rest) else ([], [])))"

definition etagStrongMatch :: "string \<Rightarrow> string \<Rightarrow> bool" where
  "etagStrongMatch a b \<longleftrightarrow> a = b \<and> has_prefix a [CHR 34]"

definition trim_weak :: "string \<Rightarrow> string" where
  "trim_weak s = (if has_prefix s ''W/'' then drop 2 s else s)"

definition etagWeakMatch :: "string \<Rightarrow> string \<Rightarrow> bool" where
  "etagWeakMatch a b \<longleftrightarrow> trim_weak a = trim_weak b"

lemma length_trim_string: "length (trim_string s) \<le> length s"
  unfolding trim_string_def using length_dropWhile_le [of blank "rev (dropWhile blank s)"] length_dropWhile_le [of blank s]
  by simp

lemma scanETag_shorter: "fst (scanETag s) \<noteq> [] \<Longrightarrow> length (snd (scanETag s)) < length s"
proof -
  assume a: "fst (scanETag s) \<noteq> []"
  let ?t = "drop (if has_prefix (trim_string s) ''W/'' then 2 else 0) (trim_string s)"
  obtain q u where t: "?t = q # u" using a by (cases ?t) (auto simp: scanETag_def Let_def)
  obtain c rest where u: "dropWhile etag_char u = c # rest" "snd (scanETag s) = rest"
    using a t by (cases "dropWhile etag_char u") (auto simp: scanETag_def Let_def split: if_splits)
  have "length rest < length u" using length_dropWhile_le [of etag_char u] u(1) by simp
  moreover have "length u < length (trim_string s)"
    using arg_cong [OF t, of length] by (auto split: if_splits)
  ultimately show ?thesis using u(2) length_trim_string [of s] by simp
qed

text \<open>The loop over a list of tags in \<open>checkIfMatch\<close> and \<open>checkIfNoneMatch\<close>: a tag that matches, or \<open>*\<close>.\<close>

function any_etag :: "(string \<Rightarrow> bool) \<Rightarrow> string \<Rightarrow> bool" where
  "any_etag m s =
     (case trim_string s of
        [] \<Rightarrow> False
      | c # t \<Rightarrow>
          if c = CHR '','' then any_etag m t
          else if c = CHR ''*'' then True
          else if fst (scanETag (c # t)) = [] then False
          else m (fst (scanETag (c # t))) \<or> any_etag m (snd (scanETag (c # t))))"
  by auto

termination
proof (relation "measure (\<lambda>(m, s). length s)", goal_cases)
  case (2 m s c t)
  then show ?case using length_trim_string [of s] by simp
next
  case (3 m s c t)
  then show ?case using length_trim_string [of s] scanETag_shorter [of "c # t"] by simp
qed simp

declare any_etag.simps [simp del]

section \<open>Conditional requests\<close>

datatype cond = condNone | condTrue | condFalse

text \<open>The zero time of Go and of Unix count as no time.\<close>

definition isZeroTime :: "int \<Rightarrow> bool" where
  "isZeroTime t \<longleftrightarrow> t = 0 \<or> t = -62135596800 * 1000000000"

definition checkIfMatch :: "headers \<Rightarrow> request \<Rightarrow> cond" where
  "checkIfMatch w r =
     (if rq_header r ''If-Match'' = [] then condNone
      else if any_etag (\<lambda>e. etagStrongMatch e (header_get w ''Etag'')) (rq_header r ''If-Match'') then condTrue
      else condFalse)"

definition checkIfNoneMatch :: "headers \<Rightarrow> request \<Rightarrow> cond" where
  "checkIfNoneMatch w r =
     (if rq_header r ''If-None-Match'' = [] then condNone
      else if any_etag (\<lambda>e. etagWeakMatch e (header_get w ''Etag'')) (rq_header r ''If-None-Match'') then condFalse
      else condTrue)"

definition checkIfUnmodifiedSince :: "std \<Rightarrow> request \<Rightarrow> int \<Rightarrow> cond" where
  "checkIfUnmodifiedSince g r t =
     (if rq_header r ''If-Unmodified-Since'' = [] \<or> isZeroTime t then condNone
      else (case std_date g (rq_header r ''If-Unmodified-Since'') of
          None \<Rightarrow> condNone
        | Some s \<Rightarrow> if t div 1000000000 \<le> s then condTrue else condFalse))"

definition checkIfModifiedSince :: "std \<Rightarrow> request \<Rightarrow> int \<Rightarrow> cond" where
  "checkIfModifiedSince g r t =
     (if rq_method r \<notin> {''GET'', ''HEAD''} then condNone
      else if rq_header r ''If-Modified-Since'' = [] \<or> isZeroTime t then condNone
      else (case std_date g (rq_header r ''If-Modified-Since'') of
          None \<Rightarrow> condNone
        | Some s \<Rightarrow> if t div 1000000000 \<le> s then condFalse else condTrue))"

definition checkIfRange :: "std \<Rightarrow> headers \<Rightarrow> request \<Rightarrow> int \<Rightarrow> cond" where
  "checkIfRange g w r t =
     (let ir = rq_header r ''If-Range''
      in if rq_method r \<notin> {''GET'', ''HEAD''} \<or> ir = [] then condNone
         else if fst (scanETag ir) \<noteq> []
         then (if etagStrongMatch (fst (scanETag ir)) (header_get w ''Etag'') then condTrue else condFalse)
         else if t = -62135596800 * 1000000000 then condFalse
         else if std_date g ir = Some (t div 1000000000) then condTrue else condFalse)"

definition writeNotModified :: "headers \<Rightarrow> http_response" where
  "writeNotModified w =
     (let w = header_del (header_del (header_del w ''Content-Type'') ''Content-Length'') ''Content-Encoding'';
          w = (if header_get w ''Etag'' \<noteq> [] then header_del w ''Last-Modified'' else w)
      in respond_with w StatusNotModified [])"

text \<open>\<open>checkPreconditions\<close>: an answer, or the \<open>Range\<close> that is to be honoured.\<close>

definition checkPreconditions :: "std \<Rightarrow> headers \<Rightarrow> request \<Rightarrow> int \<Rightarrow> http_response + string" where
  "checkPreconditions g w r t =
     (let ch = (case checkIfMatch w r of condNone \<Rightarrow> checkIfUnmodifiedSince g r t | c \<Rightarrow> c)
      in if ch = condFalse then Inl (respond_with w StatusPreconditionFailed [])
         else if checkIfNoneMatch w r = condFalse
         then Inl (if rq_method r \<in> {''GET'', ''HEAD''} then writeNotModified w
                   else respond_with w StatusPreconditionFailed [])
         else if checkIfNoneMatch w r = condNone \<and> checkIfModifiedSince g r t = condFalse
         then Inl (writeNotModified w)
         else if rq_header r ''Range'' \<noteq> [] \<and> checkIfRange g w r t = condFalse then Inr []
         else Inr (rq_header r ''Range''))"

section \<open>Ranges\<close>

text \<open>A range is its start and its length.\<close>

type_synonym byte_range = "int \<times> int"

datatype range_error = invalidRange | errNoOverlap

definition range_text :: "range_error \<Rightarrow> string" where
  "range_text e = (case e of invalidRange \<Rightarrow> ''invalid range'' | errNoOverlap \<Rightarrow> ''invalid range: failed to overlap'')"

text \<open>One part of the list: \<open>None\<close> when it does not overlap the content.\<close>

definition parse_byte_range :: "int \<Rightarrow> string \<Rightarrow> range_error + byte_range option" where
  "parse_byte_range len ra =
     (case cut ra CHR ''-'' of
        None \<Rightarrow> Inl invalidRange
      | Some (a, b) \<Rightarrow>
          (let start = trim_string a; stop = trim_string b
           in if start = [] then
                (if stop = [] \<or> has_prefix stop ''-'' then Inl invalidRange
                 else (case parse_int stop of
                     None \<Rightarrow> Inl invalidRange
                   | Some i \<Rightarrow>
                       if i < 0 then Inl invalidRange
                       else Inr (Some (len - min i len, min i len))))
              else (case parse_int start of
                  None \<Rightarrow> Inl invalidRange
                | Some i \<Rightarrow>
                    if i < 0 then Inl invalidRange
                    else if i \<ge> len then Inr None
                    else if stop = [] then Inr (Some (i, len - i))
                    else (case parse_int stop of
                        None \<Rightarrow> Inl invalidRange
                      | Some j \<Rightarrow>
                          if i > j then Inl invalidRange
                          else Inr (Some (i, min j (len - 1) - i + 1))))))"

fun parse_range_list :: "int \<Rightarrow> string list \<Rightarrow> bool \<Rightarrow> byte_range list \<Rightarrow> range_error + byte_range list" where
  "parse_range_list len [] none out = (if none \<and> out = [] then Inl errNoOverlap else Inr out)"
| "parse_range_list len (ra # ras) none out =
     (if trim_string ra = [] then parse_range_list len ras none out
      else (case parse_byte_range len (trim_string ra) of
          Inl e \<Rightarrow> Inl e
        | Inr None \<Rightarrow> parse_range_list len ras True out
        | Inr (Some x) \<Rightarrow> parse_range_list len ras none (out @ [x])))"

definition parseRange :: "string \<Rightarrow> int \<Rightarrow> range_error + byte_range list" where
  "parseRange s len =
     (if s = [] then Inr []
      else (case cut_prefix s ''bytes='' of
          None \<Rightarrow> Inl invalidRange
        | Some t \<Rightarrow> parse_range_list len (split_on CHR '','' t) False []))"

definition content_range :: "byte_range \<Rightarrow> int \<Rightarrow> string" where
  "content_range ra len =
     ''bytes '' @ format_int (fst ra) @ ''-'' @ format_int (fst ra + snd ra - 1) @ ''/'' @ format_int len"

section \<open>The body\<close>

text \<open>
  Bytes \<open>off\<close> to \<open>off + rem\<close> of the content, added to what is out already, in pieces of a size the
  connection chooses. A read that fails ends the copy; so does one that returns nothing, which the
  contract of \<open>io.ReaderAt\<close> excludes. \<open>k\<close> learns whether all of it was copied.
\<close>

function send :: "std \<Rightarrow> int \<Rightarrow> int \<Rightarrow> bytes \<Rightarrow> (bytes \<Rightarrow> bool \<Rightarrow> serve_io) \<Rightarrow> serve_io" where
  "send g off rem out k =
     (if rem \<le> 0 then k out True
      else (let n = max 1 (min rem (std_chunk g rem))
            in ReadPiece off n (\<lambda>res.
                 let b = take (nat n) (fst res)
                 in if snd res \<noteq> None \<or> b = [] then k (out @ b) (int (length b) = rem)
                    else send g (off + int (length b)) (rem - int (length b)) (out @ b) k)))"
  by auto

termination
  by (relation "measure (\<lambda>(g, off, rem, out, k). nat rem)") auto

declare send.simps [simp del]

definition crlf :: string where "crlf = [CHR 0x0D, CHR 0x0A]"

text \<open>\<open>multipart.Writer\<close>: what is before each part, and after the last.\<close>

definition part_header :: "std \<Rightarrow> string \<Rightarrow> int \<Rightarrow> bool \<Rightarrow> byte_range \<Rightarrow> bytes" where
  "part_header g ctype len first ra =
     (if first then [] else crlf) @ ''--'' @ std_boundary g @ crlf @
     ''Content-Range: '' @ content_range ra len @ crlf @ ''Content-Type: '' @ ctype @ crlf @ crlf"

definition closing :: "std \<Rightarrow> bytes" where
  "closing g = crlf @ ''--'' @ std_boundary g @ ''--'' @ crlf"

primrec send_parts ::
  "std \<Rightarrow> string \<Rightarrow> int \<Rightarrow> bool \<Rightarrow> byte_range list \<Rightarrow> bytes \<Rightarrow> (bytes \<Rightarrow> serve_io) \<Rightarrow> serve_io" where
  "send_parts g ctype len first [] out k = k (out @ closing g)"
| "send_parts g ctype len first (ra # ras) out k =
     send g (fst ra) (snd ra) (out @ part_header g ctype len first ra)
       (\<lambda>out done. if done then send_parts g ctype len False ras out k else k out)"

text \<open>\<open>rangesMIMESize\<close>.\<close>

primrec mime_size :: "std \<Rightarrow> string \<Rightarrow> int \<Rightarrow> bool \<Rightarrow> byte_range list \<Rightarrow> int" where
  "mime_size g ctype len first [] = int (length (closing g))"
| "mime_size g ctype len first (ra # ras) =
     int (length (part_header g ctype len first ra)) + snd ra + mime_size g ctype len False ras"

section \<open>ServeContent\<close>

definition serveError :: "headers \<Rightarrow> string \<Rightarrow> nat \<Rightarrow> http_response" where
  "serveError w text code =
     http_error (foldl header_del w [''Cache-Control'', ''Content-Encoding'', ''Etag'', ''Last-Modified'']) code text"

text \<open>The content type: from the header, from the extension of the name, or from the first 512 bytes.\<close>

definition with_type ::
  "std \<Rightarrow> headers \<Rightarrow> string \<Rightarrow> int \<Rightarrow> (headers \<Rightarrow> string \<Rightarrow> serve_io) \<Rightarrow> serve_io" where
  "with_type g w name len k =
     (case map_of w ''Content-Type'' of
        Some ctype \<Rightarrow> k w ctype
      | None \<Rightarrow>
          (let typed = (\<lambda>ctype. k (header_set w ''Content-Type'' ctype) ctype)
           in if std_mime g (path_ext name) \<noteq> [] then typed (std_mime g (path_ext name))
              else if len \<le> 0 then typed (std_sniff g [])
              else ReadPiece 0 (min 512 len) (\<lambda>res. typed (std_sniff g (take (nat (min 512 len)) (fst res))))))"

text \<open>What is sent: everything, one range, or several as parts; with the headers that say so.\<close>

definition copy_headers :: "std \<Rightarrow> headers \<Rightarrow> string \<Rightarrow> int \<Rightarrow> byte_range list \<Rightarrow> headers" where
  "copy_headers g w ctype len ras =
     (let w = (case ras of
                 [] \<Rightarrow> w
               | [ra] \<Rightarrow> header_set w ''Content-Range'' (content_range ra len)
               | _ \<Rightarrow> header_set w ''Content-Type'' (''multipart/byteranges; boundary='' @ std_boundary g));
          sendSize = (case ras of [] \<Rightarrow> len | [ra] \<Rightarrow> snd ra | _ \<Rightarrow> mime_size g ctype len True ras);
          w = header_set w ''Accept-Ranges'' ''bytes''
      in if ras \<noteq> [] \<or> header_get w ''Content-Encoding'' = []
         then header_set w ''Content-Length'' (format_int sendSize) else w)"

definition copy_content ::
  "std \<Rightarrow> request \<Rightarrow> headers \<Rightarrow> string \<Rightarrow> int \<Rightarrow> byte_range list \<Rightarrow> serve_io" where
  "copy_content g r w ctype len ras =
     (let answer = (\<lambda>b. Served (respond_with (copy_headers g w ctype len ras)
            (if ras = [] then StatusOK else StatusPartialContent) b))
      in if rq_method r = ''HEAD'' then answer []
         else (case ras of
             [] \<Rightarrow> send g 0 len [] (\<lambda>b _. answer b)
           | [ra] \<Rightarrow> send g (fst ra) (snd ra) [] (\<lambda>b _. answer b)
           | _ \<Rightarrow> send_parts g ctype len True ras [] answer))"

text \<open>The rest, once the content type is known: the size and the ranges.\<close>

definition serve_ranges :: "std \<Rightarrow> request \<Rightarrow> string \<Rightarrow> int \<Rightarrow> headers \<Rightarrow> string \<Rightarrow> serve_io" where
  "serve_ranges g r rng len w ctype =
     (if len < 0
      then Served (serveError w (''seeker can'' @ [CHR 39] @ ''t seek'') StatusInternalServerError)
      else (case parseRange rng len of
          Inl e \<Rightarrow>
            if e = errNoOverlap \<and> len = 0 then copy_content g r w ctype len []
            else Served (serveError
              (if e = errNoOverlap then header_set w ''Content-Range'' (''bytes */'' @ format_int len) else w)
              (range_text e) StatusRequestedRangeNotSatisfiable)
        | Inr ras \<Rightarrow> copy_content g r w ctype len (if sum_list (map snd ras) > len then [] else ras)))"

definition serveContent :: "std \<Rightarrow> request \<Rightarrow> headers \<Rightarrow> string \<Rightarrow> int \<Rightarrow> int \<Rightarrow> serve_io" where
  "serveContent g r w name t len =
     (let w = (if isZeroTime t then w else header_set w ''Last-Modified'' (http_time t))
      in case checkPreconditions g w r t of
           Inl resp \<Rightarrow> Served resp
         | Inr rng \<Rightarrow> with_type g w name len (serve_ranges g r rng len))"

section \<open>The statuses it answers with\<close>

primrec replies :: "(http_response \<Rightarrow> bool) \<Rightarrow> serve_io \<Rightarrow> bool" where
  "replies P (Served resp) \<longleftrightarrow> P resp"
| "replies P (ReadPiece off n k) \<longleftrightarrow> (\<forall>res. replies P (k res))"

lemma replies_send: "(\<And>b ok. replies P (k b ok)) \<Longrightarrow> replies P (send g off rem out k)"
proof (induction g off rem out k rule: send.induct)
  case (1 g off rem out k)
  show ?case by (subst send.simps) (use 1 in \<open>auto simp: Let_def\<close>)
qed

lemma replies_parts: "(\<And>b. replies P (k b)) \<Longrightarrow> replies P (send_parts g ctype len first ras out k)"
  by (induction ras arbitrary: first out) (auto intro: replies_send)

lemma replies_serveContent:
  assumes "\<And>w c b. c \<in> {StatusOK, StatusPartialContent, StatusNotModified, StatusPreconditionFailed} \<Longrightarrow> P (respond_with w c b)"
    and "\<And>w c m. c \<in> {StatusRequestedRangeNotSatisfiable, StatusInternalServerError} \<Longrightarrow> P (http_error w c m)"
  shows "replies P (serveContent g r w name t len)"
proof -
  have "replies P (copy_content g r w ctype len ras)" for w ctype ras
    using assms(1) by (auto simp: copy_content_def Let_def intro!: replies_send replies_parts split: list.split)
  then have "replies P (serve_ranges g r rng len w ctype)" for rng w ctype
    using assms(2) by (auto simp: serve_ranges_def serveError_def split: sum.split)
  then have "replies P (with_type g w name len (serve_ranges g r rng len))" for rng w
    by (auto simp: with_type_def Let_def split: option.split)
  moreover have "checkPreconditions g w r t = Inl resp \<Longrightarrow> P resp" for w resp
    using assms(1) by (auto simp: checkPreconditions_def writeNotModified_def Let_def split: if_splits)
  ultimately show ?thesis by (auto simp: serveContent_def Let_def split: sum.split)
qed

end
