(* ===== verification/Get.thy ===== *)
theory Get
  imports LockCalls Tree ServeContent
begin

text \<open>
  \<open>GET\<close> and \<open>HEAD\<close> (\<open>get.go\<close>): the content of a file through \<open>http.ServeContent\<close>, with one
  critical section per read, and the HTML index of a collection.
\<close>

section \<open>Escaping HTML\<close>

definition html_special :: "char \<Rightarrow> bool" where
  "html_special c \<longleftrightarrow> c = CHR ''<'' \<or> c = CHR ''>'' \<or> c = CHR ''&'' \<or> c = CHR 34 \<or> c = CHR 39"

definition html_entity :: "char \<Rightarrow> string" where
  "html_entity c =
     (if c = CHR ''<'' then ''&lt;'' else if c = CHR ''>'' then ''&gt;''
      else if c = CHR ''&'' then ''&amp;'' else if c = CHR 34 then ''&#34;'' else ''&#39;'')"

text \<open>The loop of \<open>writeHTML\<close>: up to the next special byte, its entity, and on.\<close>

function writeHTML :: "string \<Rightarrow> string" where
  "writeHTML s =
     (case dropWhile (\<lambda>c. \<not> html_special c) s of
        [] \<Rightarrow> s
      | c # t \<Rightarrow> takeWhile (\<lambda>c. \<not> html_special c) s @ html_entity c @ writeHTML t)"
  by pat_completeness auto
termination
proof (relation "measure length", goal_cases)
  case (2 s c t)
  then have "length (c # t) \<le> length s" by (metis length_dropWhile_le)
  then show ?case by simp
qed simp

declare writeHTML.simps [simp del]

lemma writeHTML_eq: "writeHTML s = concat (map (\<lambda>c. if html_special c then html_entity c else [c]) s)"
proof (induction s rule: writeHTML.induct)
  case (1 s)
  let ?esc = "\<lambda>c. if html_special c then html_entity c else [c]"
  have plain: "concat (map ?esc u) = u" if "\<forall>c \<in> set u. \<not> html_special c" for u
    using that by (induction u) auto
  show ?case
  proof (cases "dropWhile (\<lambda>c. \<not> html_special c) s")
    case Nil
    then have "\<forall>c \<in> set s. \<not> html_special c" by (simp add: dropWhile_eq_Nil_conv)
    moreover have "writeHTML s = s" by (subst writeHTML.simps) (simp add: Nil)
    ultimately show ?thesis by (simp add: plain)
  next
    case (Cons c t)
    define u where "u = takeWhile (\<lambda>c. \<not> html_special c) s"
    have s: "s = u @ c # t" using Cons by (metis takeWhile_dropWhile_id u_def)
    have c: "html_special c" using Cons by (metis hd_dropWhile list.distinct(1) list.sel(1))
    have u: "\<forall>c \<in> set u. \<not> html_special c" by (auto simp: u_def dest: set_takeWhileD)
    have "writeHTML s = u @ html_entity c @ writeHTML t"
      by (subst writeHTML.simps) (simp add: Cons u_def)
    moreover have "concat (map ?esc s) = u @ html_entity c @ concat (map ?esc t)"
      by (simp add: s plain [OF u] c)
    ultimately show ?thesis using 1 [OF Cons] by simp
  qed
qed

section \<open>The index of a collection\<close>

definition index_row :: "('s, 'f) handler \<Rightarrow> path \<Rightarrow> string \<Rightarrow> go_error + resourceInfo \<Rightarrow> bytes" where
  \<open>index_row h child n ri =
     (let isDir = (case ri of Inl _ \<Rightarrow> False | Inr i \<Rightarrow> ri_isDir i)
      in ''<li><a href="'' @ writeHTML (hrefOf h child isDir) @ ''">'' @ writeHTML n @
         (if isDir then ''/'' else []) @ ''</a>'' @
         (case ri of
            Inl _ \<Rightarrow> []
          | Inr i \<Rightarrow> if isDir then [] else '' <small>'' @ format_nat (unat (ri_size i)) @ '' bytes</small>'') @
         ''</li>'' @ [CHR 0x0A])\<close>

primrec index_rows :: "('s, 'f) handler \<Rightarrow> path \<Rightarrow> string list \<Rightarrow> ('s, bytes) state" where
  "index_rows h name [] = State_Monad.return []"
| "index_rows h name (n # ns) =
     (if n = ''.'' \<or> n = ''..'' then index_rows h name ns
      else do {
        ri \<leftarrow> info h (join name n);
        rest \<leftarrow> index_rows h name ns;
        State_Monad.return (index_row h (join name n) n ri @ rest)
      })"

definition index_page :: "('s, 'f) handler \<Rightarrow> path \<Rightarrow> bytes \<Rightarrow> bytes" where
  \<open>index_page h name rows =
     ''<!doctype html>'' @ [CHR 0x0A] @ ''<meta charset="utf-8">'' @ [CHR 0x0A] @ ''<title>'' @
     writeHTML name @ ''</title>'' @ [CHR 0x0A] @ ''<h1>'' @ writeHTML name @ ''</h1>'' @ [CHR 0x0A] @
     ''<ul>'' @ [CHR 0x0A] @
     (if name \<noteq> ''/''
      then ''<li><a href="'' @ writeHTML (hrefOf h (parentOf name) True) @ ''">../</a></li>'' @ [CHR 0x0A]
      else []) @
     rows @ ''</ul>'' @ [CHR 0x0A]\<close>

definition serveIndex :: "('s, 'f) handler \<Rightarrow> headers \<Rightarrow> request \<Rightarrow> path \<Rightarrow> 's proc" where
  "serveIndex h w r name = fs_call (drv_ListDir (h_fs h) name) (\<lambda>entries. case entries of
       Inl err \<Rightarrow> Unlock (Done (http_error w (statusFor err StatusInternalServerError)
         (''webdav: '' @ err_text err)))
     | Inr names \<Rightarrow> fs_call (index_rows h name names) (\<lambda>rows.
         (let page = index_page h name rows;
              w' = header_set (header_set w ''Content-Type'' ''text/html; charset=utf-8'')
                ''Content-Length'' (format_nat (length page))
          in Unlock (Done (respond_with w' StatusOK (if rq_method r = ''HEAD'' then [] else page))))))"

section \<open>The content of a file\<close>

datatype 'f content = InMemory bytes | HostContent 'f | Section 'f int

text \<open>\<open>open\<close>: the view of a file's bytes that is served.\<close>

definition open_content :: "('s, 'f) handler \<Rightarrow> resourceInfo \<Rightarrow> ('s, go_error + 'f content) state" where
  "open_content h i =
     (case drv_OpenFile (h_fs h) of
        Some opn \<Rightarrow> do {
          f \<leftarrow> opn (ri_path i);
          case f of
            Inl err \<Rightarrow> State_Monad.return (Inl err)
          | Inr None \<Rightarrow> State_Monad.return (Inl errNilFile)
          | Inr (Some f) \<Rightarrow>
              if file_is_host (drv_file (h_fs h)) f then State_Monad.return (Inr (HostContent f))
              else do {
                len \<leftarrow> file_Size (drv_file (h_fs h)) f;
                State_Monad.return (Inr (Section f len))
              }
        }
      | None \<Rightarrow> do {
          data \<leftarrow> drv_ReadFile (h_fs h) (ri_path i);
          State_Monad.return (case data of Inl err \<Rightarrow> Inl err | Inr d \<Rightarrow> Inr (InMemory d))
        })"

definition errEOF :: go_error where "errEOF = plain_error ''EOF''"

text \<open>
  The reads \<open>ServeContent\<close> asks for: \<open>lockedReaderAt.ReadAt\<close> under the driver lock, a host file's
  without it, and those of a reader over bytes in memory.
\<close>

definition locked_read ::
  "('s, 'f) handler \<Rightarrow> 'f \<Rightarrow> int \<Rightarrow> int \<Rightarrow> (bytes \<times> go_error option \<Rightarrow> 's proc) \<Rightarrow> 's proc" where
  "locked_read h f off n k = Lock (fs_call (file_ReadAt (drv_file (h_fs h)) f n off) (\<lambda>res. Unlock (k res)))"

definition host_read ::
  "('s, 'f) handler \<Rightarrow> 'f \<Rightarrow> int \<Rightarrow> int \<Rightarrow> (bytes \<times> go_error option \<Rightarrow> 's proc) \<Rightarrow> 's proc" where
  "host_read h f off n k = cap_call (file_ReadAt (drv_file (h_fs h)) f n off) k"

definition memory_read :: "bytes \<Rightarrow> int \<Rightarrow> int \<Rightarrow> (bytes \<times> go_error option \<Rightarrow> 's proc) \<Rightarrow> 's proc" where
  "memory_read d off n k =
     k (if off \<ge> int (length d) then ([], Some errEOF) else (take (nat n) (drop (nat off) d), None))"

primrec serve_reads ::
  "(int \<Rightarrow> int \<Rightarrow> (bytes \<times> go_error option \<Rightarrow> 's proc) \<Rightarrow> 's proc) \<Rightarrow> (http_response \<Rightarrow> 's proc) \<Rightarrow>
   serve_io \<Rightarrow> 's proc" where
  "serve_reads rd fin (Served resp) = fin resp"
| "serve_reads rd fin (ReadPiece off n k) = rd off n (\<lambda>res. serve_reads rd fin (k res))"

text \<open>The deferred \<open>closer\<close>: a driver's file is closed when the response is out, without \<open>fsmu\<close>.\<close>

definition close_after :: "('s, 'f) handler \<Rightarrow> 'f \<Rightarrow> http_response \<Rightarrow> 's proc" where
  "close_after h f resp = fs_call (file_Close (drv_file (h_fs h)) f) (\<lambda>_. Done resp)"

definition serve_content ::
  "('s, 'f) handler \<Rightarrow> headers \<Rightarrow> request \<Rightarrow> resourceInfo \<Rightarrow> 'f content \<Rightarrow> 's proc" where
  "serve_content h w r i c =
     (let io = serveContent (h_std h) r
            (header_set (header_set w ''Etag'' (ri_etag i)) ''Accept-Ranges'' ''bytes'')
            (ri_name i) (ri_modTime i)
      in case c of
           InMemory d \<Rightarrow> serve_reads (memory_read d) Done (io (int (length d)))
         | Section f len \<Rightarrow> serve_reads (locked_read h f) (close_after h f) (io len)
         | HostContent f \<Rightarrow> cap_call (file_Size (drv_file (h_fs h)) f) (\<lambda>len.
             serve_reads (host_read h f) (close_after h f) (io len)))"

definition serveGet :: "('s, 'f) handler \<Rightarrow> headers \<Rightarrow> request \<Rightarrow> path \<Rightarrow> 's proc" where
  "serveGet h w r name = Lock (fs_call (info h name) (\<lambda>ri. case ri of
       Inl err \<Rightarrow> Unlock (Done (http_error w (statusFor err StatusInternalServerError)
         (''webdav: '' @ err_text err)))
     | Inr i \<Rightarrow>
         if ri_isDir i then serveIndex h w r name
         else fs_call (open_content h i) (\<lambda>c. Unlock (case c of
             Inl err \<Rightarrow> Done (http_error w (statusFor err StatusInternalServerError)
               (''webdav: '' @ err_text err))
           | Inr c \<Rightarrow> serve_content h w r i c))))"

lemmas [handler_defs] = serveGet_def serve_content_def serveIndex_def close_after_def

end
