(* ===== verification/Credentials.thy ===== *)
theory Credentials
  imports GoUrl Http
begin

text \<open>
  What authentication reads off a request through the standard library: \<open>Request.BasicAuth\<close> with
  \<open>base64.StdEncoding\<close>, and \<open>net.SplitHostPort\<close>, \<open>net.ParseIP\<close> and \<open>IP.IsLoopback\<close> on the
  address of the peer.
\<close>

section \<open>Base64\<close>

definition base64_alphabet :: string where
  "base64_alphabet = ''ABCDEFGHIJKLMNOPQRSTUVWXYZabcdefghijklmnopqrstuvwxyz0123456789+/''"

definition base64_char :: "nat \<Rightarrow> char" where
  "base64_char n = base64_alphabet ! n"

definition base64_val :: "char \<Rightarrow> nat option" where
  "base64_val c =
     (let n = (of_char c :: nat)
      in if is_upper c then Some (n - 65)
         else if is_lower c then Some (n - 71)
         else if is_digit c then Some (n + 4)
         else if c = CHR ''+'' then Some 62
         else if c = CHR ''/'' then Some 63 else None)"

text \<open>
  Groups of four characters, the last one padded with \<open>=\<close>; the bits that padding leaves over are
  not looked at (the encoding is not strict).
\<close>

fun base64_groups :: "string \<Rightarrow> bytes option" where
  "base64_groups [] = Some []"
| "base64_groups (a # b # c # d # s) =
     (if c = CHR ''='' \<and> d = CHR ''='' \<and> s = [] then
        (case (base64_val a, base64_val b) of
           (Some v, Some w) \<Rightarrow> Some [char_of (v * 4 + w div 16)]
         | _ \<Rightarrow> None)
      else if d = CHR ''='' \<and> s = [] then
        (case (base64_val a, base64_val b, base64_val c) of
           (Some v, Some w, Some x) \<Rightarrow> Some [char_of (v * 4 + w div 16), char_of (w mod 16 * 16 + x div 4)]
         | _ \<Rightarrow> None)
      else
        (case (base64_val a, base64_val b, base64_val c, base64_val d, base64_groups s) of
           (Some v, Some w, Some x, Some y, Some t) \<Rightarrow>
             Some (char_of (v * 4 + w div 16) # char_of (w mod 16 * 16 + x div 4) # char_of (x mod 4 * 64 + y) # t)
         | _ \<Rightarrow> None))"
| "base64_groups _ = None"

text \<open>\<open>DecodeString\<close> skips line breaks anywhere.\<close>

definition base64_decode :: "string \<Rightarrow> bytes option" where
  "base64_decode s = base64_groups (filter (\<lambda>c. c \<noteq> CHR 10 \<and> c \<noteq> CHR 13) s)"

text \<open>What a client encodes.\<close>

fun base64_encode :: "bytes \<Rightarrow> string" where
  "base64_encode [] = []"
| "base64_encode [a] =
     (let n = of_char a in [base64_char (n div 4), base64_char (n mod 4 * 16), CHR ''='', CHR ''=''])"
| "base64_encode [a, b] =
     (let n = of_char a; m = of_char b
      in [base64_char (n div 4), base64_char (n mod 4 * 16 + m div 16), base64_char (m mod 16 * 4), CHR ''=''])"
| "base64_encode (a # b # c # s) =
     (let n = of_char a; m = of_char b; k = of_char c
      in base64_char (n div 4) # base64_char (n mod 4 * 16 + m div 16) #
         base64_char (m mod 16 * 4 + k div 64) # base64_char (k mod 64) # base64_encode s)"

lemma base64_alphabet_vals: "map base64_val base64_alphabet = map Some [0..<64]"
  by code_simp

lemma base64_alphabet_plain:
  "length base64_alphabet = 64" "CHR ''='' \<notin> set base64_alphabet" "CHR 10 \<notin> set base64_alphabet"
  "CHR 13 \<notin> set base64_alphabet"
  by code_simp+

lemma base64_val_char [simp]: "n < 64 \<Longrightarrow> base64_val (base64_char n) = Some n"
  using arg_cong [OF base64_alphabet_vals, of "\<lambda>l. l ! n"]
  by (simp add: base64_char_def base64_alphabet_plain)

lemma base64_char_plain:
  assumes "n < 64"
  shows "base64_char n \<noteq> CHR ''=''" "base64_char n \<noteq> CHR 10" "base64_char n \<noteq> CHR 13"
proof -
  have m: "base64_char n \<in> set base64_alphabet"
    using assms by (simp add: base64_char_def base64_alphabet_plain(1))
  show "base64_char n \<noteq> CHR ''=''" using m base64_alphabet_plain(2) by metis
  show "base64_char n \<noteq> CHR 10" using m base64_alphabet_plain(3) by metis
  show "base64_char n \<noteq> CHR 13" using m base64_alphabet_plain(4) by metis
qed

lemma six_bits:
  fixes n m k :: nat
  assumes "n < 256" and "m < 256"
  shows "n div 4 < 64" "n mod 4 * 16 + m div 16 < 64" "n mod 16 * 4 + m div 64 < 64"
    and "n mod 64 < 64" "n mod 4 * 16 < 64" "n mod 16 * 4 < 64"
proof -
  have "n mod 4 < 4" "n mod 16 < 16" "m div 16 < 16" "m div 64 < 4" "n div 4 < 64" using assms by simp_all
  then show "n div 4 < 64" "n mod 4 * 16 + m div 16 < 64" "n mod 16 * 4 + m div 64 < 64"
    "n mod 64 < 64" "n mod 4 * 16 < 64" "n mod 16 * 4 < 64" by simp_all
qed

lemma regroup:
  fixes x y :: nat
  shows "y < 16 \<Longrightarrow> (x * 16 + y) div 16 = x" "y < 16 \<Longrightarrow> (x * 16 + y) mod 16 = y"
    and "y < 4 \<Longrightarrow> (x * 4 + y) div 4 = x" "y < 4 \<Longrightarrow> (x * 4 + y) mod 4 = y"
  by simp_all

lemma eight_bits:
  fixes n m k :: nat
  assumes "m < 256" and "k < 256"
  shows "n div 4 * 4 + (n mod 4 * 16 + m div 16) div 16 = n"
    and "(n mod 4 * 16 + m div 16) mod 16 * 16 + (m mod 16 * 4 + k div 64) div 4 = m"
    and "(m mod 16 * 4 + k div 64) mod 4 * 64 + k mod 64 = k"
    and "n div 4 * 4 + n mod 4 * 16 div 16 = n"
    and "(n mod 4 * 16 + m div 16) mod 16 * 16 + m mod 16 * 4 div 4 = m"
proof -
  have "m div 16 < 16" "k div 64 < 4" using assms by simp_all
  then show "n div 4 * 4 + (n mod 4 * 16 + m div 16) div 16 = n"
    "(n mod 4 * 16 + m div 16) mod 16 * 16 + (m mod 16 * 4 + k div 64) div 4 = m"
    "(m mod 16 * 4 + k div 64) mod 4 * 64 + k mod 64 = k"
    "n div 4 * 4 + n mod 4 * 16 div 16 = n"
    "(n mod 4 * 16 + m div 16) mod 16 * 16 + m mod 16 * 4 div 4 = m"
    by (simp_all only: regroup div_mult_mod_eq nonzero_mult_div_cancel_right)
qed

lemmas bits = six_bits [OF of_char_less_256 of_char_less_256] eight_bits [OF of_char_less_256 of_char_less_256]

text \<open>Encoding is inverted by the decoder.\<close>

lemma base64_groups_step:
  assumes "base64_val a = Some v" "base64_val b = Some w" "base64_val c = Some x" "base64_val d = Some y"
    and "d \<noteq> CHR ''=''" and "base64_groups s = Some t"
  shows "base64_groups (a # b # c # d # s) =
    Some (char_of (v * 4 + w div 16) # char_of (w mod 16 * 16 + x div 4) # char_of (x mod 4 * 64 + y) # t)"
  using assms by simp

lemma base64_groups_encode: "base64_groups (base64_encode s) = Some s"
proof (induction s rule: base64_encode.induct)
  case (2 a)
  have "base64_groups (base64_encode [a]) = Some [char_of ((of_char a :: nat) div 4 * 4 + of_char a mod 4 * 16 div 16)]"
    by (simp add: Let_def bits)
  then show ?case by (simp only: bits char_of_char)
next
  case (3 a b)
  have "base64_groups (base64_encode [a, b]) =
      Some [char_of ((of_char a :: nat) div 4 * 4 + (of_char a mod 4 * 16 + of_char b div 16) div 16),
        char_of (((of_char a :: nat) mod 4 * 16 + of_char b div 16) mod 16 * 16 + of_char b mod 16 * 4 div 4)]"
    using bits by (simp add: Let_def base64_char_plain)
  then show ?case by (simp only: bits char_of_char)
next
  case (4 a b c s)
  have "base64_groups (base64_encode (a # b # c # s)) =
      Some (char_of ((of_char a :: nat) div 4 * 4 + (of_char a mod 4 * 16 + of_char b div 16) div 16) #
        char_of (((of_char a :: nat) mod 4 * 16 + of_char b div 16) mod 16 * 16 + (of_char b mod 16 * 4 + of_char c div 64) div 4) #
        char_of (((of_char b :: nat) mod 16 * 4 + of_char c div 64) mod 4 * 64 + of_char c mod 64) # s)"
    unfolding base64_encode.simps Let_def
    by (rule base64_groups_step) (simp_all only: base64_val_char base64_char_plain bits 4 not_False_eq_True)
  then show ?case by (simp only: bits char_of_char)
qed simp

lemma base64_encode_plain: "filter (\<lambda>c. c \<noteq> CHR 10 \<and> c \<noteq> CHR 13) (base64_encode s) = base64_encode s"
  by (induction s rule: base64_encode.induct) (simp_all add: Let_def bits base64_char_plain)

section \<open>Basic credentials\<close>

definition ascii_lower :: "char \<Rightarrow> char" where
  "ascii_lower c = (if is_upper c then lower_char c else c)"

text \<open>\<open>BasicAuth\<close> folds the case of ASCII letters only.\<close>

definition basicAuth :: "request \<Rightarrow> (string \<times> string) option" where
  "basicAuth r =
     (let auth = rq_header r ''Authorization''
      in if length auth < length ''Basic '' \<or>
           map ascii_lower (take (length ''Basic '') auth) \<noteq> map ascii_lower ''Basic '' then None
         else (case base64_decode (drop (length ''Basic '') auth) of
             None \<Rightarrow> None
           | Some b \<Rightarrow> cut b CHR '':''))"

section \<open>The address of the peer\<close>

text \<open>\<open>net.SplitHostPort\<close>: the host, when there is one with a port.\<close>

definition splitHost :: "string \<Rightarrow> string option" where
  "splitHost hp =
     (case last_index_byte hp CHR '':'' of
        None \<Rightarrow> None
      | Some i \<Rightarrow>
          if hp ! 0 = CHR ''['' then
            (case index_byte hp CHR '']'' of
               None \<Rightarrow> None
             | Some e \<Rightarrow>
                 if Suc e \<noteq> i then None
                 else if CHR ''['' \<in> set (drop 1 hp) \<or> CHR '']'' \<in> set (drop (Suc e) hp) then None
                 else Some (drop 1 (take e hp)))
          else if CHR '':'' \<in> set (take i hp) \<or> CHR ''['' \<in> set hp \<or> CHR '']'' \<in> set hp then None
          else Some (take i hp))"

text \<open>An octet of a dotted address: no leading zero, at most 255.\<close>

definition octet :: "string \<Rightarrow> nat option" where
  "octet s =
     (if s = [] \<or> (length s > 1 \<and> s ! 0 = CHR ''0'') then None
      else (case digits_val s of None \<Rightarrow> None | Some n \<Rightarrow> if n > 255 then None else Some n))"

definition dotted :: "string \<Rightarrow> nat list option" where
  "dotted s =
     (case split_on CHR ''.'' s of
        [a, b, c, d] \<Rightarrow>
          (case (octet a, octet b, octet c, octet d) of
             (Some i, Some j, Some k, Some l) \<Rightarrow> Some [i, j, k, l]
           | _ \<Rightarrow> None)
      | _ \<Rightarrow> None)"

definition is_hex :: "char \<Rightarrow> bool" where "is_hex c \<longleftrightarrow> hex_val c \<noteq> None"

definition hex_number :: "string \<Rightarrow> nat" where
  "hex_number s = foldl (\<lambda>n c. n * 16 + the (hex_val c)) 0 s"

text \<open>
  The groups of an IPv6 address: the bytes so far, where the ellipsis was, and what is left when
  the loop ends.
\<close>

function ipv6_groups :: "string \<Rightarrow> nat list \<Rightarrow> nat option \<Rightarrow> (string \<times> nat list \<times> nat option) option" where
  "ipv6_groups s bs ell =
     (if 16 \<le> length bs then Some (s, bs, ell)
      else
        (let g = takeWhile is_hex s; t = dropWhile is_hex s; n = hex_number g;
             cs = bs @ [n div 256, n mod 256]
         in if g = [] \<or> 4 < length g then None
            else if t \<noteq> [] \<and> t ! 0 = CHR ''.'' then
              (if (ell = None \<and> length bs \<noteq> 12) \<or> 16 < length bs + 4 then None
               else map_option (\<lambda>v4. ([], bs @ v4, ell)) (dotted s))
            else if t = [] then Some ([], cs, ell)
            else if t ! 0 \<noteq> CHR '':'' \<or> length t = 1 then None
            else if t ! 1 \<noteq> CHR '':'' then ipv6_groups (drop 1 t) cs ell
            else if ell \<noteq> None then None
            else if length t = 2 then Some ([], cs, Some (length cs))
            else ipv6_groups (drop 2 t) cs (Some (length cs))))"
  by pat_completeness auto
termination
  by (relation "measure (\<lambda>(s, bs, ell). 16 - length bs)") auto

declare ipv6_groups.simps [simp del]

text \<open>An address with a zone is not an IP for \<open>ParseIP\<close>.\<close>

definition parseIPv6 :: "string \<Rightarrow> nat list option" where
  "parseIPv6 s =
     (if CHR ''%'' \<in> set s then None
      else if s = ''::'' then Some (replicate 16 0)
      else
        (case (if take 2 s = ''::'' then ipv6_groups (drop 2 s) [] (Some 0) else ipv6_groups s [] None) of
           None \<Rightarrow> None
         | Some (rest, bs, ell) \<Rightarrow>
             if rest \<noteq> [] then None
             else (case ell of
                 None \<Rightarrow> if length bs < 16 then None else Some bs
               | Some e \<Rightarrow>
                   if length bs < 16 then Some (take e bs @ replicate (16 - length bs) 0 @ drop e bs) else None)))"

definition v4_prefix :: "nat list" where "v4_prefix = replicate 10 0 @ [255, 255]"

text \<open>\<open>net.ParseIP\<close>: sixteen bytes, an IPv4 address in its mapped form.\<close>

definition parseIP :: "string \<Rightarrow> nat list option" where
  "parseIP s =
     (case filter (\<lambda>c. c \<in> {CHR ''.'', CHR '':'', CHR ''%''}) s of
        [] \<Rightarrow> None
      | c # _ \<Rightarrow>
          if c = CHR ''.'' then map_option ((@) v4_prefix) (dotted s)
          else if c = CHR '':'' then parseIPv6 s else None)"

definition isLoopback :: "nat list \<Rightarrow> bool" where
  "isLoopback ip \<longleftrightarrow>
     (if take 12 ip = v4_prefix then ip ! 12 = 127 else ip = replicate 15 0 @ [1])"

definition from_loopback :: "string \<Rightarrow> bool" where
  "from_loopback remote \<longleftrightarrow>
     (case splitHost remote of
        None \<Rightarrow> False
      | Some host \<Rightarrow> (case parseIP host of None \<Rightarrow> False | Some ip \<Rightarrow> isLoopback ip))"

section \<open>Addresses in dotted form\<close>

definition show_dotted :: "nat \<Rightarrow> nat \<Rightarrow> nat \<Rightarrow> nat \<Rightarrow> string" where
  "show_dotted a b c d = join_with CHR ''.'' (map format_nat [a, b, c, d])"

lemma format_nat_first: "format_nat n ! 0 = CHR ''0'' \<Longrightarrow> format_nat n = ''0''"
proof (induction n rule: format_nat.induct)
  case (1 n)
  show ?case
  proof (cases "n < 10")
    case True
    then show ?thesis using 1(2) by (simp add: format_nat.simps [of n])
  next
    case False
    have ne: "format_nat (n div 10) \<noteq> []" using format_nat_digits by blast
    then have "format_nat (n div 10) = ''0''"
      using 1 False by (simp add: format_nat.simps [of n] nth_append)
    then have "n div 10 = 0"
      using digits_val_format_nat [of "n div 10"] by (simp add: digits_val_def is_digit_def digit_val_def)
    then show ?thesis using False by simp
  qed
qed

lemma octet_format_nat: "n < 256 \<Longrightarrow> octet (format_nat n) = Some n"
  using format_nat_digits [of n] format_nat_first [of n] by (auto simp: octet_def)

lemma format_nat_plain: "is_digit c \<or> c \<notin> set (format_nat n)"
  using format_nat_digits [of n] by blast

lemma dotted_show:
  assumes "a < 256" "b < 256" "c < 256" "d < 256"
  shows "dotted (show_dotted a b c d) = Some [a, b, c, d]"
proof -
  have "CHR ''.'' \<notin> set (format_nat n)" for n using format_nat_plain [of "CHR ''.''" n] by (simp add: is_digit_def)
  then have "split_on CHR ''.'' (show_dotted a b c d) = map format_nat [a, b, c, d]"
    unfolding show_dotted_def by (intro split_on_join_with) auto
  then show ?thesis using assms by (simp add: dotted_def octet_format_nat)
qed

lemma show_dotted_chars: "x \<in> set (show_dotted a b c d) \<Longrightarrow> is_digit x \<or> x = CHR ''.''"
  using format_nat_plain by (auto simp: show_dotted_def)

lemma dotted_plain:
  "CHR '':'' \<notin> set (show_dotted a b c d)" "CHR ''%'' \<notin> set (show_dotted a b c d)"
  "CHR ''['' \<notin> set (show_dotted a b c d)" "CHR '']'' \<notin> set (show_dotted a b c d)"
  by (auto simp: is_digit_def dest!: show_dotted_chars)

lemma parseIP_dotted:
  assumes "a < 256" "b < 256" "c < 256" "d < 256"
  shows "parseIP (show_dotted a b c d) = Some (v4_prefix @ [a, b, c, d])"
proof -
  define seps where "seps = filter (\<lambda>c. c \<in> {CHR ''.'', CHR '':'', CHR ''%''}) (show_dotted a b c d)"
  have all: "\<forall>x \<in> set seps. x = CHR ''.''"
    using dotted_plain [of a b c d] by (auto simp: seps_def)
  have "CHR ''.'' \<in> set seps" by (simp add: seps_def show_dotted_def)
  then obtain x t where "seps = x # t" by (cases seps) auto
  then have "seps = CHR ''.'' # t" using all by simp
  then show ?thesis
    unfolding parseIP_def seps_def [symmetric] by (simp add: dotted_show [OF assms])
qed

lemma splitHost_plain:
  assumes "CHR '':'' \<notin> set host \<union> set port" and "CHR ''['' \<notin> set host \<union> set port"
    and "CHR '']'' \<notin> set host \<union> set port"
  shows "splitHost (host @ '':'' @ port) = Some host"
proof -
  have l: "last_index_byte (host @ CHR '':'' # port) CHR '':'' = Some (length host)"
    using assms(1) by (simp add: last_index_byte_append)
  have "(host @ CHR '':'' # port) ! 0 \<noteq> CHR ''[''" using assms(2) by (cases host) auto
  then show ?thesis using assms by (simp add: splitHost_def l)
qed

text \<open>The peer of a connection over IPv4 is on the loopback interface when its first octet is 127.\<close>

lemma from_loopback_dotted:
  assumes "a < 256" "b < 256" "c < 256" "d < 256" and "\<forall>x \<in> set port. is_digit x"
  shows "from_loopback (show_dotted a b c d @ '':'' @ port) \<longleftrightarrow> a = 127"
proof -
  have "splitHost (show_dotted a b c d @ '':'' @ port) = Some (show_dotted a b c d)"
    by (rule splitHost_plain) (use assms(5) dotted_plain [of a b c d] in \<open>auto simp: is_digit_def\<close>)
  then show ?thesis
    by (simp add: from_loopback_def parseIP_dotted [OF assms(1-4)] isLoopback_def v4_prefix_def nth_append)
qed

text \<open>Basic credentials are read as they were sent.\<close>

lemma basicAuth_encode:
  assumes "rq_header r ''Authorization'' = scheme @ enc" and "map ascii_lower scheme = ''basic ''"
    and "filter (\<lambda>c. c \<noteq> CHR 10 \<and> c \<noteq> CHR 13) enc = base64_encode (user @ '':'' @ pass)"
    and "CHR '':'' \<notin> set user"
  shows "basicAuth r = Some (user, pass)"
proof -
  have n: "length scheme = 6" using arg_cong [OF assms(2), of length] by simp
  moreover have "map ascii_lower ''Basic '' = ''basic ''" by code_simp
  ultimately show ?thesis
    using assms(2-4) by (simp add: basicAuth_def assms(1) base64_decode_def base64_groups_encode cut_append)
qed

end
