(* ===== verification/Server.thy ===== *)
theory Server
  imports WriteOps Propfind Get Credentials
begin

text \<open>
  \<open>server.go\<close>: the construction of a handler from its options, authentication, and the dispatch
  of a request to its method.
\<close>

section \<open>Construction\<close>

datatype new_error = ErrNilFilesystem | ErrPrefix | ErrNilVerifier | ErrRandom go_error

definition defaultMaxBody :: int where "defaultMaxBody = 2 ^ 30"

datatype 's handler_option =
    ReadWrite
  | WithPrefix string
  | WithCapacity "64 word" "64 word"
  | WithCapacityFunc "('s, 64 word \<times> 64 word) state option"
  | WithMaxBody int
  | WithBasicAuth string "(string \<Rightarrow> string \<Rightarrow> bool) option"
  | WithBearerAuth string "(string \<Rightarrow> bool) option"
  | AllowInsecureAuth

text \<open>Each option is a function that sets its fields of the handler, or refuses.\<close>

definition ReadWrite_option :: "('s, 'f) handler \<Rightarrow> new_error + ('s, 'f) handler" where
  "ReadWrite_option h = Inr (h\<lparr>h_ro := False\<rparr>)"

definition WithPrefix_option :: "string \<Rightarrow> ('s, 'f) handler \<Rightarrow> new_error + ('s, 'f) handler" where
  "WithPrefix_option pfx h =
     (if pfx = [] then Inr h
      else if \<not> has_prefix pfx ''/'' \<or> has_suffix pfx ''/'' \<or> pfx \<noteq> cleanPath pfx then Inl ErrPrefix
      else Inr (h\<lparr>h_prefix := pfx\<rparr>))"

definition WithCapacity_option ::
  "64 word \<Rightarrow> 64 word \<Rightarrow> ('s, 'f) handler \<Rightarrow> new_error + ('s, 'f) handler" where
  "WithCapacity_option tot avail h = Inr (h\<lparr>h_total := tot, h_avail := avail, h_capacity := None\<rparr>)"

definition WithCapacityFunc_option ::
  "('s, 64 word \<times> 64 word) state option \<Rightarrow> ('s, 'f) handler \<Rightarrow> new_error + ('s, 'f) handler" where
  "WithCapacityFunc_option f h = Inr (h\<lparr>h_capacity := f\<rparr>)"

definition WithMaxBody_option :: "int \<Rightarrow> ('s, 'f) handler \<Rightarrow> new_error + ('s, 'f) handler" where
  "WithMaxBody_option n h = Inr (h\<lparr>h_maxBody := (if n \<le> 0 then defaultMaxBody else n)\<rparr>)"

definition WithBasicAuth_option ::
  "string \<Rightarrow> (string \<Rightarrow> string \<Rightarrow> bool) option \<Rightarrow> ('s, 'f) handler \<Rightarrow> new_error + ('s, 'f) handler" where
  "WithBasicAuth_option realm verify h =
     (case verify of
        None \<Rightarrow> Inl ErrNilVerifier
      | Some v \<Rightarrow> Inr (h\<lparr>h_basic := Some v, h_realm := realm\<rparr>))"

definition WithBearerAuth_option ::
  "string \<Rightarrow> (string \<Rightarrow> bool) option \<Rightarrow> ('s, 'f) handler \<Rightarrow> new_error + ('s, 'f) handler" where
  "WithBearerAuth_option realm verify h =
     (case verify of
        None \<Rightarrow> Inl ErrNilVerifier
      | Some v \<Rightarrow> Inr (h\<lparr>h_bearer := Some v, h_realm := realm\<rparr>))"

definition AllowInsecureAuth_option :: "('s, 'f) handler \<Rightarrow> new_error + ('s, 'f) handler" where
  "AllowInsecureAuth_option h = Inr (h\<lparr>h_insecureAuth := True\<rparr>)"

fun apply_option :: "('s, 'f) handler \<Rightarrow> 's handler_option \<Rightarrow> new_error + ('s, 'f) handler" where
  "apply_option h ReadWrite = ReadWrite_option h"
| "apply_option h (WithPrefix pfx) = WithPrefix_option pfx h"
| "apply_option h (WithCapacity tot avail) = WithCapacity_option tot avail h"
| "apply_option h (WithCapacityFunc f) = WithCapacityFunc_option f h"
| "apply_option h (WithMaxBody n) = WithMaxBody_option n h"
| "apply_option h (WithBasicAuth realm verify) = WithBasicAuth_option realm verify h"
| "apply_option h (WithBearerAuth realm verify) = WithBearerAuth_option realm verify h"
| "apply_option h AllowInsecureAuth = AllowInsecureAuth_option h"

lemmas option_defs = ReadWrite_option_def WithPrefix_option_def WithCapacity_option_def
  WithCapacityFunc_option_def WithMaxBody_option_def WithBasicAuth_option_def
  WithBearerAuth_option_def AllowInsecureAuth_option_def

primrec apply_options ::
  "('s, 'f) handler \<Rightarrow> 's handler_option list \<Rightarrow> new_error + ('s, 'f) handler" where
  "apply_options h [] = Inr h"
| "apply_options h (x # xs) =
     (case apply_option h x of Inl e \<Rightarrow> Inl e | Inr h' \<Rightarrow> apply_options h' xs)"

definition base_handler :: "('s, 'f) driver \<Rightarrow> std \<Rightarrow> int \<Rightarrow> nat \<Rightarrow> ('s, 'f) handler" where
  "base_handler fs g start fuel =
     \<lparr>h_fs = fs, h_ro = True, h_prefix = [], h_basic = None, h_bearer = None, h_realm = [],
      h_insecureAuth = False, h_maxBody = defaultMaxBody, h_start = start, h_total = 0, h_avail = 0,
      h_capacity = None, h_std = g, h_fuel = fuel\<rparr>"

definition New ::
  "('s, 'f) driver option \<Rightarrow> std \<Rightarrow> int \<Rightarrow> nat \<Rightarrow> go_error + bytes \<Rightarrow> 's handler_option list \<Rightarrow>
   new_error + ('s, 'f) handler \<times> lockSystem" where
  "New fsys g start fuel rnd opts =
     (case fsys of
        None \<Rightarrow> Inl ErrNilFilesystem
      | Some fs \<Rightarrow>
     (case newLockSystem rnd of
        Inl e \<Rightarrow> Inl (ErrRandom e)
      | Inr locks \<Rightarrow>
     (case apply_options (base_handler fs g start fuel) opts of
        Inl e \<Rightarrow> Inl e
      | Inr h \<Rightarrow> Inr (h, locks))))"

section \<open>Authentication\<close>

definition confidential :: "('s, 'f) handler \<Rightarrow> request \<Rightarrow> bool" where
  "confidential h r \<longleftrightarrow> h_insecureAuth h \<or> rq_tls r \<or> from_loopback (rq_remote r)"

definition basicOK :: "('s, 'f) handler \<Rightarrow> request \<Rightarrow> bool" where
  "basicOK h r \<longleftrightarrow>
     (case h_basic h of
        None \<Rightarrow> False
      | Some verify \<Rightarrow>
          (case basicAuth r of None \<Rightarrow> False | Some (user, pass) \<Rightarrow> verify user pass))"

definition bearerOK :: "('s, 'f) handler \<Rightarrow> request \<Rightarrow> bool" where
  "bearerOK h r \<longleftrightarrow>
     (case h_bearer h of
        None \<Rightarrow> False
      | Some verify \<Rightarrow>
          (let v = rq_header r ''Authorization''
           in length ''Bearer '' < length v \<and> equal_fold (take (length ''Bearer '') v) ''Bearer '' \<and>
              verify (drop (length ''Bearer '') v)))"

definition credentialsOK :: "('s, 'f) handler \<Rightarrow> request \<Rightarrow> bool" where
  "credentialsOK h r \<longleftrightarrow> basicOK h r \<or> bearerOK h r"

text \<open>\<open>quoteHeader\<close> writes runes back: an invalid byte becomes the replacement character.\<close>

definition quote_rune :: "nat option \<times> string \<Rightarrow> string" where
  "quote_rune u =
     (case fst u of
        None \<Rightarrow> replacement
      | Some r \<Rightarrow>
          if r = 34 \<or> r = 92 then CHR 92 # snd u
          else if r < 0x20 \<or> r = 0x7F then [] else snd u)"

definition quoteHeader :: "string \<Rightarrow> string" where
  "quoteHeader s = concat (map quote_rune (runes s))"

definition challenge :: "('s, 'f) handler \<Rightarrow> headers \<Rightarrow> headers" where
  \<open>challenge h w =
     (let realm = quoteHeader (h_realm h);
          w = (if h_basic h \<noteq> None
               then header_add w ''Www-Authenticate'' (''Basic realm="'' @ realm @ ''", charset="UTF-8"'')
               else w)
      in if h_bearer h \<noteq> None
         then header_add w ''Www-Authenticate'' (''Bearer realm="'' @ realm @ ''"'') else w)\<close>

text \<open>\<open>authorise\<close>: the refusal, when the request may not proceed.\<close>

definition authorise :: "('s, 'f) handler \<Rightarrow> headers \<Rightarrow> request \<Rightarrow> http_response option" where
  "authorise h w r =
     (if h_basic h = None \<and> h_bearer h = None then None
      else if \<not> confidential h r then
        Some (http_error (header_set (header_set w ''Upgrade'' ''TLS/1.2, HTTP/1.1'') ''Connection'' ''Upgrade'')
          StatusUpgradeRequired
          ''webdav: credentials are not accepted over a cleartext connection; use HTTPS'')
      else if credentialsOK h r then None
      else Some (http_error (challenge h w) StatusUnauthorized ''webdav: unauthorized''))"

text \<open>\<open>Verify\<close>, through \<open>subtle.ConstantTimeCompare\<close>: the differences of all bytes, or-ed together.\<close>

definition byte_of :: "char \<Rightarrow> 8 word" where "byte_of c = of_nat (of_char c)"

definition Verify :: "string \<Rightarrow> string \<Rightarrow> bool" where
  "Verify got want \<longleftrightarrow> length got = length want \<and>
     foldl (\<lambda>v (x, y). v OR (byte_of x XOR byte_of y)) 0 (zip got want) = 0"

section \<open>Dispatch\<close>

definition read_methods :: string where "read_methods = ''OPTIONS, GET, HEAD, PROPFIND''"

definition allowed_methods :: "('s, 'f) handler \<Rightarrow> string" where
  "allowed_methods h =
     (if h_ro h then read_methods
      else read_methods @ '', PUT, DELETE, MKCOL, COPY, MOVE, PROPPATCH, LOCK, UNLOCK'')"

definition setDAV :: "('s, 'f) handler \<Rightarrow> headers \<Rightarrow> headers" where
  "setDAV h w = header_set (header_set w ''Dav'' (if h_ro h then ''1'' else ''1, 2'')) ''Ms-Author-Via'' ''DAV''"

definition serveOptions :: "('s, 'f) handler \<Rightarrow> headers \<Rightarrow> http_response" where
  "serveOptions h w =
     respond_with (header_set (header_set w ''Allow'' (allowed_methods h)) ''Content-Length'' ''0'') StatusOK []"

definition mutate ::
  "('s, 'f) handler \<Rightarrow> headers \<Rightarrow> request \<Rightarrow> path \<Rightarrow>
   (('s, 'f) handler \<Rightarrow> headers \<Rightarrow> request \<Rightarrow> path \<Rightarrow> 's proc) \<Rightarrow> 's proc" where
  "mutate h w r name fn =
     (if h_ro h
      then Done (http_error (header_set w ''Allow'' (allowed_methods h)) StatusForbidden ''webdav: read-only export'')
      else fn h w r name)"

definition dispatch :: "('s, 'f) handler \<Rightarrow> headers \<Rightarrow> request \<Rightarrow> path \<Rightarrow> 's proc" where
  "dispatch h w r name =
     (let m = rq_method r
      in if m = ''OPTIONS'' then Done (serveOptions h w)
         else if m = ''GET'' \<or> m = ''HEAD'' then serveGet h w r name
         else if m = ''PROPFIND'' then servePropfind h w r name
         else if m = ''PUT'' then mutate h w r name servePut
         else if m = ''DELETE'' then mutate h w r name serveDelete
         else if m = ''MKCOL'' then mutate h w r name serveMkcol
         else if m = ''COPY'' then mutate h w r name serveCopy
         else if m = ''MOVE'' then mutate h w r name serveMove
         else if m = ''PROPPATCH'' then mutate h w r name serveProppatch
         else if m = ''LOCK'' then mutate h w r name serveLock
         else if m = ''UNLOCK'' then mutate h w r name serveUnlock
         else Done (http_error (header_set w ''Allow'' (allowed_methods h)) StatusMethodNotAllowed
                ''webdav: method not allowed''))"

definition ServeHTTP :: "('s, 'f) handler \<Rightarrow> request \<Rightarrow> 's proc" where
  "ServeHTTP h r =
     (case authorise h [] r of
        Some refusal \<Rightarrow> Done refusal
      | None \<Rightarrow>
     (case resource (h_prefix h) (rq_path r) of
        None \<Rightarrow> Done (http_error (setDAV h []) StatusBadRequest ''webdav: bad request path'')
      | Some name \<Rightarrow> dispatch h (setDAV h []) r name))"

end
