(* ===== verification/Safety.thy ===== *)
theory Safety
  imports Server
begin

text \<open>
  Invariants of a whole request. The locales state what an invariant of the driver's state (and
  of the lock table's) has to survive: a single driver call on a canonical path, a single method
  of the table. The lemmas then carry it through every handler once and for all, for a request
  that runs alone and for any interleaving, and each interpretation turns them into a guarantee
  of the server.
\<close>

abbreviation keeps_all where "keeps_all P Q \<equiv> keeps P Q (\<lambda>_. True)"

abbreviation stable :: "('s \<Rightarrow> bool) \<Rightarrow> ('s, 'a) state \<Rightarrow> bool" where
  "stable P m \<equiv> sat P (\<lambda>_. True) m"

definition good_listing :: "go_error + string list \<Rightarrow> bool" where
  "good_listing res \<longleftrightarrow>
     (case res of Inl _ \<Rightarrow> True | Inr ns \<Rightarrow> \<forall>n \<in> set ns. n = ''.'' \<or> n = ''..'' \<or> good_comp n)"

lemma stable_bind: "stable P m \<Longrightarrow> (\<And>x. stable P (f x)) \<Longrightarrow> stable P (State_Monad.bind m f)"
  by (rule sat_bind) auto

lemma stable_return [simp]: "stable P (State_Monad.return x)"
  by (simp add: sat_def)

lemma stable_each_member:
  assumes "\<And>e. e \<in> set es \<Longrightarrow> e \<noteq> ''.'' \<Longrightarrow> e \<noteq> ''..'' \<Longrightarrow> stable P (f e)"
  shows "stable P (each_member f es)"
  using assms by (induction es) (auto intro!: stable_bind split: option.split)

section \<open>Reading\<close>

locale reader =
  fixes h :: "('s, 'f) handler" and P :: "'s \<Rightarrow> bool"
  assumes Stat: "canonical p \<Longrightarrow> stable P (drv_Stat (h_fs h) p)"
    and ReadFile: "canonical p \<Longrightarrow> stable P (drv_ReadFile (h_fs h) p)"
    and ListDir: "canonical p \<Longrightarrow> sat P good_listing (drv_ListDir (h_fs h) p)"
    and OpenFile: "drv_OpenFile (h_fs h) = Some opn \<Longrightarrow> canonical p \<Longrightarrow> stable P (opn p)"
    and Size: "stable P (file_Size (drv_file (h_fs h)) f)"
    and ReadAt: "stable P (file_ReadAt (drv_file (h_fs h)) f n off)"
    and Close: "stable P (file_Close (drv_file (h_fs h)) f)"
    and Capacity: "h_capacity h = Some c \<Longrightarrow> stable P c"
begin

lemma sat_info: "canonical p \<Longrightarrow> sat P (\<lambda>ri. \<forall>i. ri = Inr i \<longrightarrow> ri_path i = p) (info h p)"
  unfolding info_def
  by (rule sat_bind [OF Stat]) (auto simp: sat_def split: sum.splits option.splits)

lemma stable_info: "canonical p \<Longrightarrow> stable P (info h p)"
  by (rule sat_mono [OF sat_info]) auto

lemma keeps_info:
  "canonical p \<Longrightarrow> (\<And>ri. (\<And>i. ri = Inr i \<Longrightarrow> ri_path i = p) \<Longrightarrow> keeps P Q R (k ri)) \<Longrightarrow>
   keeps P Q R (fs_call (info h p) k)"
  by (rule keeps_fs_call [OF sat_info]) auto

lemma keeps_stable:
  "stable P m \<Longrightarrow> (\<And>x. keeps P Q R (k x)) \<Longrightarrow> keeps P Q R (fs_call m k)"
  by (rule keeps_fs_call) auto

lemma keeps_listing:
  "canonical p \<Longrightarrow> (\<And>e. keeps P Q R (k (Inl e))) \<Longrightarrow>
   (\<And>ns. (\<And>n. n \<in> set ns \<Longrightarrow> n \<noteq> ''.'' \<Longrightarrow> n \<noteq> ''..'' \<Longrightarrow> good_comp n) \<Longrightarrow> keeps P Q R (k (Inr ns))) \<Longrightarrow>
   keeps P Q R (fs_call (drv_ListDir (h_fs h) p) k)"
  by (rule keeps_fs_call [OF ListDir]) (auto simp: good_listing_def split: sum.splits)

lemma stable_open_content: "canonical (ri_path i) \<Longrightarrow> stable P (open_content h i)"
  unfolding open_content_def
  by (auto intro!: stable_bind OpenFile ReadFile Size split: option.split sum.split)

lemma stable_index_rows:
  "canonical name \<Longrightarrow> (\<And>n. n \<in> set ns \<Longrightarrow> n \<noteq> ''.'' \<Longrightarrow> n \<noteq> ''..'' \<Longrightarrow> good_comp n) \<Longrightarrow>
   stable P (index_rows h name ns)"
  by (induction ns) (auto intro!: stable_bind stable_info canonical_join)

lemma keeps_serve_reads:
  assumes "\<And>off n k. (\<And>x. keeps P Q R (k x)) \<Longrightarrow> keeps P Q R (rd off n k)"
    and "\<And>resp. keeps P Q R (fin resp)"
  shows "keeps P Q R (serve_reads rd fin io)"
  by (induction io) (auto intro!: assms)

lemma keeps_serve_content: "keeps_all P Q (serve_content h w r i c)"
proof -
  have fin: "keeps_all P Q (close_after h f resp)" for f resp
    unfolding close_after_def by (rule keeps_stable [OF Close]) simp
  show ?thesis
  proof (cases c)
    case (InMemory d)
    then show ?thesis
      by (auto simp: serve_content_def memory_read_def intro!: keeps_serve_reads)
  next
    case (HostContent f)
    then show ?thesis
      by (auto simp: serve_content_def host_read_def fin intro!: keeps_serve_reads
          keeps_cap_call [OF Size] keeps_cap_call [OF ReadAt])
  next
    case (Section f len)
    then show ?thesis
      by (auto simp: serve_content_def locked_read_def fin intro!: keeps_serve_reads keeps_stable [OF ReadAt])
  qed
qed

lemma keeps_serveIndex: "canonical name \<Longrightarrow> keeps_all P Q (serveIndex h w r name)"
  unfolding serveIndex_def
  by (auto simp: Let_def intro!: keeps_listing keeps_stable [OF stable_index_rows])

lemma keeps_serveGet: "canonical name \<Longrightarrow> keeps_all P Q (serveGet h w r name)"
  unfolding serveGet_def
  by (auto intro!: keeps_info keeps_stable [OF stable_open_content] keeps_serveIndex
      keeps_serve_content split: sum.split)

end

section \<open>The lock table\<close>

locale lock_user =
  fixes Q :: "lock_world \<Rightarrow> bool"
  assumes confirm: "canonical p \<Longrightarrow> stable Q (lw_confirm p ts)"
    and release: "canonical p \<Longrightarrow> stable Q (lw_release p)"
    and find: "canonical p \<Longrightarrow> stable Q (lw_find p)"
    and unlock: "canonical p \<Longrightarrow> stable Q (lw_unlock p tok)"
    and refresh: "canonical p \<Longrightarrow> stable Q (lw_refresh p ts t)"
    and create: "canonical p \<Longrightarrow> d \<in> {depthZero, depthInfinity} \<Longrightarrow> stable Q (lw_create p d ow t)"
begin

lemma stable_read: "stable Q (lw_read l)"
  by (simp add: sat_def lw_read_def)

lemma keeps_ls:
  "stable Q m \<Longrightarrow> (\<And>x. keeps P Q R (k x)) \<Longrightarrow> keeps P Q R (ls_call m k)"
  by (rule keeps_ls_call) auto

lemma keeps_checkLocks:
  "canonical p \<Longrightarrow> (\<And>x. keeps P Q R (k x)) \<Longrightarrow> keeps P Q R (checkLocks r p k)"
  unfolding checkLocks_def by (rule keeps_ls [OF confirm])

lemma keeps_discoveryXML:
  "canonical p \<Longrightarrow> (\<And>x. keeps P Q R (k x)) \<Longrightarrow> keeps P Q R (discoveryXML h p k)"
  unfolding discoveryXML_def by (auto intro!: keeps_ls find stable_read split: option.split)

lemma keeps_serveUnlock: "canonical name \<Longrightarrow> keeps_all P Q (serveUnlock h w r name)"
  unfolding serveUnlock_def by (auto simp: Let_def intro!: keeps_ls unlock split: option.split)

end

locale read_session = reader h P + lock_user Q
  for h :: "('s, 'f) handler" and P :: "'s \<Rightarrow> bool" and Q :: "lock_world \<Rightarrow> bool"
begin

lemma keeps_space: "(\<And>x. keeps P Q R (k x)) \<Longrightarrow> keeps P Q R (space h k)"
  unfolding space_def by (auto intro!: keeps_cap_call [OF Capacity] split: option.split)

lemma keeps_propNames: "(\<And>x. keeps P Q R (k x)) \<Longrightarrow> keeps P Q R (propNames h i k)"
  unfolding propNames_def by (auto intro!: keeps_space)

lemma keeps_propValue:
  "canonical (ri_path i) \<Longrightarrow> (\<And>x. keeps P Q R (k x)) \<Longrightarrow> keeps P Q R (propValue h i n k)"
  unfolding propValue_def Let_def by (auto intro!: keeps_space keeps_discoveryXML)

lemma keeps_all_props_loop:
  "canonical (ri_path i) \<Longrightarrow> (\<And>x. keeps P Q R (k x)) \<Longrightarrow> keeps P Q R (all_props_loop h i ns k)"
  by (induction ns arbitrary: k) (auto intro!: keeps_propValue)

lemma keeps_namedProps:
  "canonical (ri_path i) \<Longrightarrow> (\<And>x. keeps P Q R (k x)) \<Longrightarrow> keeps P Q R (namedProps h i ns k)"
  by (induction ns arbitrary: k) (auto intro!: keeps_propValue split: option.split)

lemma keeps_respond:
  "canonical (ri_path i) \<Longrightarrow> (\<And>x. keeps P Q R (k x)) \<Longrightarrow> keeps P Q R (respond h i req k)"
  unfolding respond_def Let_def allProps_def
  by (auto intro!: keeps_propNames keeps_all_props_loop keeps_namedProps)

lemma keeps_member_rows:
  assumes "canonical name" and "\<And>n. n \<in> set ns \<Longrightarrow> n \<noteq> ''.'' \<Longrightarrow> n \<noteq> ''..'' \<Longrightarrow> good_comp n"
    and "\<And>x. keeps P Q R (k x)"
  shows "keeps P Q R (member_rows h name req ns k)"
  using assms(2,3)
proof (induction ns arbitrary: k)
  case (Cons n ns)
  then show ?case
    by (auto intro!: keeps_info keeps_respond canonical_join [OF assms(1)] split: sum.split)
qed simp

lemma keeps_servePropfind: "canonical name \<Longrightarrow> keeps_all P Q (servePropfind h w r name)"
  unfolding servePropfind_def
  by (auto intro!: keeps_info keeps_respond keeps_listing keeps_member_rows
      split: option.split sum.split)

lemma keeps_serveProppatch: "canonical name \<Longrightarrow> keeps_all P Q (serveProppatch h w r name)"
  unfolding serveProppatch_def
  by (auto intro!: keeps_checkLocks keeps_info split: option.split sum.split)

text \<open>On a read-only export these are all the programs a request can run.\<close>

lemma keeps_ServeHTTP_readonly:
  assumes "h_ro h"
  shows "keeps_all P Q (ServeHTTP h r)"
  using assms unfolding ServeHTTP_def dispatch_def Let_def mutate_def
  by (auto intro!: keeps_serveGet keeps_servePropfind dest: resource_SomeD(1) split: option.split)

end

section \<open>Writing\<close>

locale writer = reader +
  assumes WriteFile: "canonical p \<Longrightarrow> stable P (drv_WriteFile (h_fs h) p d m)"
    and MkDir: "canonical p \<Longrightarrow> stable P (drv_MkDir (h_fs h) p m)"
    and DeleteFile: "canonical p \<Longrightarrow> stable P (drv_DeleteFile (h_fs h) p)"
    and DeleteDir: "canonical p \<Longrightarrow> stable P (drv_DeleteDir (h_fs h) p)"
    and Rename: "canonical p \<Longrightarrow> canonical q \<Longrightarrow> stable P (drv_Rename (h_fs h) p q)"
    and WriteAt: "stable P (file_WriteAt (drv_file (h_fs h)) f d off)"
    and Truncate: "stable P (file_Truncate (drv_file (h_fs h)) f len)"
    and Sync: "stable P (file_Sync (drv_file (h_fs h)) f)"
    and Range: "stable P (file_Range (drv_file (h_fs h)) f g a b len)"
begin

lemma stable_info_bind:
  "canonical p \<Longrightarrow> (\<And>ri. (\<And>i. ri = Inr i \<Longrightarrow> ri_path i = p) \<Longrightarrow> stable P (k ri)) \<Longrightarrow>
   stable P (State_Monad.bind (info h p) k)"
  by (rule sat_bind [OF sat_info]) auto

lemma stable_listing_bind:
  "canonical p \<Longrightarrow> (\<And>e. stable P (k (Inl e))) \<Longrightarrow>
   (\<And>ns. (\<And>n. n \<in> set ns \<Longrightarrow> n \<noteq> ''.'' \<Longrightarrow> n \<noteq> ''..'' \<Longrightarrow> good_comp n) \<Longrightarrow> stable P (k (Inr ns))) \<Longrightarrow>
   stable P (State_Monad.bind (drv_ListDir (h_fs h) p) k)"
  by (rule sat_bind [OF ListDir]) (auto simp: good_listing_def split: sum.splits)

lemma stable_removeTree: "canonical (ri_path i) \<Longrightarrow> stable P (removeTree n h i)"
proof (induction n arbitrary: i)
  case (Suc n)
  have member: "stable P (do {
      child \<leftarrow> info h (join (ri_path i) nm);
      case child of
        Inl err \<Rightarrow> State_Monad.return (Some [failed h (join (ri_path i) nm) False err])
      | Inr c \<Rightarrow> removeTree n h c })" if "good_comp nm" for nm
  proof (rule stable_info_bind)
    show c: "canonical (join (ri_path i) nm)" by (rule canonical_join [OF Suc.prems that])
    fix ri :: "go_error + resourceInfo" assume "\<And>j. ri = Inr j \<Longrightarrow> ri_path j = join (ri_path i) nm"
    then show "stable P (case ri of
        Inl err \<Rightarrow> State_Monad.return (Some [failed h (join (ri_path i) nm) False err])
      | Inr c \<Rightarrow> removeTree n h c)" using c by (cases ri) (simp_all add: Suc.IH)
  qed
  have members: "stable P (each_member (\<lambda>nm. do {
      child \<leftarrow> info h (join (ri_path i) nm);
      case child of
        Inl err \<Rightarrow> State_Monad.return (Some [failed h (join (ri_path i) nm) False err])
      | Inr c \<Rightarrow> removeTree n h c }) ns)"
    if "\<And>nm. nm \<in> set ns \<Longrightarrow> nm \<noteq> ''.'' \<Longrightarrow> nm \<noteq> ''..'' \<Longrightarrow> good_comp nm" for ns
    by (rule stable_each_member) (use member that in blast)
  show ?case
  proof (cases "ri_isDir i")
    case True
    show ?thesis
      apply (simp only: removeTree.simps True not_True_eq_False if_False)
      apply (rule stable_listing_bind [OF Suc.prems])
       apply (simp only: sum.case stable_return)
      apply (simp only: sum.case)
      apply (rule stable_bind [OF members], assumption)
      apply (auto intro!: stable_bind [OF DeleteDir [OF Suc.prems]])
      done
  next
    case False
    then show ?thesis by (auto intro!: stable_bind [OF DeleteFile [OF Suc.prems]])
  qed
qed simp

lemma stable_copy_whole: "canonical src \<Longrightarrow> canonical dst \<Longrightarrow> stable P (copy_whole h src dst)"
  unfolding copy_whole_def by (auto intro!: stable_bind ReadFile WriteFile split: sum.split)

lemma stable_copy_range: "stable P (copy_range (drv_file (h_fs h)) f g)"
  unfolding copy_range_def
  by (auto intro!: stable_bind Size Truncate Range Sync Close split: option.split)

lemma stable_copyFile: "canonical src \<Longrightarrow> canonical dst \<Longrightarrow> stable P (copyFile h src dst)"
  unfolding copyFile_def copy_opened_def
  by (auto intro!: stable_bind OpenFile WriteFile Close stable_copy_whole stable_copy_range
      split: option.split sum.split)

lemma stable_copyTree:
  "canonical (ri_path src) \<Longrightarrow> canonical dst \<Longrightarrow> stable P (copyTree n h src dst deep)"
proof (induction n arbitrary: src dst deep)
  case (Suc n)
  have member: "stable P (do {
      child \<leftarrow> info h (join (ri_path src) nm);
      case child of
        Inl err \<Rightarrow> State_Monad.return (Some [failed h (join dst nm) False err])
      | Inr c \<Rightarrow> copyTree n h c (join dst nm) True })" if "good_comp nm" for nm
  proof (rule stable_info_bind)
    show c: "canonical (join (ri_path src) nm)" by (rule canonical_join [OF Suc.prems(1) that])
    have d: "canonical (join dst nm)" by (rule canonical_join [OF Suc.prems(2) that])
    fix ri :: "go_error + resourceInfo" assume "\<And>j. ri = Inr j \<Longrightarrow> ri_path j = join (ri_path src) nm"
    then show "stable P (case ri of
        Inl err \<Rightarrow> State_Monad.return (Some [failed h (join dst nm) False err])
      | Inr c \<Rightarrow> copyTree n h c (join dst nm) True)" using c d by (cases ri) (simp_all add: Suc.IH)
  qed
  have members: "stable P (each_member (\<lambda>nm. do {
      child \<leftarrow> info h (join (ri_path src) nm);
      case child of
        Inl err \<Rightarrow> State_Monad.return (Some [failed h (join dst nm) False err])
      | Inr c \<Rightarrow> copyTree n h c (join dst nm) True }) ns)"
    if "\<And>nm. nm \<in> set ns \<Longrightarrow> nm \<noteq> ''.'' \<Longrightarrow> nm \<noteq> ''..'' \<Longrightarrow> good_comp nm" for ns
    by (rule stable_each_member) (use member that in blast)
  show ?case
  proof (cases "ri_isDir src")
    case True
    show ?thesis
      apply (simp only: copyTree.simps True not_True_eq_False if_False)
      apply (rule stable_bind [OF MkDir [OF Suc.prems(2)]])
      apply (case_tac x)
       apply (simp only: option.case)
       apply (cases deep)
        apply (simp only: not_True_eq_False if_False)
        apply (rule stable_listing_bind [OF Suc.prems(1)])
         apply (simp only: sum.case stable_return)
        apply (simp only: sum.case)
        apply (rule members, assumption)
       apply (simp only: not_False_eq_True if_True stable_return)
      apply (simp only: option.case stable_return)
      done
  next
    case False
    then show ?thesis using Suc.prems by (auto intro!: stable_bind [OF stable_copyFile])
  qed
qed simp

lemma stable_writableAt: "canonical p \<Longrightarrow> stable P (writableAt h p)"
  unfolding writableAt_def by (auto intro!: stable_bind OpenFile Close split: option.split sum.split)

lemma stable_write_range: "stable P (write_range (drv_file (h_fs h)) f cr body appending len)"
  unfolding write_range_def
  by (auto intro!: stable_bind Truncate WriteAt Sync Close split: option.split)

lemma keeps_closeFile: "keeps P Q R k \<Longrightarrow> keeps P Q R (closeFile h f k)"
  unfolding closeFile_def by (auto intro!: keeps_stable [OF Close])

lemma keeps_putRange_body: "canonical name \<Longrightarrow> keeps_all P Q (putRange_body h w r name cr f len)"
  unfolding putRange_body_def Let_def putRange_write_def
  by (auto intro!: keeps_closeFile keeps_stable [OF stable_write_range] keeps_info
      split: sum.split read_error.split option.split)

lemma keeps_servePutRange: "canonical name \<Longrightarrow> keeps_all P Q (servePutRange h w r name cr)"
  unfolding servePutRange_def
  by (auto intro!: keeps_info keeps_stable [OF stable_writableAt] keeps_stable [OF Size]
      keeps_putRange_body split: sum.split writable_error.split)

lemma keeps_remove_call:
  "canonical (ri_path i) \<Longrightarrow> (\<And>fs. keeps P Q R (k fs)) \<Longrightarrow> keeps P Q R (remove_call h i k)"
  unfolding remove_call_def by (auto intro!: keeps_stable [OF stable_removeTree] split: option.split)

end

locale session = writer h P + read_session h P Q
  for h :: "('s, 'f) handler" and P :: "'s \<Rightarrow> bool" and Q :: "lock_world \<Rightarrow> bool"
begin

lemma keeps_servePut: "canonical name \<Longrightarrow> keeps_all P Q (servePut h w r name)"
  unfolding servePut_def put_write_def
  by (auto intro!: keeps_checkLocks keeps_servePutRange keeps_info keeps_stable [OF Stat]
      keeps_stable [OF WriteFile] canonical_parentOf
      split: option.split sum.split read_error.split)

lemma keeps_serveMkcol: "canonical name \<Longrightarrow> keeps_all P Q (serveMkcol h w r name)"
  unfolding serveMkcol_def
  by (auto intro!: keeps_checkLocks keeps_info keeps_stable [OF Stat] keeps_stable [OF MkDir]
      canonical_parentOf split: option.split sum.split)

lemma keeps_serveDelete: "canonical name \<Longrightarrow> keeps_all P Q (serveDelete h w r name)"
  unfolding serveDelete_def
  by (auto intro!: keeps_checkLocks keeps_info keeps_remove_call keeps_ls release
      split: option.split sum.split)

lemma keeps_prepareDestination:
  "canonical dst \<Longrightarrow> (\<And>code. keeps_all P Q (k code)) \<Longrightarrow>
   keeps_all P Q (prepareDestination h w r src dst k)"
  unfolding prepareDestination_def
  by (auto intro!: keeps_info keeps_remove_call keeps_ls release canonical_parentOf
      split: option.split sum.split)

lemma keeps_serveMove: "canonical name \<Longrightarrow> keeps_all P Q (serveMove h w r name)"
  unfolding serveMove_def
  by (auto intro!: keeps_checkLocks keeps_info keeps_prepareDestination keeps_stable [OF Rename]
      keeps_ls release dest!: canonical_destination split: option.split sum.split)

lemma keeps_serveCopy: "canonical name \<Longrightarrow> keeps_all P Q (serveCopy h w r name)"
  unfolding serveCopy_def
  by (auto intro!: keeps_checkLocks keeps_info keeps_prepareDestination keeps_stable [OF stable_copyTree]
      dest!: canonical_destination split: option.split sum.split)

lemma keeps_lock_create:
  "canonical name \<Longrightarrow> d \<in> {depthZero, depthInfinity} \<Longrightarrow> keeps_all P Q (lock_create h w name d ow t c)"
  unfolding lock_create_def writeLockResponse_def
  by (auto intro!: keeps_ls create stable_read split: sum.split)

lemma keeps_serveLock: "canonical name \<Longrightarrow> keeps_all P Q (serveLock h w r name)"
  unfolding serveLock_def Let_def writeLockResponse_def
  by (auto intro!: keeps_ls refresh stable_read keeps_stable [OF Stat] keeps_stable [OF WriteFile]
      keeps_lock_create dest!: parseDepth_cases split: option.split sum.split)

text \<open>Whatever a request is, its program keeps the two invariants.\<close>

lemma keeps_ServeHTTP: "keeps_all P Q (ServeHTTP h r)"
  unfolding ServeHTTP_def dispatch_def Let_def mutate_def
  by (auto intro!: keeps_serveGet keeps_servePropfind keeps_servePut keeps_serveDelete keeps_serveMkcol
      keeps_serveCopy keeps_serveMove keeps_serveProppatch keeps_serveLock keeps_serveUnlock
      dest: resource_SomeD(1) split: option.split)

end

end
