(* ===== verification/Guarantees.thy ===== *)
theory Guarantees
  imports Safety
begin

text \<open>
  What the invariants of \<open>Safety\<close> give for every request and every interleaving of requests: the
  lock table stays consistent and bounded, the driver only ever sees canonical paths, a
  read-only export does not change.
\<close>

section \<open>The lock table\<close>

text \<open>
  The random bytes still to come give tokens that name no lock and differ from each other, which
  is what 128 bits of the CSPRNG are for.
\<close>

definition tokens_ahead :: "lock_world \<Rightarrow> bool" where
  "tokens_ahead l \<longleftrightarrow>
     (\<forall>n. fresh_rnd (lw_table l) (lw_rand l n)) \<and>
     (\<forall>m n tok. newToken (lw_rand l m) = Inr tok \<and> newToken (lw_rand l n) = Inr tok \<longrightarrow> m = n)"

definition lw_ok :: "lock_world \<Rightarrow> bool" where
  "lw_ok l \<longleftrightarrow> ls_inv (lw_table l) \<and> length (byToken (lw_table l)) \<le> maxLocks \<and> tokens_ahead l"

lemma fresh_submap:
  assumes "fresh_rnd ls rnd" and "\<And>t. map_of (byToken ls) t = None \<Longrightarrow> map_of (byToken ls') t = None"
  shows "fresh_rnd ls' rnd"
  using assms by (auto simp: fresh_rnd_def split: sum.splits)

text \<open>An operation that adds no token keeps the whole condition.\<close>

lemma lw_ok_step:
  assumes "lw_ok l" and "ls_step (lw_table l) e t"
    and "\<And>k. map_of (byToken (lw_table l)) k = None \<Longrightarrow> map_of (byToken t) k = None"
  shows "lw_ok (l\<lparr>lw_table := t\<rparr>)"
proof -
  have inv: "ls_inv (lw_table l)" and len: "length (byToken (lw_table l)) \<le> maxLocks"
    and ta: "tokens_ahead l" using assms(1) by (simp_all add: lw_ok_def)
  have "fresh_rnd t (lw_rand l n)" for n
    by (rule fresh_submap [OF _ assms(3)]) (use ta in \<open>unfold tokens_ahead_def, blast\<close>)
  then show ?thesis
    using ls_step_inv [OF assms(2) inv] ls_step_bound [OF assms(2) ls_inv_linked [OF inv] len] ta
    by (simp add: lw_ok_def tokens_ahead_def)
qed

lemma sweep_no_new:
  "linked ls \<Longrightarrow> map_of (byToken ls) k = None \<Longrightarrow> map_of (byToken (sweep now ls)) k = None"
  by (auto simp: sweep_eq map_of_eq_None_iff)

lemma release_no_new:
  "linked ls \<Longrightarrow> map_of (byToken ls) k = None \<Longrightarrow> map_of (byToken (releaseTree p ls)) k = None"
  by (auto simp: releaseTree_eq map_of_eq_None_iff)

lemma unlock_no_new:
  "linked ls \<Longrightarrow> map_of (byToken ls) k = None \<Longrightarrow> map_of (byToken (snd (unlock now p t ls))) k = None"
  using sweep_no_new [of ls k now]
  by (auto simp: unlock_def Let_def AList.delete_conv' split: option.splits)

lemma refresh_no_new:
  "linked ls \<Longrightarrow> map_of (byToken ls) k = None \<Longrightarrow> map_of (byToken (snd (refresh now p ts t ls))) k = None"
  using sweep_no_new [of ls k now] by (auto simp: refresh_def Let_def split: option.splits)

lemma create_tokens:
  "byToken (snd (create now rnd p d ow t ls)) = byToken (sweep now ls) \<or>
   (\<exists>tok r. newToken rnd = Inr tok \<and> (\<exists>r'. fst (create now rnd p d ow t ls) = Inr r') \<and>
      byToken (snd (create now rnd p d ow t ls)) = AList.update tok r (byToken (sweep now ls)))"
  by (auto simp: create_def Let_def split: sum.splits)

lemma lw_ok_create:
  assumes ok: "lw_ok l" and p: "canonical p" "d \<in> {depthZero, depthInfinity}"
  shows "lw_ok (snd (run_state (lw_create p d ow t) l))"
proof -
  obtain r tab where c: "create (lw_now l) (lw_rand l 0) p d ow t (lw_table l) = (r, tab)" by fastforce
  have inv: "ls_inv (lw_table l)" and len: "length (byToken (lw_table l)) \<le> maxLocks"
    and ta: "tokens_ahead l" using ok by (simp_all add: lw_ok_def)
  have fr: "fresh_rnd (lw_table l) (lw_rand l n)" for n using ta unfolding tokens_ahead_def by blast
  have st: "ls_step (lw_table l) (Ev_create (lw_now l) (lw_rand l 0) p d ow t) tab"
    using step_create [OF p fr [of 0], where now = "lw_now l" and ow = ow and t = t] by (simp add: c)
  have sw: "fresh_rnd (sweep (lw_now l) (lw_table l)) (lw_rand l n)" for n
    by (rule fresh_rnd_sweep [OF ls_inv_linked [OF inv] fr])
  have dist: "newToken (lw_rand l m) = Inr tok \<Longrightarrow> newToken (lw_rand l n) = Inr tok \<Longrightarrow> m = n" for m n tok
    using ta unfolding tokens_ahead_def by blast
  define rnd' where "rnd' = (if r = Inl ErrLocked \<or> r = Inl ErrLockTableFull then lw_rand l
                             else (\<lambda>n. lw_rand l (Suc n)))"
  have "fresh_rnd tab (rnd' n)" for n
  proof (cases "byToken tab = byToken (sweep (lw_now l) (lw_table l))")
    case True
    have "fresh_rnd tab (lw_rand l k)" for k
      by (rule fresh_submap [OF sw]) (simp add: True)
    then show ?thesis by (simp add: rnd'_def)
  next
    case False
    then obtain tok r' where t: "newToken (lw_rand l 0) = Inr tok" "\<exists>r'. r = Inr r'"
      "byToken tab = AList.update tok r' (byToken (sweep (lw_now l) (lw_table l)))"
      using create_tokens [of "lw_now l" "lw_rand l 0" p d ow t "lw_table l"] c by auto
    have "newToken (lw_rand l (Suc n)) \<noteq> Inr tok" using dist [of 0 tok "Suc n"] t(1) by auto
    then show ?thesis using sw [of "Suc n"] t(2)
      by (auto simp: fresh_rnd_def rnd'_def t(3) update_conv' split: sum.splits)
  qed
  moreover have "newToken (rnd' m) = Inr tok \<and> newToken (rnd' n) = Inr tok \<longrightarrow> m = n" for m n tok
    using dist [of m tok n] dist [of "Suc m" tok "Suc n"] by (auto simp: rnd'_def split: if_splits)
  ultimately have "tokens_ahead (l\<lparr>lw_table := tab, lw_rand := rnd'\<rparr>)"
    unfolding tokens_ahead_def by simp
  moreover have "run_state (lw_create p d ow t) l = (r, l\<lparr>lw_table := tab, lw_rand := rnd'\<rparr>)"
    by (simp add: lw_create_def c rnd'_def)
  ultimately show ?thesis
    using ls_step_inv [OF st inv] ls_step_bound [OF st ls_inv_linked [OF inv] len]
    by (simp add: lw_ok_def)
qed

lemma stableI: "(\<And>l. Q l \<Longrightarrow> Q (snd (run_state m l))) \<Longrightarrow> stable Q m"
  unfolding sat_def by (metis (mono_tags, lifting) case_prod_beta)

lemma snd_lw:
  "snd (run_state (lw_confirm p ts) l) = l\<lparr>lw_table := snd (confirm (lw_now l) p ts (lw_table l))\<rparr>"
  "snd (run_state (lw_release p) l) = l\<lparr>lw_table := releaseTree p (lw_table l)\<rparr>"
  "snd (run_state (lw_find p) l) = l\<lparr>lw_table := snd (find_lock (lw_now l) p (lw_table l))\<rparr>"
  "snd (run_state (lw_unlock p tok) l) = l\<lparr>lw_table := snd (unlock (lw_now l) p tok (lw_table l))\<rparr>"
  "snd (run_state (lw_refresh p ts t) l) = l\<lparr>lw_table := snd (refresh (lw_now l) p ts t (lw_table l))\<rparr>"
  by (simp_all add: lw_confirm_def lw_release_def lw_find_def lw_unlock_def lw_refresh_def split: prod.splits)

interpretation locks: lock_user lw_ok
proof unfold_locales
  fix p :: path and ts :: "token list" and tok :: token and d :: int and ow :: bytes and t :: nanos
  note lnk = lw_ok_def ls_inv_linked
  show "stable lw_ok (lw_confirm p ts)"
    by (rule stableI, unfold snd_lw, rule lw_ok_step [OF _ step_confirm])
       (simp_all add: confirm_state lnk sweep_no_new)
  show "stable lw_ok (lw_release p)"
    by (rule stableI, unfold snd_lw, rule lw_ok_step [OF _ step_release])
       (simp_all add: lnk release_no_new)
  show "stable lw_ok (lw_find p)"
    by (rule stableI, unfold snd_lw, rule lw_ok_step [OF _ step_find])
       (simp_all add: find_lock_state lnk sweep_no_new)
  show "stable lw_ok (lw_unlock p tok)"
    by (rule stableI, unfold snd_lw, rule lw_ok_step [OF _ step_unlock])
       (simp_all add: lnk unlock_no_new)
  show "stable lw_ok (lw_refresh p ts t)"
    by (rule stableI, unfold snd_lw, rule lw_ok_step [OF _ step_refresh])
       (simp_all add: lnk refresh_no_new)
  show "canonical p \<Longrightarrow> d \<in> {depthZero, depthInfinity} \<Longrightarrow> stable lw_ok (lw_create p d ow t)"
    by (rule stableI) (rule lw_ok_create)
qed

lemma any_locks: "lock_user (\<lambda>_. True)"
  by unfold_locales (auto simp: sat_def split: prod.splits)

end
