(* ===== verification/DriverLaws.thy ===== *)
theory DriverLaws
  imports Safety
begin

text \<open>
  The documented behaviour of a driver that does its work: its state is seen as a tree of files
  and directories, and each call acts on that tree. The functional lemmas of the tree walks
  (\<open>removeTree\<close>, \<open>copyTree\<close>) are proved from these laws.
\<close>

section \<open>Trees\<close>

datatype node = DirNode | FileNode bytes

type_synonym tree = "path \<Rightarrow> node option"

definition tree_ok :: "tree \<Rightarrow> bool" where
  "tree_ok v \<longleftrightarrow>
     v ''/'' = Some DirNode \<and>
     (\<forall>p. v p \<noteq> None \<longrightarrow> canonical p \<and> v (parentOf p) = Some DirNode)"

definition cut_tree :: "path \<Rightarrow> tree \<Rightarrow> tree" where
  "cut_tree p v = (\<lambda>q. if under p q then None else v q)"

text \<open>All of the tree below \<open>p\<close> lies less than \<open>n\<close> levels beneath it.\<close>

definition fits :: "nat \<Rightarrow> path \<Rightarrow> tree \<Rightarrow> bool" where
  "fits n p v \<longleftrightarrow> (\<forall>q. v q \<noteq> None \<and> under p q \<longrightarrow> length (comps q) < length (comps p) + n)"

definition members :: "tree \<Rightarrow> path \<Rightarrow> string set" where
  "members v p = {n. good_comp n \<and> v (join p n) \<noteq> None}"

lemma tree_okD:
  assumes "tree_ok v" and "v p \<noteq> None"
  shows "canonical p" and "v (parentOf p) = Some DirNode"
  using assms unfolding tree_ok_def by blast+

lemma tree_root: "tree_ok v \<Longrightarrow> v ''/'' = Some DirNode"
  by (simp add: tree_ok_def)

text \<open>A path strictly below another one passes through a member of it.\<close>

lemma through_member:
  assumes "canonical p" and "canonical q" and "strictlyUnder p q"
  obtains n where "good_comp n" and "under (join p n) q" and "canonical (join p n)"
    and "comps (join p n) = comps p @ [n]"
proof -
  have "strict_prefix (comps p) (comps q)"
    using assms by (auto simp: strictlyUnder_def under_iff_comps strict_prefix_def canonical_eq_iff)
  then obtain n ns where q: "comps q = comps p @ n # ns"
    by (auto elim: strict_prefixE')
  have n: "good_comp n" using assms(2) q by (auto simp: canonical_def)
  have c: "canonical (join p n)" by (rule canonical_join [OF assms(1) n])
  have j: "comps (join p n) = comps p @ [n]" using comps_join [OF assms(1) n] .
  have "under (join p n) q"
    using assms(2) c q by (simp add: under_iff_comps j)
  then show thesis using that n c j by blast
qed

lemma ancestor_is_dir:
  assumes "tree_ok v" and "v q \<noteq> None" and "canonical p" and "strictlyUnder p q"
  shows "v p = Some DirNode"
  using assms(2,4)
proof (induction "length (comps q)" arbitrary: q)
  case 0
  then have "canonical q" using tree_okD [OF assms(1)] by blast
  then have "q = ''/''" using 0 by (simp add: comps_eq_Nil)
  then show ?case using 0 assms(3) by (auto simp: strictlyUnder_def tree.le_root_iff)
next
  case (Suc k)
  note q = tree_okD [OF assms(1) Suc.prems(1)]
  have ne: "q \<noteq> ''/''" using Suc.prems(2) assms(3) by (auto simp: strictlyUnder_def tree.le_root_iff)
  have u: "under p (parentOf q)"
    using Suc.prems(2) under_step [OF assms(3) q(1)] by (auto simp: strictlyUnder_def)
  show ?case
  proof (cases "p = parentOf q")
    case True
    then show ?thesis using q(2) by simp
  next
    case False
    have "length (comps (parentOf q)) = k"
      using Suc.hyps(2) by (simp add: comps_parentOf [OF q(1)])
    then show ?thesis using Suc.hyps(1) [of "parentOf q"] q(2) u False
      by (auto simp: strictlyUnder_def)
  qed
qed

lemma siblings_apart:
  assumes "canonical p" and "good_comp a" and "good_comp b" and "a \<noteq> b"
    and "under (join p a) q" and "canonical q"
  shows "\<not> under (join p b) q"
proof
  assume "under (join p b) q"
  then have "prefix (comps p @ [a]) (comps q)" "prefix (comps p @ [b]) (comps q)"
    using assms canonical_join [OF assms(1)] by (simp_all add: under_iff_comps comps_join)
  then show False using assms(4) by (auto simp: prefix_def)
qed

lemma fits_member:
  assumes "fits (Suc n) p v" and "canonical p" and "good_comp m" and "tree_ok v"
  shows "fits n (join p m) v"
  unfolding fits_def
proof (intro allI impI)
  fix q assume q: "v q \<noteq> None \<and> under (join p m) q"
  then have "canonical q" using tree_okD(1) [OF assms(4)] by blast
  then have "under p q"
    using q assms(2,3) canonical_join [OF assms(2,3)]
    by (auto simp: under_iff_comps comps_join prefix_def)
  then have "length (comps q) < length (comps p) + Suc n" using assms(1) q by (auto simp: fits_def)
  then show "length (comps q) < length (comps (join p m)) + n"
    by (simp add: comps_join [OF assms(2,3)])
qed

lemma fits_submap: "fits n p v \<Longrightarrow> (\<And>q. v' q \<noteq> None \<Longrightarrow> v q \<noteq> None) \<Longrightarrow> fits n p v'"
  unfolding fits_def by blast

section \<open>The laws\<close>

text \<open>What a \<open>Stat\<close> of a path must say about it.\<close>

definition stat_agrees :: "node option \<Rightarrow> go_error + fstat option \<Rightarrow> bool" where
  "stat_agrees nd r \<longleftrightarrow>
     (case nd of
        None \<Rightarrow> \<exists>e. r = Inl e \<and> notFound e
      | Some x \<Rightarrow> \<exists>st. r = Inr (Some st) \<and> (st_mode st AND sIFMT = sIFDIR \<longleftrightarrow> x = DirNode) \<and>
          (\<forall>b. x = FileNode b \<longrightarrow> st_size st = of_nat (length b)))"

definition listing_agrees :: "string set \<Rightarrow> go_error + string list \<Rightarrow> bool" where
  "listing_agrees ms r \<longleftrightarrow>
     (\<exists>ns. r = Inr ns \<and> distinct ns \<and> ms \<subseteq> set ns \<and> set ns \<subseteq> ms \<union> {''.'', ''..''})"

locale filesystem =
  fixes d :: "('s, 'f) driver" and fsinv :: "'s \<Rightarrow> bool" and view :: "'s \<Rightarrow> tree"
  assumes view_ok: "fsinv s \<Longrightarrow> tree_ok (view s)"
    and Stat: "fsinv s \<Longrightarrow> canonical p \<Longrightarrow> run_state (drv_Stat d p) s = (r, s') \<Longrightarrow>
      fsinv s' \<and> view s' = view s \<and> stat_agrees (view s p) r"
    and ReadFile: "fsinv s \<Longrightarrow> view s p = Some (FileNode b) \<Longrightarrow> run_state (drv_ReadFile d p) s = (c, s') \<Longrightarrow>
      fsinv s' \<and> view s' = view s \<and> c = Inr b"
    and ListDir: "fsinv s \<Longrightarrow> view s p = Some DirNode \<Longrightarrow> run_state (drv_ListDir d p) s = (l, s') \<Longrightarrow>
      fsinv s' \<and> view s' = view s \<and> listing_agrees (members (view s) p) l"
    and WriteFile: "fsinv s \<Longrightarrow> canonical p \<Longrightarrow> p \<noteq> ''/'' \<Longrightarrow> view s (parentOf p) = Some DirNode \<Longrightarrow>
      view s p \<noteq> Some DirNode \<Longrightarrow> run_state (drv_WriteFile d p b m) s = (e, s') \<Longrightarrow>
      fsinv s' \<and> e = None \<and> view s' = (view s)(p \<mapsto> FileNode b)"
    and MkDir: "fsinv s \<Longrightarrow> canonical p \<Longrightarrow> view s (parentOf p) = Some DirNode \<Longrightarrow> view s p = None \<Longrightarrow>
      run_state (drv_MkDir d p m) s = (e, s') \<Longrightarrow> fsinv s' \<and> e = None \<and> view s' = (view s)(p \<mapsto> DirNode)"
    and DeleteFile: "fsinv s \<Longrightarrow> view s p = Some (FileNode b) \<Longrightarrow>
      run_state (drv_DeleteFile d p) s = (e, s') \<Longrightarrow> fsinv s' \<and> e = None \<and> view s' = (view s)(p := None)"
    and DeleteDir: "fsinv s \<Longrightarrow> view s p = Some DirNode \<Longrightarrow> p \<noteq> ''/'' \<Longrightarrow> members (view s) p = {} \<Longrightarrow>
      run_state (drv_DeleteDir d p) s = (e, s') \<Longrightarrow> fsinv s' \<and> e = None \<and> view s' = (view s)(p := None)"
    and Rename: "fsinv s \<Longrightarrow> view s p = Some (FileNode b) \<Longrightarrow> canonical q \<Longrightarrow> view s q = None \<Longrightarrow>
      view s (parentOf q) = Some DirNode \<Longrightarrow> run_state (drv_Rename d p q) s = (e, s') \<Longrightarrow>
      fsinv s' \<and> e = None \<and> view s' = (view s)(p := None, q \<mapsto> FileNode b)"
begin

lemma info_present:
  assumes "fsinv s" and "h_fs h = d" and "view s p = Some nd"
  obtains i s' where "run_state (info h p) s = (Inr i, s')" and "ri_path i = p"
    and "ri_isDir i \<longleftrightarrow> nd = DirNode" and "fsinv s'" and "view s' = view s"
proof -
  have c: "canonical p" using tree_okD(1) [OF view_ok [OF assms(1)]] assms(3) by simp
  obtain r s' where r: "run_state (drv_Stat d p) s = (r, s')" by fastforce
  from Stat [OF assms(1) c r] assms(3) obtain st where st: "r = Inr (Some st)"
    "st_mode st AND sIFMT = sIFDIR \<longleftrightarrow> nd = DirNode" and s': "fsinv s'" "view s' = view s"
    by (auto simp: stat_agrees_def)
  have "p = ''/'' \<Longrightarrow> nd = DirNode" using tree_root [OF view_ok [OF assms(1)]] assms(3) by simp
  then show thesis
    using r st s' assms(2) by (intro that [of "infoFromStat h p st" s'])
      (auto simp: run_info infoFromStat_isDir)
qed

lemma info_absent:
  assumes "fsinv s" and "h_fs h = d" and "canonical p" and "view s p = None"
  obtains e s' where "run_state (info h p) s = (Inl e, s')" and "notFound e"
    and "fsinv s'" and "view s' = view s"
proof -
  obtain r s' where r: "run_state (drv_Stat d p) s = (r, s')" by fastforce
  from Stat [OF assms(1,3) r] assms(4) show thesis
    using that r assms(2) by (auto simp: stat_agrees_def run_info)
qed

end

section \<open>Drivers that say what is not there\<close>

text \<open>
  The laws of a driver whose calls on a path that does not exist fail and change nothing, and whose
  \<open>Rename\<close> of one fails with a not-found error.
\<close>

locale precise = filesystem d fsinv view
  for d :: "('s, 'f) driver" and fsinv :: "'s \<Rightarrow> bool" and view :: "'s \<Rightarrow> tree" +
  assumes ReadFile_absent: "fsinv s \<Longrightarrow> canonical p \<Longrightarrow> view s p = None \<Longrightarrow>
      run_state (drv_ReadFile d p) s = (c, s') \<Longrightarrow> fsinv s' \<and> view s' = view s \<and> isl c"
    and ListDir_absent: "fsinv s \<Longrightarrow> canonical p \<Longrightarrow> view s p = None \<Longrightarrow>
      run_state (drv_ListDir d p) s = (l, s') \<Longrightarrow> fsinv s' \<and> view s' = view s \<and> isl l"
    and OpenFile_absent: "fsinv s \<Longrightarrow> canonical p \<Longrightarrow> view s p = None \<Longrightarrow> drv_OpenFile d = Some opn \<Longrightarrow>
      run_state (opn p) s = (r, s') \<Longrightarrow> fsinv s' \<and> view s' = view s \<and> isl r"
    and Rename_absent: "fsinv s \<Longrightarrow> canonical p \<Longrightarrow> canonical q \<Longrightarrow> view s p = None \<Longrightarrow>
      run_state (drv_Rename d p q) s = (e, s') \<Longrightarrow>
      fsinv s' \<and> view s' = view s \<and> (\<exists>err. e = Some err \<and> notFound err)"

section \<open>Drivers whose files are written in place\<close>

text \<open>
  The laws of a driver that opens files (\<open>Opener\<close>) and writes into them (\<open>WritableFile\<close>):
  \<open>handle s f p\<close> says that \<open>f\<close> is open on the file at \<open>p\<close>. \<open>Copy\<close> is the contract of
  \<open>hostcopy.Range\<close> for a whole file into one already of its length.
\<close>

definition patch :: "nat \<Rightarrow> bytes \<Rightarrow> bytes \<Rightarrow> bytes" where
  "patch off c b = take off b @ c @ drop (off + length c) b"

definition resize :: "nat \<Rightarrow> bytes \<Rightarrow> bytes" where
  "resize n b = take n b @ replicate (n - length b) (CHR 0x00)"

locale positional = filesystem d fsinv view
  for d :: "('s, 'f) driver" and fsinv :: "'s \<Rightarrow> bool" and view :: "'s \<Rightarrow> tree" +
  fixes opn :: "path \<Rightarrow> ('s, go_error + 'f option) state" and handle :: "'s \<Rightarrow> 'f \<Rightarrow> path \<Rightarrow> bool"
  assumes opener: "drv_OpenFile d = Some opn"
    and Open: "fsinv s \<Longrightarrow> view s p = Some (FileNode b) \<Longrightarrow> run_state (opn p) s = (r, s') \<Longrightarrow>
      fsinv s' \<and> view s' = view s \<and>
      (\<exists>f. r = Inr (Some f) \<and> handle s' f p \<and> file_is_writable (drv_file d) f \<and>
        (\<forall>g q. handle s g q \<longrightarrow> handle s' g q))"
    and Write_other: "handle s f p \<Longrightarrow> p \<noteq> q \<Longrightarrow> run_state (drv_WriteFile d q c m) s = (e, s') \<Longrightarrow> handle s' f p"
    and Size: "fsinv s \<Longrightarrow> handle s f p \<Longrightarrow> view s p = Some (FileNode b) \<Longrightarrow>
      run_state (file_Size (drv_file d) f) s = (n, s') \<Longrightarrow>
      fsinv s' \<and> view s' = view s \<and> (\<forall>g q. handle s g q \<longrightarrow> handle s' g q) \<and> n = int (length b)"
    and Truncate: "fsinv s \<Longrightarrow> handle s f p \<Longrightarrow> view s p = Some (FileNode b) \<Longrightarrow> 0 \<le> n \<Longrightarrow>
      run_state (file_Truncate (drv_file d) f n) s = (e, s') \<Longrightarrow>
      fsinv s' \<and> view s' = (view s)(p \<mapsto> FileNode (resize (nat n) b)) \<and>
      (\<forall>g q. handle s g q \<longrightarrow> handle s' g q) \<and> e = None"
    and WriteAt: "fsinv s \<Longrightarrow> handle s f p \<Longrightarrow> view s p = Some (FileNode b) \<Longrightarrow> 0 \<le> off \<Longrightarrow>
      off + int (length c) \<le> int (length b) \<Longrightarrow> run_state (file_WriteAt (drv_file d) f c off) s = (res, s') \<Longrightarrow>
      fsinv s' \<and> view s' = (view s)(p \<mapsto> FileNode (patch (nat off) c b)) \<and>
      (\<forall>g q. handle s g q \<longrightarrow> handle s' g q) \<and> snd res = None"
    and Copy: "fsinv s \<Longrightarrow> handle s g q \<Longrightarrow> handle s f p \<Longrightarrow> p \<noteq> q \<Longrightarrow> view s p = Some (FileNode b) \<Longrightarrow>
      view s q = Some (FileNode c) \<Longrightarrow> length c = length b \<Longrightarrow>
      run_state (file_Range (drv_file d) g f 0 0 (int (length b))) s = (res, s') \<Longrightarrow>
      fsinv s' \<and> view s' = (view s)(q \<mapsto> FileNode b) \<and>
      (\<forall>g q. handle s g q \<longrightarrow> handle s' g q) \<and> res = (int (length b), None)"
    and Sync: "fsinv s \<Longrightarrow> handle s f p \<Longrightarrow> run_state (file_Sync (drv_file d) f) s = (e, s') \<Longrightarrow>
      fsinv s' \<and> view s' = view s \<and> (\<forall>g q. handle s g q \<longrightarrow> handle s' g q) \<and> e = None"
    and Close: "fsinv s \<Longrightarrow> handle s f p \<Longrightarrow> run_state (file_Close (drv_file d) f) s = (e, s') \<Longrightarrow>
      fsinv s' \<and> view s' = view s \<and> (\<forall>g q. handle s g q \<and> q \<noteq> p \<longrightarrow> handle s' g q) \<and> e = None"

lemma resize_length [simp]: "length (resize n b) = n"
  by (simp add: resize_def)

text \<open>Growing a file and writing the new bytes appends them.\<close>

lemma patch_resize: "patch (length b) c (resize (length b + length c) b) = b @ c"
  by (simp add: patch_def resize_def)

end
