(* ===== verification/TreeLaws.thy ===== *)
theory TreeLaws
  imports DriverLaws
begin

text \<open>
  Under the laws of a driver, \<open>removeTree\<close> removes exactly the subtree and \<open>copyTree\<close> makes
  exactly a copy of it, with no failures, given fuel for the height of the tree.
\<close>

section \<open>Cutting a tree\<close>

definition dot :: "string \<Rightarrow> bool" where
  "dot n \<longleftrightarrow> n = ''.'' \<or> n = ''..''"

lemma good_not_dot: "good_comp n \<Longrightarrow> \<not> dot n"
  by (auto simp: good_comp_def dot_def)

definition cut_members :: "path \<Rightarrow> string list \<Rightarrow> tree \<Rightarrow> tree" where
  "cut_members p ns v = (\<lambda>q. if \<exists>n \<in> set ns. \<not> dot n \<and> under (join p n) q then None else v q)"

lemma cut_members_Nil [simp]: "cut_members p [] v = v"
  by (simp add: cut_members_def)

lemma cut_members_dot: "dot n \<Longrightarrow> cut_members p (n # ns) v = cut_members p ns v"
  by (rule ext) (simp add: cut_members_def)

lemma cut_members_Cons: "\<not> dot n \<Longrightarrow> cut_members p ns (cut_tree (join p n) v) = cut_members p (n # ns) v"
  by (rule ext) (auto simp: cut_members_def cut_tree_def)

lemma cut_tree_Some: "cut_tree p v q \<noteq> None \<Longrightarrow> v q \<noteq> None"
  by (auto simp: cut_tree_def split: if_splits)

lemma join_not_under: "canonical p \<Longrightarrow> good_comp n \<Longrightarrow> \<not> under (join p n) p"
  by (simp add: under_iff_comps canonical_join comps_join prefix_def)

lemma join_not_root: "canonical p \<Longrightarrow> good_comp n \<Longrightarrow> join p n \<noteq> ''/''"
  using comps_eq_Nil [of "join p n"] by (simp add: canonical_join comps_join)

lemma cut_file:
  assumes "tree_ok v" and "v p = Some (FileNode b)"
  shows "v(p := None) = cut_tree p v"
proof
  fix q
  have "v q = None" if "strictlyUnder p q"
    using ancestor_is_dir [OF assms(1) _ _ that] tree_okD(1) [OF assms(1)] assms(2) by fastforce
  then show "(v(p := None)) q = cut_tree p v q"
    by (auto simp: cut_tree_def strictlyUnder_def)
qed

text \<open>All the members gone, only the directory itself is left of the subtree.\<close>

lemma cut_all_members:
  assumes "tree_ok v" and "v p = Some DirNode" and ns: "members v p \<subseteq> set ns"
  shows "(cut_members p ns v)(p := None) = cut_tree p v"
    and "members (cut_members p ns v) p = {}"
proof -
  have p: "canonical p" using tree_okD(1) [OF assms(1)] assms(2) by simp
  have gone: "cut_members p ns v q = None" if su: "strictlyUnder p q" for q
  proof (cases "v q = None")
    case True
    then show ?thesis by (simp add: cut_members_def)
  next
    case False
    note q = tree_okD(1) [OF assms(1) False]
    obtain n where n: "good_comp n" "under (join p n) q" "canonical (join p n)"
      by (rule through_member [OF p q su])
    have "v (join p n) \<noteq> None"
    proof (cases "join p n = q")
      case True
      then show ?thesis using False by simp
    next
      case ne: False
      then have "strictlyUnder (join p n) q" using n(2) by (auto simp: strictlyUnder_def)
      then show ?thesis using ancestor_is_dir [OF assms(1) False n(3)] by simp
    qed
    then have "n \<in> set ns" using n(1) ns by (auto simp: members_def)
    then show ?thesis using n(2) good_not_dot [OF n(1)] by (auto simp: cut_members_def)
  qed
  show "(cut_members p ns v)(p := None) = cut_tree p v"
  proof
    fix q
    show "((cut_members p ns v)(p := None)) q = cut_tree p v q"
    proof (cases "under p q")
      case True
      then show ?thesis using gone [of q] by (auto simp: cut_tree_def strictlyUnder_def)
    next
      case False
      have "\<not> under (join p n) q" for n
        using False canonical_NotNil [OF p]
        by (auto simp: under_def join_def has_prefix_iff append_eq_Cons_conv split: if_splits)
      then show ?thesis using False by (auto simp: cut_tree_def cut_members_def)
    qed
  qed
  have "strictlyUnder p (join p n)" if "good_comp n" for n
    using join_not_under [OF p that] under_join [of p n] by (auto simp: strictlyUnder_def)
  then show "members (cut_members p ns v) p = {}" using gone by (auto simp: members_def)
qed

section \<open>Removing a tree\<close>

lemma run_each_member:
  assumes "\<not> dot a" and "run_state (f a) s = (Some xs, s1)" and "run_state (each_member f ns) s1 = (Some ys, s2)"
  shows "run_state (each_member f (a # ns)) s = (Some (xs @ ys), s2)"
  using assms by (simp add: dot_def)

text \<open>What the removal of a directory needs of the removals of its members.\<close>

definition removes_trees :: "('s \<Rightarrow> bool) \<Rightarrow> ('s \<Rightarrow> tree) \<Rightarrow> ('s, 'f) handler \<Rightarrow> nat \<Rightarrow> bool" where
  "removes_trees fsinv view h n \<longleftrightarrow>
     (\<forall>s i nd. fsinv s \<and> view s (ri_path i) = Some nd \<and> (ri_isDir i \<longleftrightarrow> nd = DirNode) \<and> ri_path i \<noteq> ''/'' \<and>
        fits n (ri_path i) (view s) \<longrightarrow>
        (\<exists>s'. run_state (removeTree n h i) s = (Some [], s') \<and> fsinv s' \<and> view s' = cut_tree (ri_path i) (view s)))"

abbreviation remove_member ::
  "nat \<Rightarrow> ('s, 'f) handler \<Rightarrow> path \<Rightarrow> string \<Rightarrow> ('s, response list option) state" where
  "remove_member n h p \<equiv> \<lambda>nm. do {
     child \<leftarrow> info h (join p nm);
     case child of
       Inl err \<Rightarrow> State_Monad.return (Some [failed h (join p nm) False err])
     | Inr c \<Rightarrow> removeTree n h c }"

context filesystem
begin

lemma member_removed:
  assumes h: "h_fs h = d" and IH: "removes_trees fsinv view h n" and p: "canonical p"
    and a: "good_comp a" "view s (join p a) \<noteq> None" and s: "fsinv s" "fits (Suc n) p (view s)"
  obtains s' where "run_state (remove_member n h p a) s = (Some [], s')" "fsinv s'"
    "view s' = cut_tree (join p a) (view s)" "fits (Suc n) p (view s')"
proof -
  obtain nd where nd: "view s (join p a) = Some nd" using a(2) by blast
  obtain i s1 where i: "run_state (info h (join p a)) s = (Inr i, s1)" "ri_path i = join p a"
    "ri_isDir i \<longleftrightarrow> nd = DirNode" "fsinv s1" "view s1 = view s"
    by (rule info_present [OF s(1) h nd])
  have "fits n (join p a) (view s)" by (rule fits_member [OF s(2) p a(1) view_ok [OF s(1)]])
  then obtain s2 where s2: "run_state (removeTree n h i) s1 = (Some [], s2)" "fsinv s2"
    "view s2 = cut_tree (join p a) (view s)"
    using IH [unfolded removes_trees_def, rule_format, of s1 i nd] i nd join_not_root [OF p a(1)] by auto
  have "fits (Suc n) p (view s2)"
    by (rule fits_submap [OF s(2)])
       (use cut_tree_Some [of "join p a" "view s"] in \<open>simp add: s2(3) del: not_None_eq\<close>)
  then show ?thesis using that [of s2] i(1) s2 by simp
qed

lemma members_removed:
  assumes h: "h_fs h = d" and IH: "removes_trees fsinv view h n" and p: "canonical p"
    and ns: "distinct ns" "set ns \<subseteq> members (view s) p \<union> {''.'', ''..''}"
    and s: "fsinv s" "fits (Suc n) p (view s)"
  shows "\<exists>s'. run_state (each_member (remove_member n h p) ns) s = (Some [], s') \<and> fsinv s' \<and>
    view s' = cut_members p ns (view s)"
  using ns s
proof (induction ns arbitrary: s)
  case (Cons a ns)
  show ?case
  proof (cases "dot a")
    case True
    then show ?thesis
      using Cons.IH [of s] Cons.prems by (auto simp: dot_def cut_members_dot)
  next
    case False
    then have a: "good_comp a" "view s (join p a) \<noteq> None"
      using Cons.prems(2) by (auto simp: members_def dot_def)
    obtain s2 where s2: "run_state (remove_member n h p a) s = (Some [], s2)" "fsinv s2"
      "view s2 = cut_tree (join p a) (view s)" "fits (Suc n) p (view s2)"
      by (rule member_removed [OF h IH p a Cons.prems(3,4)])
    have keep: "view s2 (join p b) = view s (join p b)" if "b \<in> set ns" "good_comp b" for b
    proof -
      have "b \<noteq> a" using that(1) Cons.prems(1) by auto
      then have "\<not> under (join p a) (join p b)"
        using siblings_apart [OF p that(2) a(1) _ under_refl canonical_join [OF p that(2)]] by simp
      then show ?thesis by (simp add: s2(3) cut_tree_def)
    qed
    have "set ns \<subseteq> members (view s2) p \<union> {''.'', ''..''}"
      using Cons.prems(2) keep by (auto simp: members_def)
    then obtain s3 where s3: "run_state (each_member (remove_member n h p) ns) s2 = (Some [], s3)" "fsinv s3"
      "view s3 = cut_members p ns (view s2)"
      using Cons.IH [of s2] Cons.prems(1) s2(2,4) by auto
    have "run_state (each_member (remove_member n h p) (a # ns)) s = (Some [], s3)"
      using run_each_member [OF False s2(1) s3(1)] by simp
    moreover have "view s3 = cut_members p (a # ns) (view s)"
      using cut_members_Cons [OF False, of p ns "view s"] by (simp add: s2(3) s3(3))
    ultimately show ?thesis using s3(2) by blast
  qed
qed simp

lemma directory_removed:
  fixes i :: resourceInfo
  assumes h: "h_fs h = d" and IH: "removes_trees fsinv view h n"
    and s: "fsinv s" "view s p = Some DirNode" "fits (Suc n) p (view s)" and root: "p \<noteq> ''/''"
    and i: "ri_path i = p" "ri_isDir i"
  shows "\<exists>s'. run_state (removeTree (Suc n) h i) s = (Some [], s') \<and> fsinv s' \<and> view s' = cut_tree p (view s)"
proof -
  have ok: "tree_ok (view s)" by (rule view_ok [OF s(1)])
  have p: "canonical p" using tree_okD(1) [OF ok] s(2) by simp
  obtain r s1 where l: "run_state (drv_ListDir d p) s = (r, s1)" by fastforce
  then obtain ns where ns: "r = Inr ns" "distinct ns" "members (view s) p \<subseteq> set ns"
    "set ns \<subseteq> members (view s) p \<union> {''.'', ''..''}" and s1: "fsinv s1" "view s1 = view s"
    using ListDir [OF s(1,2) l] by (auto simp: listing_agrees_def)
  obtain s2 where s2: "run_state (each_member (remove_member n h p) ns) s1 = (Some [], s2)" "fsinv s2"
    "view s2 = cut_members p ns (view s)"
    using members_removed [OF h IH p ns(2), of s1] ns(4) s1 s(3) by auto
  obtain e s3 where e: "run_state (drv_DeleteDir d p) s2 = (e, s3)" by fastforce
  have "\<not> under (join p m) p" if "m \<in> set ns" "\<not> dot m" for m
    using join_not_under [OF p] that ns(4) by (auto simp: members_def dot_def)
  then have "view s2 p = Some DirNode" using s(2) by (auto simp: s2(3) cut_members_def)
  then have "fsinv s3 \<and> e = None \<and> view s3 = cut_tree p (view s)"
    using DeleteDir [OF s2(2) _ root _ e] cut_all_members [OF ok s(2) ns(3)] by (simp add: s2(3))
  then show ?thesis using l s2(1) e i by (simp add: h ns(1))
qed

lemma removes_trees_all:
  assumes h: "h_fs h = d"
  shows "removes_trees fsinv view h n"
proof (induction n)
  case 0
  then show ?case by (auto simp: removes_trees_def fits_def)
next
  case (Suc n)
  show ?case
    unfolding removes_trees_def
  proof (intro allI impI, elim conjE)
    fix s nd and i :: resourceInfo
    assume s: "fsinv s" "view s (ri_path i) = Some nd" "ri_isDir i = (nd = DirNode)" "ri_path i \<noteq> ''/''"
      "fits (Suc n) (ri_path i) (view s)"
    let ?p = "ri_path i"
    show "\<exists>s'. run_state (removeTree (Suc n) h i) s = (Some [], s') \<and> fsinv s' \<and> view s' = cut_tree ?p (view s)"
    proof (cases nd)
      case (FileNode b)
      obtain e s' where e: "run_state (drv_DeleteFile d ?p) s = (e, s')" by fastforce
      then show ?thesis
        using DeleteFile [OF s(1) _ e] s(2,3) FileNode cut_file [OF view_ok [OF s(1)]] by (auto simp: h)
    next
      case DirNode
      then show ?thesis using directory_removed [OF h Suc s(1) _ s(5,4) refl] s(2,3) by simp
    qed
  qed
qed

lemma removeTree_correct:
  assumes "h_fs h = d"
  shows "fsinv s \<Longrightarrow> view s (ri_path i) = Some nd \<Longrightarrow> (ri_isDir i \<longleftrightarrow> nd = DirNode) \<Longrightarrow>
    ri_path i \<noteq> ''/'' \<Longrightarrow> fits n (ri_path i) (view s) \<Longrightarrow>
    \<exists>s'. run_state (removeTree n h i) s = (Some [], s') \<and> fsinv s' \<and>
      view s' = cut_tree (ri_path i) (view s)"
  using removes_trees_all [OF assms, of n] unfolding removes_trees_def by blast

end

section \<open>Copying a tree\<close>

text \<open>The path below \<open>src\<close> that \<open>q\<close> is below \<open>dst\<close>, and the tree with \<open>src\<close> copied to \<open>dst\<close>.\<close>

definition rebase :: "path \<Rightarrow> path \<Rightarrow> path \<Rightarrow> path" where
  "rebase src dst q = path_of (comps src @ drop (length (comps dst)) (comps q))"

definition graft :: "path \<Rightarrow> path \<Rightarrow> tree \<Rightarrow> tree" where
  "graft src dst v = (\<lambda>q. if canonical q \<and> under dst q then v (rebase src dst q) else v q)"

definition apart :: "path \<Rightarrow> path \<Rightarrow> bool" where
  "apart p q \<longleftrightarrow> \<not> under p q \<and> \<not> under q p"

definition graft_members :: "path \<Rightarrow> path \<Rightarrow> string list \<Rightarrow> tree \<Rightarrow> tree" where
  "graft_members src dst ns v =
     (\<lambda>q. if canonical q \<and> (\<exists>n \<in> set ns. \<not> dot n \<and> under (join dst n) q)
          then v (rebase src dst q) else v q)"

lemma graft_members_Nil [simp]: "graft_members src dst [] v = v"
  by (simp add: graft_members_def)

lemma graft_members_dot: "dot n \<Longrightarrow> graft_members src dst (n # ns) v = graft_members src dst ns v"
  by (rule ext) (simp add: graft_members_def)

lemma rebase_facts:
  assumes "canonical src" and "canonical q"
  shows "comps (rebase src dst q) = comps src @ drop (length (comps dst)) (comps q)"
    and "canonical (rebase src dst q)" and "under src (rebase src dst q)"
proof -
  have g: "\<forall>c \<in> set (comps src @ drop (length (comps dst)) (comps q)). good_comp c"
    using assms by (auto simp: canonical_def dest: in_set_dropD)
  then show c: "comps (rebase src dst q) = comps src @ drop (length (comps dst)) (comps q)"
    unfolding rebase_def by (rule comps_path_of)
  show k: "canonical (rebase src dst q)" using g unfolding rebase_def by (rule canonical_path_of)
  show "under src (rebase src dst q)" using assms(1) k by (simp add: under_iff_comps c)
qed

lemma rebase_self: "canonical src \<Longrightarrow> rebase src dst dst = src"
  using path_of_comps [of src] by (simp add: rebase_def canonical_def)

lemma rebase_member:
  assumes "canonical src" and "canonical dst" and "good_comp n" and "canonical q" and "under (join dst n) q"
  shows "rebase (join src n) (join dst n) q = rebase src dst q" and "under (join src n) (rebase src dst q)"
proof -
  have "prefix (comps dst @ [n]) (comps q)"
    using assms by (simp add: under_iff_comps canonical_join comps_join)
  then obtain t where "comps q = comps dst @ n # t" by (auto simp: prefix_def)
  then show r: "rebase (join src n) (join dst n) q = rebase src dst q"
    using assms(1-3) by (simp add: rebase_def comps_join)
  show "under (join src n) (rebase src dst q)"
    using rebase_facts(3) [OF canonical_join [OF assms(1,3)] assms(4), of "join dst n"] by (simp add: r)
qed

lemma apart_below:
  assumes "apart p q" and "canonical p" and "canonical q" and "canonical r" and "under p r"
  shows "\<not> under q r"
  using tree.le_chain [OF assms(2,3,4) assms(5)] assms(1) by (auto simp: apart_def)

lemma apart_join:
  assumes "apart src dst" and "canonical src" and "canonical dst" and "good_comp n"
  shows "apart (join src n) (join dst n)"
proof -
  have s: "canonical (join src n)" and d: "canonical (join dst n)"
    using assms canonical_join by blast+
  show ?thesis
    unfolding apart_def
  proof
    show "\<not> under (join src n) (join dst n)"
      using apart_below [OF assms(1-3) d] tree.le_trans [OF assms(2) s d under_join] under_join by blast
    show "\<not> under (join dst n) (join src n)"
      using apart_below [OF assms(1-3) s under_join] tree.le_trans [OF assms(3) d s under_join] by blast
  qed
qed

text \<open>A path that is absent has nothing below it.\<close>

lemma absent_below:
  assumes "tree_ok v" and "v p = None" and "canonical p" and "under p q"
  shows "v q = None"
proof (rule ccontr)
  assume q: "v q \<noteq> None"
  then have "strictlyUnder p q" using assms(2,4) by (auto simp: strictlyUnder_def)
  from ancestor_is_dir [OF assms(1) q assms(3) this] assms(2) show False by simp
qed

lemma graft_members_Cons:
  assumes "canonical src" and "canonical dst" and "apart src dst" and "good_comp a"
    and "a \<notin> set ns" and "\<forall>n \<in> set ns. dot n \<or> good_comp n"
  shows "graft_members src dst ns (graft (join src a) (join dst a) v) = graft_members src dst (a # ns) v"
proof
  fix q
  have ja: "canonical (join dst a)" by (rule canonical_join [OF assms(2,4)])
  show "graft_members src dst ns (graft (join src a) (join dst a) v) q = graft_members src dst (a # ns) v q"
  proof (cases "canonical q \<and> (\<exists>n \<in> set ns. \<not> dot n \<and> under (join dst n) q)")
    case True
    then obtain n where n: "n \<in> set ns" "good_comp n" "under (join dst n) q" "canonical q"
      using assms(6) by blast
    have r: "canonical (rebase src dst q)" "under src (rebase src dst q)"
      using rebase_facts [OF assms(1) n(4)] by blast+
    have "\<not> under (join dst a) (rebase src dst q)"
      using apart_below [OF assms(3,1,2) r] tree.le_trans [OF assms(2) ja r(1) under_join] by blast
    then show ?thesis using True by (auto simp: graft_members_def graft_def)
  next
    case False
    then show ?thesis
      using good_not_dot [OF assms(4)] rebase_member(1) [OF assms(1,2,4)]
      by (auto simp: graft_members_def graft_def)
  qed
qed

text \<open>All the members copied, the copy of the directory is complete.\<close>

lemma graft_all_members:
  assumes "tree_ok v" and "canonical src" and "canonical dst" and "apart src dst"
    and "v src = Some DirNode" and "v dst = None" and "members v src \<subseteq> set ns"
    and "\<forall>n \<in> set ns. dot n \<or> good_comp n"
  shows "graft_members src dst ns (v(dst \<mapsto> DirNode)) = graft src dst v"
proof
  fix q
  show "graft_members src dst ns (v(dst \<mapsto> DirNode)) q = graft src dst v q"
  proof (cases "canonical q \<and> under dst q")
    case False
    have "\<not> under (join dst n) q" if "canonical q" "good_comp n" for n
      using False that tree.le_trans [OF assms(3) canonical_join [OF assms(3) that(2)] that(1) under_join]
      by blast
    moreover have "q \<noteq> dst" using False assms(3) by auto
    ultimately show ?thesis using False assms(8) by (auto simp: graft_members_def graft_def)
  next
    case True
    then have q: "canonical q" "under dst q" by auto
    note r = rebase_facts(2,3) [OF assms(2) q(1), of dst]
    have ne: "rebase src dst q \<noteq> dst" using r assms(4) by (auto simp: apart_def)
    show ?thesis
    proof (cases "q = dst")
      case True
      have "\<not> under (join dst n) dst" if "n \<in> set ns" "\<not> dot n" for n
        using join_not_under [OF assms(3)] assms(8) that by blast
      then show ?thesis using True q assms(5) rebase_self [OF assms(2)]
        by (auto simp: graft_members_def graft_def)
    next
      case False
      then have "strictlyUnder dst q" using q(2) by (simp add: strictlyUnder_def)
      then obtain n where n: "good_comp n" "under (join dst n) q"
        using through_member [OF assms(3) q(1)] by metis
      show ?thesis
      proof (cases "n \<in> set ns")
        case True
        then show ?thesis using n q ne good_not_dot [OF n(1)] by (auto simp: graft_members_def graft_def)
      next
        case out: False
        have vq: "v q = None" by (rule absent_below [OF assms(1,6,3) q(2)])
        have "v (join src n) = None" using out n(1) assms(7) by (auto simp: members_def)
        then have "v (rebase src dst q) = None"
          using absent_below [OF assms(1) _ canonical_join [OF assms(2) n(1)]]
            rebase_member(2) [OF assms(2,3) n(1) q(1) n(2)] by blast
        then show ?thesis using vq ne False q by (simp add: graft_members_def graft_def)
      qed
    qed
  qed
qed

text \<open>What the copy of a tree needs of the copy of a file.\<close>

definition copies_files :: "('s \<Rightarrow> bool) \<Rightarrow> ('s \<Rightarrow> tree) \<Rightarrow> ('s, 'f) handler \<Rightarrow> bool" where
  "copies_files fsinv view h \<longleftrightarrow>
     (\<forall>s src dst b. fsinv s \<and> view s src = Some (FileNode b) \<and> canonical dst \<and> dst \<noteq> ''/'' \<and>
        view s (parentOf dst) = Some DirNode \<and> view s dst = None \<longrightarrow>
        (\<exists>s'. run_state (copyFile h src dst) s = (None, s') \<and> fsinv s' \<and>
           view s' = (view s)(dst \<mapsto> FileNode b)))"

text \<open>What the copy of a directory needs of the copies of its members.\<close>

definition copies_trees :: "('s \<Rightarrow> bool) \<Rightarrow> ('s \<Rightarrow> tree) \<Rightarrow> ('s, 'f) handler \<Rightarrow> nat \<Rightarrow> bool" where
  "copies_trees fsinv view h n \<longleftrightarrow>
     (\<forall>s i nd t. fsinv s \<and> view s (ri_path i) = Some nd \<and> (ri_isDir i \<longleftrightarrow> nd = DirNode) \<and> canonical t \<and>
        view s t = None \<and> view s (parentOf t) = Some DirNode \<and> apart (ri_path i) t \<and> fits n (ri_path i) (view s) \<longrightarrow>
        (\<exists>s'. run_state (copyTree n h i t True) s = (Some [], s') \<and> fsinv s' \<and>
           view s' = graft (ri_path i) t (view s)))"

abbreviation copy_member ::
  "nat \<Rightarrow> ('s, 'f) handler \<Rightarrow> path \<Rightarrow> path \<Rightarrow> string \<Rightarrow> ('s, response list option) state" where
  "copy_member n h src dst \<equiv> \<lambda>nm. do {
     child \<leftarrow> info h (join src nm);
     case child of
       Inl err \<Rightarrow> State_Monad.return (Some [failed h (join dst nm) False err])
     | Inr c \<Rightarrow> copyTree n h c (join dst nm) True }"

lemma fits_same:
  assumes "fits n src v" and "tree_ok v'" and "\<And>q. canonical q \<Longrightarrow> under src q \<Longrightarrow> v' q \<noteq> None \<Longrightarrow> v q \<noteq> None"
  shows "fits n src v'"
  unfolding fits_def
proof (intro allI impI)
  fix q assume q: "v' q \<noteq> None \<and> under src q"
  then have "v q \<noteq> None" using assms(3) [of q] tree_okD(1) [OF assms(2)] by blast
  then show "length (comps q) < length (comps src) + n" using assms(1) q by (simp add: fits_def)
qed

context filesystem
begin

lemma copy_whole_correct:
  assumes "h_fs h = d" and "fsinv s" and "view s src = Some (FileNode b)" and "canonical dst"
    and "dst \<noteq> ''/''" and "view s (parentOf dst) = Some DirNode" and "view s dst \<noteq> Some DirNode"
  shows "\<exists>s'. run_state (copy_whole h src dst) s = (None, s') \<and> fsinv s' \<and>
    view s' = (view s)(dst \<mapsto> FileNode b)"
proof -
  obtain r s1 where r: "run_state (drv_ReadFile d src) s = (r, s1)" by fastforce
  from ReadFile [OF assms(2,3) r] have s1: "fsinv s1" "view s1 = view s" "r = Inr b" by auto
  obtain e s2 where e: "run_state (drv_WriteFile d dst b defaultFilePerm) s1 = (e, s2)" by fastforce
  from WriteFile [OF s1(1) assms(4,5) _ _ e] assms(6,7) s1 r e show ?thesis
    by (auto simp: copy_whole_def assms(1))
qed

lemma graft_file:
  assumes "tree_ok v" and "canonical dst" and "v dst = None" and "canonical src"
    and "v src = Some (FileNode b)" and "apart src dst"
  shows "v(dst \<mapsto> FileNode b) = graft src dst v"
proof
  fix q
  show "(v(dst \<mapsto> FileNode b)) q = graft src dst v q"
  proof (cases "canonical q \<and> under dst q")
    case False
    then show ?thesis using assms(2) by (auto simp: graft_def)
  next
    case True
    show ?thesis
    proof (cases "q = dst")
      case True
      then show ?thesis using assms by (auto simp: graft_def rebase_self)
    next
      case False
      have vq: "v q = None" by (rule absent_below [OF assms(1,3,2)]) (use True in simp)
      have q: "canonical q" "strictlyUnder dst q" using True False by (auto simp: strictlyUnder_def)
      note r = rebase_facts [OF assms(4) q(1), of dst]
      obtain n where "comps (rebase src dst q) = comps src @ n" "n \<noteq> []"
        using q r(1) assms(2) by (auto simp: strictlyUnder_def under_iff_comps prefix_def canonical_eq_iff)
      then have "rebase src dst q \<noteq> src" by auto
      then have "strictlyUnder src (rebase src dst q)" using r(3) by (simp add: strictlyUnder_def)
      then have "v (rebase src dst q) = None"
        using ancestor_is_dir [OF assms(1) _ assms(4)] assms(5) by fastforce
      then show ?thesis using vq True False by (simp add: graft_def)
    qed
  qed
qed

text \<open>One member is copied: its tree is grafted, and nothing outside the copy has changed.\<close>

lemma member_copied:
  assumes h: "h_fs h = d" and IH: "copies_trees fsinv view h n"
    and p: "canonical src" "canonical dst" "apart src dst"
    and a: "good_comp a" "view s (join src a) \<noteq> None" "view s (join dst a) = None"
    and s: "fsinv s" "fits (Suc n) src (view s)" "view s dst = Some DirNode"
  obtains s' where "run_state (copy_member n h src dst a) s = (Some [], s')" "fsinv s'"
    "view s' = graft (join src a) (join dst a) (view s)"
    "\<forall>q. canonical q \<and> under src q \<longrightarrow> view s' q = view s q" "fits (Suc n) src (view s')"
proof -
  obtain nd where nd: "view s (join src a) = Some nd" using a(2) by blast
  obtain i s1 where i: "run_state (info h (join src a)) s = (Inr i, s1)" "ri_path i = join src a"
    "ri_isDir i \<longleftrightarrow> nd = DirNode" "fsinv s1" "view s1 = view s"
    by (rule info_present [OF s(1) h nd])
  have ja: "canonical (join dst a)" by (rule canonical_join [OF p(2) a(1)])
  have "view s1 (ri_path i) = Some nd" "view s1 (join dst a) = None" using nd a(3) by (simp_all add: i(2,5))
  moreover have "view s1 (parentOf (join dst a)) = Some DirNode"
    using s(3) by (simp add: i(5) parentOf_join [OF p(2) a(1)])
  moreover have "apart (ri_path i) (join dst a)" using apart_join [OF p(3,1,2) a(1)] by (simp add: i(2))
  moreover have "fits n (ri_path i) (view s1)"
    using fits_member [OF s(2) p(1) a(1) view_ok [OF s(1)]] by (simp add: i(2,5))
  ultimately obtain s2 where s2: "run_state (copyTree n h i (join dst a) True) s1 = (Some [], s2)" "fsinv s2"
    "view s2 = graft (join src a) (join dst a) (view s)"
    using IH [unfolded copies_trees_def, rule_format, of s1 i nd "join dst a"] i(3,4) ja by (auto simp: i(2,5))
  have same: "view s2 q = view s q" if "canonical q" "under src q" for q
    using apart_below [OF p(3,1,2) that] tree.le_trans [OF p(2) ja that(1) under_join]
    by (auto simp: s2(3) graft_def)
  have "fits (Suc n) src (view s2)"
    by (rule fits_same [OF s(2) view_ok [OF s2(2)]]) (use same in simp)
  then show ?thesis using that [of s2] i(1) s2 same by simp
qed

lemma members_copied:
  assumes h: "h_fs h = d" and IH: "copies_trees fsinv view h n"
    and p: "canonical src" "canonical dst" "apart src dst"
    and ns: "distinct ns" "set ns \<subseteq> members (view s) src \<union> {''.'', ''..''}"
    and s: "fsinv s" "fits (Suc n) src (view s)" "view s dst = Some DirNode"
    and free: "\<And>m. m \<in> set ns \<Longrightarrow> \<not> dot m \<Longrightarrow> view s (join dst m) = None"
  shows "\<exists>s'. run_state (each_member (copy_member n h src dst) ns) s = (Some [], s') \<and> fsinv s' \<and>
    view s' = graft_members src dst ns (view s)"
  using ns s free
proof (induction ns arbitrary: s)
  case (Cons a ns)
  have rest: "\<forall>m \<in> set ns. dot m \<or> good_comp m"
    using Cons.prems(2) by (auto simp: members_def dot_def)
  show ?case
  proof (cases "dot a")
    case True
    then show ?thesis
      using Cons.IH [of s] Cons.prems by (auto simp: dot_def graft_members_dot)
  next
    case False
    then have a: "good_comp a" "view s (join src a) \<noteq> None" "view s (join dst a) = None"
      using Cons.prems(2,6) by (auto simp: members_def dot_def)
    obtain s2 where s2: "run_state (copy_member n h src dst a) s = (Some [], s2)" "fsinv s2"
      "view s2 = graft (join src a) (join dst a) (view s)"
      and all_same: "\<forall>q. canonical q \<and> under src q \<longrightarrow> view s2 q = view s q" and fit: "fits (Suc n) src (view s2)"
      by (rule member_copied [OF h IH p a Cons.prems(3-5)])
    have src_same: "view s2 q = view s q" if "canonical q" "under src q" for q using all_same that by blast
    have same: "view s2 q = view s q" if "\<not> under (join dst a) q" for q
      using that by (simp add: s2(3) graft_def)
    have "set ns \<subseteq> members (view s2) src \<union> {''.'', ''..''}"
      using Cons.prems(2) src_same [OF canonical_join [OF p(1)] under_join] by (auto simp: members_def)
    moreover have "view s2 dst = Some DirNode"
      using same [OF join_not_under [OF p(2) a(1)]] Cons.prems(5) by simp
    moreover have "view s2 (join dst m) = None" if m: "m \<in> set ns" "\<not> dot m" for m
    proof -
      have gm: "good_comp m" and ne: "m \<noteq> a" using m rest Cons.prems(1) by auto
      have "\<not> under (join dst a) (join dst m)"
        using siblings_apart [OF p(2) gm a(1) ne under_refl canonical_join [OF p(2) gm]] .
      then show ?thesis using same Cons.prems(6) [of m] m by simp
    qed
    ultimately obtain s3 where s3: "run_state (each_member (copy_member n h src dst) ns) s2 = (Some [], s3)" "fsinv s3"
      "view s3 = graft_members src dst ns (view s2)"
      using Cons.IH [of s2] Cons.prems(1) s2(2) fit by auto
    have "run_state (each_member (copy_member n h src dst) (a # ns)) s = (Some [], s3)"
      using run_each_member [OF False s2(1) s3(1)] by simp
    moreover have "view s3 = graft_members src dst (a # ns) (view s)"
      using Cons.prems(1) graft_members_Cons [OF p(1,2,3) a(1) _ rest, of "view s"] by (simp add: s2(3) s3(3))
    ultimately show ?thesis using s3(2) by blast
  qed
qed simp

lemma directory_copied:
  fixes i :: resourceInfo
  assumes h: "h_fs h = d" and IH: "copies_trees fsinv view h n"
    and s: "fsinv s" "view s src = Some DirNode" "fits (Suc n) src (view s)"
    and t: "canonical t" "view s t = None" "view s (parentOf t) = Some DirNode" "apart src t"
    and i: "ri_path i = src" "ri_isDir i"
  shows "\<exists>s'. run_state (copyTree (Suc n) h i t True) s = (Some [], s') \<and> fsinv s' \<and>
    view s' = graft src t (view s)"
proof -
  have ok: "tree_ok (view s)" by (rule view_ok [OF s(1)])
  have p: "canonical src" using tree_okD(1) [OF ok] s(2) by simp
  obtain e s1 where e: "run_state (drv_MkDir d t defaultDirPerm) s = (e, s1)" by fastforce
  from MkDir [OF s(1) t(1,3,2) e] have s1: "fsinv s1" "e = None" "view s1 = (view s)(t \<mapsto> DirNode)" by auto
  have below: "\<not> under t q" if "canonical q" "under src q" for q
    by (rule apart_below [OF t(4) p t(1) that])
  have same: "view s1 q = view s q" if "canonical q" "under src q" for q
    using below [OF that] by (auto simp: s1(3))
  have dir: "view s1 src = Some DirNode" using same [OF p] s(2) by simp
  obtain r s2 where l: "run_state (drv_ListDir d src) s1 = (r, s2)" by fastforce
  then obtain ns where ns: "r = Inr ns" "distinct ns" "members (view s1) src \<subseteq> set ns"
    "set ns \<subseteq> members (view s1) src \<union> {''.'', ''..''}" and s2: "fsinv s2" "view s2 = view s1"
    using ListDir [OF s1(1) dir l] by (auto simp: listing_agrees_def)
  have rest: "\<forall>m \<in> set ns. dot m \<or> good_comp m" using ns(4) by (auto simp: members_def dot_def)
  have "fits (Suc n) src (view s2)"
    by (rule fits_same [OF s(3) view_ok [OF s2(1)]]) (use same s2(2) in simp)
  moreover have "view s2 (join t m) = None" if "m \<in> set ns" "\<not> dot m" for m
  proof -
    have "good_comp m" using that rest by blast
    then have "under t (join t m)" "join t m \<noteq> t"
      using under_join join_not_under [OF t(1)] by (auto, metis under_refl)
    then show ?thesis using absent_below [OF ok t(2,1)] by (simp add: s2(2) s1(3))
  qed
  ultimately obtain s3 where s3: "run_state (each_member (copy_member n h src t) ns) s2 = (Some [], s3)" "fsinv s3"
    "view s3 = graft_members src t ns ((view s)(t \<mapsto> DirNode))"
    using members_copied [OF h IH p t(1,4) ns(2), of s2] ns(4) s2 s1(3) by auto
  have "members (view s) src \<subseteq> set ns"
    using ns(3) same [OF canonical_join [OF p] under_join] by (auto simp: members_def)
  then have "view s3 = graft src t (view s)"
    using graft_all_members [OF ok p t(1,4) s(2) t(2) _ rest] by (simp add: s3(3))
  then show ?thesis
    using i e l s3(1,2) by (simp add: h s1(2) ns(1))
qed

lemma copies_trees_all:
  assumes h: "h_fs h = d" and files: "copies_files fsinv view h"
  shows "copies_trees fsinv view h n"
proof (induction n)
  case 0
  then show ?case by (auto simp: copies_trees_def fits_def)
next
  case (Suc n)
  show ?case
    unfolding copies_trees_def
  proof (intro allI impI, elim conjE)
    fix s nd t and i :: resourceInfo
    assume s: "fsinv s" "view s (ri_path i) = Some nd" "ri_isDir i = (nd = DirNode)" "canonical t" "view s t = None"
      "view s (parentOf t) = Some DirNode" "apart (ri_path i) t" "fits (Suc n) (ri_path i) (view s)"
    let ?p = "ri_path i"
    have ok: "tree_ok (view s)" by (rule view_ok [OF s(1)])
    have p: "canonical ?p" using tree_okD(1) [OF ok] s(2) by simp
    have troot: "t \<noteq> ''/''" using tree_root [OF ok] s(5) by auto
    show "\<exists>s'. run_state (copyTree (Suc n) h i t True) s = (Some [], s') \<and> fsinv s' \<and> view s' = graft ?p t (view s)"
    proof (cases nd)
      case (FileNode b)
      then have b: "view s ?p = Some (FileNode b)" using s(2) by simp
      obtain s' where "run_state (copyFile h ?p t) s = (None, s')" "fsinv s'"
        "view s' = (view s)(t \<mapsto> FileNode b)"
        using files b s(1,4,5,6) troot unfolding copies_files_def by blast
      then show ?thesis
        using s(3) FileNode graft_file [OF ok s(4,5) p b s(7)] by auto
    next
      case DirNode
      then show ?thesis
        using directory_copied [OF h Suc s(1) _ s(8) s(4-7) refl] s(2,3) by simp
    qed
  qed
qed

lemma copies_whole:
  assumes "h_fs h = d" and "drv_OpenFile d = None"
  shows "copies_files fsinv view h"
  unfolding copies_files_def copyFile_def assms option.case
  using copy_whole_correct [OF assms(1)] by auto

lemma copyTree_correct:
  assumes "h_fs h = d" and "copies_files fsinv view h"
  shows "fsinv s \<Longrightarrow> view s (ri_path i) = Some nd \<Longrightarrow> (ri_isDir i \<longleftrightarrow> nd = DirNode) \<Longrightarrow>
    canonical t \<Longrightarrow> view s t = None \<Longrightarrow> view s (parentOf t) = Some DirNode \<Longrightarrow> apart (ri_path i) t \<Longrightarrow>
    fits n (ri_path i) (view s) \<Longrightarrow>
    \<exists>s'. run_state (copyTree n h i t True) s = (Some [], s') \<and> fsinv s' \<and>
      view s' = graft (ri_path i) t (view s)"
  using copies_trees_all [OF assms, of n] unfolding copies_trees_def by blast

end

section \<open>Copying what is no longer there\<close>

context precise
begin

lemma copy_absent_file:
  assumes h: "h_fs h = d" and "fsinv s" and "canonical p" and "view s p = None"
  shows "\<exists>err s'. run_state (copyFile h p t) s = (Some err, s') \<and> fsinv s' \<and> view s' = view s"
proof (cases "drv_OpenFile d")
  case None
  obtain c s' where c: "run_state (drv_ReadFile d p) s = (c, s')" by fastforce
  from ReadFile_absent [OF assms(2-4) c] c None show ?thesis
    by (auto simp: copyFile_def copy_whole_def h isl_def)
next
  case (Some opn)
  obtain r s' where r: "run_state (opn p) s = (r, s')" by fastforce
  from OpenFile_absent [OF assms(2-4) Some r] r Some show ?thesis
    by (auto simp: copyFile_def h isl_def)
qed

text \<open>A copy of a tree that has gone: an empty collection is made for a collection, and no file.\<close>

lemma copy_absent:
  assumes h: "h_fs h = d" and "fsinv s" and "canonical (ri_path i)" and "view s (ri_path i) = None"
    and "canonical t" and "view s t = None" and "view s (parentOf t) = Some DirNode" and "ri_path i \<noteq> t"
  shows "\<exists>fs s'. run_state (copyTree (Suc n) h i t deep) s = (Some fs, s') \<and> fsinv s' \<and>
    (fs = [] \<longleftrightarrow> ri_isDir i \<and> \<not> deep) \<and> view s' = (if ri_isDir i then (view s)(t \<mapsto> DirNode) else view s)"
proof (cases "ri_isDir i")
  case False
  then show ?thesis using copy_absent_file [OF assms(1-4), of t] by auto
next
  case True
  obtain e s1 where e: "run_state (drv_MkDir d t defaultDirPerm) s = (e, s1)" by fastforce
  from MkDir [OF assms(2,5,7,6) e] have s1: "fsinv s1" "e = None" "view s1 = (view s)(t \<mapsto> DirNode)" by auto
  obtain l s2 where l: "run_state (drv_ListDir d (ri_path i)) s1 = (l, s2)" by fastforce
  from ListDir_absent [OF s1(1) assms(3) _ l] assms(4,8) s1(3) have "fsinv s2" "view s2 = view s1" "isl l" by auto
  then show ?thesis using True e l s1 by (auto simp: h isl_def)
qed

end

section \<open>Copying between open files\<close>

context positional
begin

lemma copy_range_correct:
  assumes "fsinv s" and g: "handle s g q" and f: "handle s f p" and "p \<noteq> q"
    and "view s p = Some (FileNode b)" and "view s q = Some (FileNode c)"
  shows "\<exists>s'. run_state (copy_range (drv_file d) g f) s = (None, s') \<and> fsinv s' \<and>
    view s' = (view s)(q \<mapsto> FileNode b) \<and> handle s' f p"
proof -
  obtain n s1 where n: "run_state (file_Size (drv_file d) f) s = (n, s1)" by fastforce
  from Size [OF assms(1) f assms(5) n] g f have s1: "fsinv s1" "view s1 = view s" "handle s1 g q" "handle s1 f p"
    "n = int (length b)" by auto
  obtain e s2 where e: "run_state (file_Truncate (drv_file d) g n) s1 = (e, s2)" by fastforce
  from Truncate [OF s1(1,3) _ _ e] assms(6) s1 have s2: "fsinv s2" "e = None" "handle s2 g q" "handle s2 f p"
    "view s2 = (view s)(q \<mapsto> FileNode (resize (length b) c))" by auto
  obtain res s3 where r: "run_state (file_Range (drv_file d) g f 0 0 (int (length b))) s2 = (res, s3)" by fastforce
  from Copy [OF s2(1,3,4) assms(4) _ _ _ r] assms(4,5) s2 have s3: "fsinv s3" "handle s3 g q" "handle s3 f p"
    "res = (int (length b), None)" "view s3 = (view s)(q \<mapsto> FileNode b)" by auto
  obtain e' s4 where e': "run_state (file_Sync (drv_file d) g) s3 = (e', s4)" by fastforce
  from Sync [OF s3(1,2) e'] s3 have s4: "fsinv s4" "view s4 = view s3" "handle s4 g q" "handle s4 f p" "e' = None"
    by auto
  obtain e'' s5 where e'': "run_state (file_Close (drv_file d) g) s4 = (e'', s5)" by fastforce
  from Close [OF s4(1,3) e''] s4 assms(4) have "fsinv s5" "view s5 = view s4" "handle s5 f p" "e'' = None" by auto
  then show ?thesis
    using n e r e' e'' s1(5) s2(2) s3(4,5) s4(2,5) by (simp add: copy_range_def)
qed

lemma copies_opened:
  assumes h: "h_fs h = d"
  shows "copies_files fsinv view h"
  unfolding copies_files_def
proof (intro allI impI, elim conjE)
  fix s src dst b
  assume s: "fsinv s" "view s src = Some (FileNode b)" and dst: "canonical dst" "dst \<noteq> ''/''"
    "view s (parentOf dst) = Some DirNode" "view s dst = None"
  have ne: "src \<noteq> dst" using s(2) dst(4) by auto
  obtain r s1 where r: "run_state (opn src) s = (r, s1)" by fastforce
  from Open [OF s r] obtain f where f: "r = Inr (Some f)" "handle s1 f src" and s1: "fsinv s1" "view s1 = view s"
    by auto
  obtain e s2 where e: "run_state (drv_WriteFile d dst [] defaultFilePerm) s1 = (e, s2)" by fastforce
  from WriteFile [OF s1(1) dst(1,2) _ _ e] dst s1(2) have s2: "fsinv s2" "e = None"
    "view s2 = (view s)(dst \<mapsto> FileNode [])" by auto
  have f2: "handle s2 f src" by (rule Write_other [OF f(2) ne e])
  obtain r' s3 where r': "run_state (opn dst) s2 = (r', s3)" by fastforce
  from Open [OF s2(1) _ r'] s2(3) f2 obtain g where g: "r' = Inr (Some g)" "handle s3 g dst"
    "file_is_writable (drv_file d) g" and s3: "fsinv s3" "view s3 = view s2" "handle s3 f src"
    by fastforce
  obtain s4 where s4: "run_state (copy_range (drv_file d) g f) s3 = (None, s4)" "fsinv s4"
    "view s4 = (view s)(dst \<mapsto> FileNode b)" "handle s4 f src"
    using copy_range_correct [OF s3(1) g(2) s3(3) ne, of b "[]"] s(2) ne by (auto simp: s3(2) s2(3))
  obtain e' s5 where e': "run_state (file_Close (drv_file d) f) s4 = (e', s5)" by fastforce
  from Close [OF s4(2,4) e'] have "fsinv s5" "view s5 = view s4" by auto
  then show "\<exists>s'. run_state (copyFile h src dst) s = (None, s') \<and> fsinv s' \<and> view s' = (view s)(dst \<mapsto> FileNode b)"
    using r e r' s4(1,3) e' f(1) s2(2) g(1,3) by (simp add: copyFile_def copy_opened_def h opener)
qed

end

end
