(* ===== verification/MemFs.thy ===== *)
theory MemFs
  imports TreeLaws Guarantees "HOL-Library.List_Lexorder"
begin

text \<open>
  The in-memory driver the repository tests the server with (\<open>memfs_test.go\<close>): \<open>memFS\<close>, and
  \<open>writeFS\<close> with its files that can be written in place. A map from paths to nodes, the nodes
  shared with the open files, and the errors a test injects. It satisfies the laws of a driver,
  so they are not empty, and every handler theorem can be evaluated on it.
\<close>

section \<open>The driver\<close>

record memNode =
  mn_mode :: "16 word"
  mn_data :: bytes

record memFS =
  mf_nodes :: "(path \<times> nat) list"
  mf_heap :: "memNode list"
  mf_fail :: "(string \<times> go_error) list"

definition mem_check :: "memFS \<Rightarrow> string \<Rightarrow> path \<Rightarrow> go_error option" where
  "mem_check m opn p = map_of (mf_fail m) (opn @ '':'' @ p)"

definition mem_node :: "memFS \<Rightarrow> path \<Rightarrow> go_error + nat" where
  "mem_node m p = (case map_of (mf_nodes m) p of
       None \<Rightarrow> Inl (plain_error (''memfs: '' @ p @ '' not found''))
     | Some r \<Rightarrow> Inr r)"

definition mem_is_dir :: "memNode \<Rightarrow> bool" where
  "mem_is_dir n \<longleftrightarrow> mn_mode n AND sIFMT = sIFDIR"

text \<open>Each call: the injected error, then the node, then the work. The first two change nothing.\<close>

definition mem_call ::
  "string \<Rightarrow> path \<Rightarrow> (go_error \<Rightarrow> 'a) \<Rightarrow> (memFS \<Rightarrow> 'a \<times> memFS) \<Rightarrow> (memFS, 'a) state" where
  "mem_call opn p bad f = State (\<lambda>m. case mem_check m opn p of Some e \<Rightarrow> (bad e, m) | None \<Rightarrow> f m)"

definition mem_Stat :: "path \<Rightarrow> (memFS, go_error + fstat option) state" where
  "mem_Stat p = mem_call ''Stat'' p Inl (\<lambda>m. (case mem_node m p of
       Inl e \<Rightarrow> Inl e
     | Inr r \<Rightarrow>
         if mem_check m ''NilStat'' p \<noteq> None then Inr None
         else Inr (Some \<lparr>st_mode = mn_mode (mf_heap m ! r),
           st_size = of_nat (length (mn_data (mf_heap m ! r))), st_mtime = None\<rparr>), m))"

definition mem_ReadFile :: "path \<Rightarrow> (memFS, go_error + bytes) state" where
  "mem_ReadFile p = mem_call ''ReadFile'' p Inl (\<lambda>m. (case mem_node m p of
       Inl e \<Rightarrow> Inl e
     | Inr r \<Rightarrow>
         if mem_is_dir (mf_heap m ! r) then Inl (plain_error ''memfs: is a directory'')
         else Inr (mn_data (mf_heap m ! r)), m))"

definition mem_names :: "memFS \<Rightarrow> path \<Rightarrow> string list" where
  "mem_names m p =
     (let pfx = (if p = ''/'' then p else p @ ''/'')
      in sort (map (\<lambda>e. drop (length pfx) (fst e))
           (filter (\<lambda>e. fst e \<noteq> p \<and> has_prefix (fst e) pfx \<and>
              \<not> contains (drop (length pfx) (fst e)) ''/'') (mf_nodes m))))"

definition mem_ListDir :: "path \<Rightarrow> (memFS, go_error + string list) state" where
  "mem_ListDir p = mem_call ''ListDir'' p Inl (\<lambda>m. (case mem_node m p of
       Inl e \<Rightarrow> Inl e
     | Inr r \<Rightarrow>
         if \<not> mem_is_dir (mf_heap m ! r) then Inl (plain_error ''memfs: not a directory'')
         else Inr (''.'' # ''..'' # mem_names m p), m))"

definition mem_add :: "path \<Rightarrow> memNode \<Rightarrow> memFS \<Rightarrow> memFS" where
  "mem_add p n m = m\<lparr>mf_nodes := AList.update p (length (mf_heap m)) (mf_nodes m),
     mf_heap := mf_heap m @ [n]\<rparr>"

definition mem_set :: "nat \<Rightarrow> bytes \<Rightarrow> memFS \<Rightarrow> memFS" where
  "mem_set r b m = m\<lparr>mf_heap := (mf_heap m)[r := (mf_heap m ! r)\<lparr>mn_data := b\<rparr>]\<rparr>"

definition mem_perm :: "16 word \<Rightarrow> nat \<Rightarrow> 16 word" where
  "mem_perm kind perm = kind OR (of_nat perm AND 0xFFF)"

definition mem_WriteFile :: "path \<Rightarrow> bytes \<Rightarrow> nat \<Rightarrow> (memFS, go_error option) state" where
  "mem_WriteFile p b perm = mem_call ''WriteFile'' p Some (\<lambda>m. (None,
     case map_of (mf_nodes m) p of
       Some r \<Rightarrow> mem_set r b m
     | None \<Rightarrow> mem_add p \<lparr>mn_mode = mem_perm 0x8000 perm, mn_data = b\<rparr> m))"

definition mem_MkDir :: "path \<Rightarrow> nat \<Rightarrow> (memFS, go_error option) state" where
  "mem_MkDir p perm = mem_call ''MkDir'' p Some (\<lambda>m.
     (None, mem_add p \<lparr>mn_mode = mem_perm sIFDIR perm, mn_data = []\<rparr> m))"

definition mem_drop :: "path \<Rightarrow> memFS \<Rightarrow> memFS" where
  "mem_drop p m = m\<lparr>mf_nodes := AList.delete p (mf_nodes m)\<rparr>"

definition mem_DeleteFile :: "path \<Rightarrow> (memFS, go_error option) state" where
  "mem_DeleteFile p = mem_call ''DeleteFile'' p Some (\<lambda>m. (None, mem_drop p m))"

definition mem_DeleteDir :: "path \<Rightarrow> (memFS, go_error option) state" where
  "mem_DeleteDir p = mem_call ''DeleteDir'' p Some (\<lambda>m. (None, mem_drop p m))"

definition mem_Rename :: "path \<Rightarrow> path \<Rightarrow> (memFS, go_error option) state" where
  "mem_Rename p q = mem_call ''Rename'' p Some (\<lambda>m. case mem_node m p of
       Inl e \<Rightarrow> (Some e, m)
     | Inr r \<Rightarrow> (None, m\<lparr>mf_nodes := AList.update q r (AList.delete p (mf_nodes m))\<rparr>))"

section \<open>Its open files\<close>

definition mem_OpenFile :: "path \<Rightarrow> (memFS, go_error + nat option) state" where
  "mem_OpenFile p = State (\<lambda>m. (case mem_node m p of
       Inl e \<Rightarrow> Inl e
     | Inr r \<Rightarrow>
         if mem_is_dir (mf_heap m ! r) then Inl (plain_error ''memfs: is a directory'') else Inr (Some r), m))"

definition mem_data :: "nat \<Rightarrow> memFS \<Rightarrow> bytes" where
  "mem_data r m = mn_data (mf_heap m ! r)"

definition mem_ReadAt :: "nat \<Rightarrow> int \<Rightarrow> int \<Rightarrow> (memFS, bytes \<times> go_error option) state" where
  "mem_ReadAt r n off = gets (\<lambda>m.
     if off \<ge> int (length (mem_data r m)) then ([], Some (plain_error ''EOF''))
     else (let b = take (nat n) (drop (nat off) (mem_data r m))
           in (b, if int (length b) < n then Some (plain_error ''EOF'') else None)))"

definition mem_WriteAt :: "nat \<Rightarrow> bytes \<Rightarrow> int \<Rightarrow> (memFS, int \<times> go_error option) state" where
  "mem_WriteAt r b off = State (\<lambda>m.
     if off + int (length b) > int (length (mem_data r m))
     then ((0, Some (plain_error ''memfs: write past the end of the file'')), m)
     else ((int (length b), None),
       mem_set r (take (nat off) (mem_data r m) @ b @ drop (nat off + length b) (mem_data r m)) m))"

definition mem_Truncate :: "nat \<Rightarrow> int \<Rightarrow> (memFS, go_error option) state" where
  "mem_Truncate r len = State (\<lambda>m.
     if len < 0 then (Some (plain_error ''memfs: negative size''), m)
     else (None, mem_set r (take (nat len) (mem_data r m) @
       replicate (nat len - length (mem_data r m)) (CHR 0x00)) m))"

text \<open>A copy of a range between two open files, as far as the source goes.\<close>

definition mem_Range :: "nat \<Rightarrow> nat \<Rightarrow> int \<Rightarrow> int \<Rightarrow> int \<Rightarrow> (memFS, int \<times> go_error option) state" where
  "mem_Range dst src doff soff len = do {
     res \<leftarrow> mem_ReadAt src len soff;
     mem_WriteAt dst (fst res) doff
   }"

definition mem_files :: "(memFS, nat) file_ops" where
  "mem_files = \<lparr>file_Size = (\<lambda>r. gets (\<lambda>m. int (length (mem_data r m)))),
     file_ReadAt = mem_ReadAt, file_Close = (\<lambda>r. State_Monad.return None),
     file_is_host = (\<lambda>r. False), file_is_writable = (\<lambda>r. True), file_WriteAt = mem_WriteAt,
     file_Truncate = mem_Truncate, file_Sync = (\<lambda>r. State_Monad.return None), file_Range = mem_Range\<rparr>"

definition mem_driver :: "bool \<Rightarrow> (memFS, nat) driver" where
  "mem_driver opens =
     \<lparr>drv_Stat = mem_Stat, drv_ReadFile = mem_ReadFile, drv_ListDir = mem_ListDir,
      drv_WriteFile = mem_WriteFile, drv_MkDir = mem_MkDir, drv_DeleteFile = mem_DeleteFile,
      drv_DeleteDir = mem_DeleteDir, drv_Rename = mem_Rename,
      drv_OpenFile = (if opens then Some mem_OpenFile else None), drv_file = mem_files\<rparr>"

section \<open>Its state as a tree\<close>

definition mem_view :: "memFS \<Rightarrow> tree" where
  "mem_view m p = (case map_of (mf_nodes m) p of
       None \<Rightarrow> None
     | Some r \<Rightarrow> Some (if mem_is_dir (mf_heap m ! r) then DirNode else FileNode (mn_data (mf_heap m ! r))))"

definition mem_inv :: "memFS \<Rightarrow> bool" where
  "mem_inv m \<longleftrightarrow> tree_ok (mem_view m) \<and> distinct (map fst (mf_nodes m)) \<and>
     (\<forall>p r. map_of (mf_nodes m) p = Some r \<longrightarrow> r < length (mf_heap m)) \<and>
     (\<forall>p q r. map_of (mf_nodes m) p = Some r \<and> map_of (mf_nodes m) q = Some r \<longrightarrow> p = q) \<and>
     mf_fail m = []"

lemma mem_invD:
  assumes "mem_inv m"
  shows "tree_ok (mem_view m)" and "distinct (map fst (mf_nodes m))" and "mf_fail m = []"
    and "map_of (mf_nodes m) p = Some r \<Longrightarrow> r < length (mf_heap m)"
    and "map_of (mf_nodes m) p = Some r \<Longrightarrow> map_of (mf_nodes m) q = Some r \<Longrightarrow> p = q"
  using assms unfolding mem_inv_def by blast+

lemma mem_invI:
  assumes "tree_ok (mem_view m)" and "distinct (map fst (mf_nodes m))"
    and "\<And>p r. map_of (mf_nodes m) p = Some r \<Longrightarrow> r < length (mf_heap m)"
    and "\<And>p q r. map_of (mf_nodes m) p = Some r \<Longrightarrow> map_of (mf_nodes m) q = Some r \<Longrightarrow> p = q"
    and "mf_fail m = []"
  shows "mem_inv m"
  using assms unfolding mem_inv_def by blast

lemma run_mem_call [simp]:
  "mf_fail m = [] \<Longrightarrow> run_state (mem_call opn p bad f) m = f m"
  by (simp add: mem_call_def mem_check_def)

lemma mem_perm_dir [simp]: "mem_perm sIFDIR perm AND sIFMT = sIFDIR"
proof -
  have "(of_nat perm AND 0xFFF :: 16 word) AND 0xF000 = 0"
    by (simp add: and.assoc)
  then show ?thesis by (simp add: mem_perm_def sIFDIR_def sIFMT_def word_ao_dist)
qed

lemma mem_perm_file [simp]: "mem_perm 0x8000 perm AND sIFMT \<noteq> sIFDIR"
proof -
  have "(of_nat perm AND 0xFFF :: 16 word) AND 0xF000 = 0"
    by (simp add: and.assoc)
  then show ?thesis by (simp add: mem_perm_def sIFDIR_def sIFMT_def word_ao_dist)
qed

section \<open>Trees under change\<close>

lemma tree_okI:
  "v ''/'' = Some DirNode \<Longrightarrow> (\<And>p. v p \<noteq> None \<Longrightarrow> canonical p) \<Longrightarrow>
   (\<And>p. v p \<noteq> None \<Longrightarrow> v (parentOf p) = Some DirNode) \<Longrightarrow> tree_ok v"
  by (simp add: tree_ok_def)

lemma not_parent: "tree_ok v \<Longrightarrow> v p \<noteq> Some DirNode \<Longrightarrow> v q \<noteq> None \<Longrightarrow> parentOf q \<noteq> p"
  using tree_okD(2) [of v q] by auto

lemma tree_ok_write:
  assumes "tree_ok v" and "canonical p" and "v (parentOf p) = Some DirNode" and "v p \<noteq> Some DirNode"
  shows "tree_ok (v(p \<mapsto> FileNode b))"
proof (rule tree_okI)
  show "(v(p \<mapsto> FileNode b)) ''/'' = Some DirNode"
    using assms(4) tree_root [OF assms(1)] by auto
  fix q assume q: "(v(p \<mapsto> FileNode b)) q \<noteq> None"
  then show "canonical q" using tree_okD(1) [OF assms(1), of q] assms(2) by (auto split: if_splits)
  have "parentOf q \<noteq> p"
  proof (cases "q = p")
    case True
    then show ?thesis using assms(3,4) by auto
  next
    case False
    then show ?thesis using not_parent [OF assms(1,4), of q] q by simp
  qed
  then show "(v(p \<mapsto> FileNode b)) (parentOf q) = Some DirNode"
    using q assms(3) tree_okD(2) [OF assms(1), of q] by (auto split: if_splits)
qed

lemma tree_ok_mkdir:
  assumes "tree_ok v" and "canonical p" and "v (parentOf p) = Some DirNode" and "v p = None"
  shows "tree_ok (v(p \<mapsto> DirNode))"
  using assms unfolding tree_ok_def by auto

lemma tree_ok_unlink:
  assumes "tree_ok v" and "v p = Some (FileNode b)"
  shows "tree_ok (v(p := None))"
proof (rule tree_okI)
  show "(v(p := None)) ''/'' = Some DirNode" using assms(2) tree_root [OF assms(1)] by auto
  fix q assume "(v(p := None)) q \<noteq> None"
  then have q: "q \<noteq> p" "v q \<noteq> None" by (simp_all split: if_splits)
  show "canonical q" by (rule tree_okD(1) [OF assms(1) q(2)])
  show "(v(p := None)) (parentOf q) = Some DirNode"
    using tree_okD(2) [OF assms(1) q(2)] not_parent [OF assms(1) _ q(2), of p] assms(2) by simp
qed

lemma child_is_member:
  assumes "canonical q" and "q \<noteq> ''/''"
  obtains n where "good_comp n" and "q = join (parentOf q) n"
proof -
  have ne: "comps q \<noteq> []" using assms by (simp add: comps_eq_Nil)
  define n where "n = last (comps q)"
  have c: "comps q = comps (parentOf q) @ [n]"
    using ne by (simp add: comps_parentOf [OF assms(1)] n_def)
  have g: "good_comp n" using assms(1) ne by (simp add: canonical_def n_def)
  have "comps (join (parentOf q) n) = comps q"
    using c comps_join [OF canonical_parentOf [OF assms(1)] g] by simp
  then have "q = join (parentOf q) n"
    using canonical_eq_iff [OF assms(1) canonical_join [OF canonical_parentOf [OF assms(1)] g]] by simp
  then show thesis using that g by blast
qed

lemma tree_ok_rmdir:
  assumes "tree_ok v" and "v p = Some DirNode" and "p \<noteq> ''/''" and "members v p = {}"
  shows "tree_ok (v(p := None))"
proof -
  have "parentOf q \<noteq> p" if "v q \<noteq> None" "q \<noteq> p" for q
  proof
    assume q: "parentOf q = p"
    have c: "canonical q" using tree_okD(1) [OF assms(1) that(1)] .
    have "q \<noteq> ''/''" using q assms(3) by auto
    then obtain n where "good_comp n" "q = join p n" using child_is_member [OF c] q by metis
    then show False using assms(4) that(1) by (auto simp: members_def)
  qed
  then show ?thesis
    using assms(3) tree_root [OF assms(1)] tree_okD [OF assms(1)] by (intro tree_okI) (auto split: if_splits)
qed

section \<open>The laws hold\<close>

lemma mem_view_set:
  assumes "mem_inv m" and "map_of (mf_nodes m) p = Some r" and "mem_view m p \<noteq> Some DirNode"
  shows "mem_view (mem_set r b m) = (mem_view m)(p \<mapsto> FileNode b)"
proof
  fix q
  have r: "r < length (mf_heap m)" by (rule mem_invD(4) [OF assms(1,2)])
  have ndir: "\<not> mem_is_dir (mf_heap m ! r)" using assms(2,3) by (auto simp: mem_view_def split: if_splits)
  show "mem_view (mem_set r b m) q = ((mem_view m)(p \<mapsto> FileNode b)) q"
  proof (cases "map_of (mf_nodes m) q")
    case None
    then show ?thesis using assms(2) by (auto simp: mem_view_def mem_set_def)
  next
    case (Some r')
    have "r' = r \<longleftrightarrow> q = p" using mem_invD(5) [OF assms(1), of q r p] Some assms(2) by auto
    then show ?thesis using Some r ndir
      by (auto simp: mem_view_def mem_set_def mem_is_dir_def nth_list_update)
  qed
qed

lemma mem_inv_set:
  assumes "mem_inv m" and "map_of (mf_nodes m) p = Some r" and "mem_view m p \<noteq> Some DirNode"
  shows "mem_inv (mem_set r b m)"
proof -
  have c: "canonical p" "mem_view m (parentOf p) = Some DirNode"
    using tree_okD [OF mem_invD(1) [OF assms(1)], of p] assms(2) by (auto simp: mem_view_def)
  have "tree_ok (mem_view (mem_set r b m))"
    unfolding mem_view_set [OF assms] by (rule tree_ok_write [OF mem_invD(1) [OF assms(1)] c assms(3)])
  then show ?thesis using assms(1) by (simp add: mem_inv_def mem_set_def)
qed

lemma mem_view_add:
  assumes "mem_inv m"
  shows "mem_view (mem_add p n m) =
    (mem_view m)(p \<mapsto> if mem_is_dir n then DirNode else FileNode (mn_data n))"
proof
  fix q
  show "mem_view (mem_add p n m) q =
    ((mem_view m)(p \<mapsto> if mem_is_dir n then DirNode else FileNode (mn_data n))) q"
    using mem_invD(4) [OF assms, of q]
    by (cases "map_of (mf_nodes m) q") (auto simp: mem_view_def mem_add_def update_conv' nth_append)
qed

lemma mem_inv_add:
  assumes "mem_inv m" and "tree_ok ((mem_view m)(p \<mapsto> if mem_is_dir n then DirNode else FileNode (mn_data n)))"
  shows "mem_inv (mem_add p n m)"
proof (rule mem_invI)
  have new: "map_of (mf_nodes m) q \<noteq> Some (length (mf_heap m))" for q
    using mem_invD(4) [OF assms(1), of q] by auto
  show "r < length (mf_heap (mem_add p n m))" if "map_of (mf_nodes (mem_add p n m)) q = Some r" for q r
    using that mem_invD(4) [OF assms(1), of q r] by (auto simp: mem_add_def update_conv' split: if_splits)
  show "q = q'" if "map_of (mf_nodes (mem_add p n m)) q = Some r"
    "map_of (mf_nodes (mem_add p n m)) q' = Some r" for q q' r
    using that new [of q] new [of q'] mem_invD(5) [OF assms(1), of q r q']
    by (auto simp: mem_add_def update_conv' split: if_splits)
  show "distinct (map fst (mf_nodes (mem_add p n m)))"
    using mem_invD(2) [OF assms(1)] by (simp add: mem_add_def distinct_update)
  show "tree_ok (mem_view (mem_add p n m))"
    unfolding mem_view_add [OF assms(1)] by (rule assms(2))
  show "mf_fail (mem_add p n m) = []" using mem_invD(3) [OF assms(1)] by (simp add: mem_add_def)
qed

lemma mem_view_drop: "mem_view (mem_drop p m) = (mem_view m)(p := None)"
  by (rule ext) (simp add: mem_view_def mem_drop_def AList.delete_conv' split: option.split)

lemma mem_inv_drop:
  assumes "mem_inv m" and "tree_ok ((mem_view m)(p := None))"
  shows "mem_inv (mem_drop p m)"
proof (rule mem_invI)
  show "r < length (mf_heap (mem_drop p m))" if "map_of (mf_nodes (mem_drop p m)) q = Some r" for q r
    using that mem_invD(4) [OF assms(1), of q r]
    by (auto simp: mem_drop_def AList.delete_conv' split: if_splits)
  show "q = q'" if "map_of (mf_nodes (mem_drop p m)) q = Some r"
    "map_of (mf_nodes (mem_drop p m)) q' = Some r" for q q' r
    using that mem_invD(5) [OF assms(1), of q r q']
    by (auto simp: mem_drop_def AList.delete_conv' split: if_splits)
  show "distinct (map fst (mf_nodes (mem_drop p m)))"
    using mem_invD(2) [OF assms(1)] by (simp add: mem_drop_def AList.distinct_delete)
  show "tree_ok (mem_view (mem_drop p m))" unfolding mem_view_drop by (rule assms(2))
  show "mf_fail (mem_drop p m) = []" using mem_invD(3) [OF assms(1)] by (simp add: mem_drop_def)
qed

lemma contains_slash: "contains s [c] \<longleftrightarrow> c \<in> set s"
  by (induction s) auto

text \<open>A key of the map below \<open>p\<close> with no further slash is a member of \<open>p\<close>.\<close>

lemma direct_child:
  assumes "canonical p" and "canonical q" and "q \<noteq> p"
    and "q = (if p = ''/'' then p else p @ ''/'') @ n" and "CHR ''/'' \<notin> set n"
  shows "good_comp n" and "q = join p n"
proof -
  show "q = join p n" using assms(4) by (simp add: join_def)
  have "comps q = comps p @ [n]"
  proof (cases "p = ''/''")
    case True
    then show ?thesis using assms(3-5) by (simp add: comps_def split_on_word)
  next
    case False
    then obtain p' where "p = CHR ''/'' # p'" using assms(1) by (auto simp: canonical_def has_prefix_iff)
    then have "comps q = split_on CHR ''/'' (p' @ CHR ''/'' # n)" and "comps p = split_on CHR ''/'' p'"
      using assms(3,4) False by (simp_all add: comps_def)
    then show ?thesis using assms(5) by (simp add: split_on_append_sep split_on_word)
  qed
  then show "good_comp n" using assms(2) by (simp add: canonical_def)
qed

lemma mem_view_None: "mem_view m p = None \<longleftrightarrow> p \<notin> fst ` set (mf_nodes m)"
  using map_of_eq_None_iff [of "mf_nodes m" p] by (auto simp: mem_view_def split: option.split)

lemma set_mem_names:
  assumes "mem_inv m" and "canonical p"
  shows "set (mem_names m p) = members (mem_view m) p"
proof (intro set_eqI iffI)
  fix n
  define pfx where "pfx = (if p = ''/'' then p else p @ ''/'')"
  assume "n \<in> set (mem_names m p)"
  then obtain q where q: "q \<in> fst ` set (mf_nodes m)" "q \<noteq> p" "has_prefix q pfx" "n = drop (length pfx) q"
    "CHR ''/'' \<notin> set n"
    by (auto simp: mem_names_def Let_def contains_slash pfx_def)
  have v: "mem_view m q \<noteq> None" using q(1) by (simp add: mem_view_None)
  have c: "canonical q" by (rule tree_okD(1) [OF mem_invD(1) [OF assms(1)] v])
  have "q = (if p = ''/'' then p else p @ ''/'') @ n" using q(3,4) by (auto simp: has_prefix_iff pfx_def)
  from direct_child [OF assms(2) c q(2) this q(5)] v
  show "n \<in> members (mem_view m) p" by (simp add: members_def)
next
  fix n assume "n \<in> members (mem_view m) p"
  then have g: "good_comp n" and v: "mem_view m (join p n) \<noteq> None" by (simp_all add: members_def)
  have "comps (join p n) \<noteq> comps p" by (simp add: comps_join [OF assms(2) g])
  then have ne: "join p n \<noteq> p" by metis
  have "CHR ''/'' \<notin> set n" using g by (simp add: good_comp_def)
  then have "join p n \<in> fst ` {e \<in> set (mf_nodes m). fst e \<noteq> p \<and>
      has_prefix (fst e) (if p = ''/'' then p else p @ ''/'') \<and>
      \<not> contains (drop (length (if p = ''/'' then p else p @ ''/'')) (fst e)) ''/''}"
    using v ne by (auto simp: mem_view_None join_def has_prefix_iff contains_slash image_iff)
  moreover have "n = drop (length (if p = ''/'' then p else p @ ''/'')) (join p n)" by (simp add: join_def)
  ultimately show "n \<in> set (mem_names m p)"
    unfolding mem_names_def Let_def set_sort set_map set_filter by (force simp: image_iff)
qed

lemma distinct_mem_names:
  assumes "mem_inv m"
  shows "distinct (mem_names m p)"
proof -
  define pfx where "pfx = (if p = ''/'' then p else p @ ''/'')"
  have "distinct (map (\<lambda>e. drop (length pfx) (fst e)) (filter (\<lambda>e. has_prefix (fst e) pfx \<and> P e) xs))"
    if "distinct (map fst xs)" for P xs
    using that
  proof (induction xs)
    case (Cons x xs)
    have "drop (length pfx) (fst x) \<noteq> drop (length pfx) (fst y)"
      if "y \<in> set xs" "has_prefix (fst x) pfx" "has_prefix (fst y) pfx" for y
      using that Cons.prems by (force simp: has_prefix_iff image_iff)
    with Cons show ?case by auto
  qed simp
  from this [OF mem_invD(2) [OF assms],
      of "\<lambda>e. fst e \<noteq> p \<and> \<not> contains (drop (length pfx) (fst e)) ''/''"]
  show ?thesis by (simp add: mem_names_def Let_def pfx_def conj_ac)
qed

lemma mem_missing: "notFound (plain_error (''memfs: '' @ p @ '' not found''))"
proof -
  have "to_lower ((''memfs: '' @ p) @ '' not found'') = to_lower (''memfs: '' @ p) @ '' not found''"
    unfolding to_lower_def by (subst map_runes_split) (simp_all add: lower_char_def is_upper_def)
  then have "contains (to_lower (''memfs: '' @ p @ '' not found'')) ''not found''"
    by (auto simp: contains_iff intro: exI [of _ "to_lower (''memfs: '' @ p) @ '' ''"])
  then show ?thesis
    by (simp add: notFound_def statusFor_def plain_error_def substringStatus_def)
qed

lemma mem_node_cases:
  obtains (missing) e where "mem_node m p = Inl e" "notFound e" "mem_view m p = None"
      "map_of (mf_nodes m) p = None"
  | (present) r where "mem_node m p = Inr r" "map_of (mf_nodes m) p = Some r"
      "mem_view m p = Some (if mem_is_dir (mf_heap m ! r) then DirNode else FileNode (mn_data (mf_heap m ! r)))"
  by (cases "map_of (mf_nodes m) p") (auto simp only: mem_node_def mem_view_def option.case mem_missing)

lemma run_mem_Stat:
  assumes "mem_inv m"
  shows "\<exists>r. run_state (mem_Stat p) m = (r, m) \<and> stat_agrees (mem_view m p) r"
  using mem_invD(3) [OF assms]
  by (cases rule: mem_node_cases [of m p])
     (auto simp: mem_Stat_def mem_check_def stat_agrees_def mem_is_dir_def)

lemma run_mem_WriteFile:
  assumes "mem_inv m" and "canonical p" and "mem_view m (parentOf p) = Some DirNode" and "mem_view m p \<noteq> Some DirNode"
    and "run_state (mem_WriteFile p b perm) m = (e, m')"
  shows "mem_inv m' \<and> e = None \<and> mem_view m' = (mem_view m)(p \<mapsto> FileNode b)"
proof (cases "map_of (mf_nodes m) p")
  case None
  have nd: "\<not> mem_is_dir \<lparr>mn_mode = mem_perm 0x8000 perm, mn_data = b\<rparr>" by (simp add: mem_is_dir_def)
  have m': "m' = mem_add p \<lparr>mn_mode = mem_perm 0x8000 perm, mn_data = b\<rparr> m" and e: "e = None"
    using assms(5) None mem_invD(3) [OF assms(1)] by (simp_all add: mem_WriteFile_def)
  have v: "mem_view m' = (mem_view m)(p \<mapsto> FileNode b)"
    unfolding m' mem_view_add [OF assms(1)] using nd by simp
  have "mem_inv m'" unfolding m'
    by (rule mem_inv_add [OF assms(1)]) (use nd tree_ok_write [OF mem_invD(1) [OF assms(1)] assms(2-4)] in simp)
  then show ?thesis using e v by simp
next
  case (Some r)
  have m': "m' = mem_set r b m" and e: "e = None"
    using assms(5) Some mem_invD(3) [OF assms(1)] by (simp_all add: mem_WriteFile_def)
  show ?thesis using e mem_view_set [OF assms(1) Some assms(4)] mem_inv_set [OF assms(1) Some assms(4)]
    by (simp add: m')
qed

lemma run_mem_MkDir:
  assumes "mem_inv m" and "canonical p" and "mem_view m (parentOf p) = Some DirNode" and "mem_view m p = None"
    and "run_state (mem_MkDir p perm) m = (e, m')"
  shows "mem_inv m' \<and> e = None \<and> mem_view m' = (mem_view m)(p \<mapsto> DirNode)"
proof -
  have d: "mem_is_dir \<lparr>mn_mode = mem_perm sIFDIR perm, mn_data = []\<rparr>" by (simp add: mem_is_dir_def)
  have m': "m' = mem_add p \<lparr>mn_mode = mem_perm sIFDIR perm, mn_data = []\<rparr> m" and e: "e = None"
    using assms(5) mem_invD(3) [OF assms(1)] by (simp_all add: mem_MkDir_def)
  have v: "mem_view m' = (mem_view m)(p \<mapsto> DirNode)"
    unfolding m' mem_view_add [OF assms(1)] using d by simp
  have "mem_inv m'" unfolding m'
    by (rule mem_inv_add [OF assms(1)]) (use d tree_ok_mkdir [OF mem_invD(1) [OF assms(1)] assms(2-4)] in simp)
  then show ?thesis using e v by simp
qed

lemma run_mem_Rename:
  assumes "mem_inv m" and "mem_view m p = Some (FileNode b)" and "canonical q" and "mem_view m q = None"
    and "mem_view m (parentOf q) = Some DirNode"
    and "run_state (mem_Rename p q) m = (e, m')"
  shows "mem_inv m' \<and> e = None \<and> mem_view m' = (mem_view m)(p := None, q \<mapsto> FileNode b)"
proof -
  obtain r where r: "map_of (mf_nodes m) p = Some r" "\<not> mem_is_dir (mf_heap m ! r)" "mn_data (mf_heap m ! r) = b"
    using assms(2) by (cases rule: mem_node_cases [of m p]) (auto split: if_splits)
  have m': "m' = m\<lparr>mf_nodes := AList.update q r (AList.delete p (mf_nodes m))\<rparr>" and e: "e = None"
    using assms(6) r(1) mem_invD(3) [OF assms(1)] by (simp_all add: mem_Rename_def mem_node_def)
  have look: "map_of (mf_nodes m') x = (if x = q then Some r else if x = p then None else map_of (mf_nodes m) x)" for x
    by (simp add: m' update_conv' AList.delete_conv')
  have heap: "mf_heap m' = mf_heap m" by (simp add: m')
  have v: "mem_view m' = (mem_view m)(p := None, q \<mapsto> FileNode b)"
    by (rule ext) (simp add: mem_view_def look heap r(2,3) split: option.split)
  have qp: "q \<noteq> p" using assms(2,4) by auto
  have t1: "tree_ok ((mem_view m)(p := None))" by (rule tree_ok_unlink [OF mem_invD(1) [OF assms(1)] assms(2)])
  have "parentOf q \<noteq> p" using assms(2,5) by auto
  then have t2: "tree_ok ((mem_view m)(p := None, q \<mapsto> FileNode b))"
    by (intro tree_ok_write [OF t1 assms(3)]) (use assms(4,5) qp in auto)
  have "mem_inv m'"
  proof (rule mem_invI)
    show "s < length (mf_heap m')" if "map_of (mf_nodes m') x = Some s" for x s
      using that mem_invD(4) [OF assms(1), of x s] mem_invD(4) [OF assms(1) r(1)]
      by (auto simp: look heap split: if_splits)
    have old: "map_of (mf_nodes m) x = Some s" "x \<noteq> p" if "map_of (mf_nodes m') x = Some s" "x \<noteq> q" for x s
      using that by (simp_all add: look split: if_splits)
    have new: "s = r" if "map_of (mf_nodes m') q = Some s" for s using that by (simp add: look)
    show "x = y" if "map_of (mf_nodes m') x = Some s" "map_of (mf_nodes m') y = Some s" for x y s
    proof (cases "x = q"; cases "y = q")
      assume "x = q" "y \<noteq> q"
      then show ?thesis using that new [of s] old [of y s] mem_invD(5) [OF assms(1) r(1), of y] by simp
    next
      assume "x \<noteq> q" "y = q"
      then show ?thesis using that new [of s] old [of x s] mem_invD(5) [OF assms(1) r(1), of x] by simp
    next
      assume "x \<noteq> q" "y \<noteq> q"
      then show ?thesis using old [of x s] old [of y s] that mem_invD(5) [OF assms(1), of x s y] by simp
    qed simp
    show "distinct (map fst (mf_nodes m'))"
      using mem_invD(2) [OF assms(1)] by (simp add: m' distinct_update AList.distinct_delete)
    show "tree_ok (mem_view m')" unfolding v by (rule t2)
    show "mf_fail m' = []" using mem_invD(3) [OF assms(1)] by (simp add: m')
  qed
  then show ?thesis using e v by simp
qed

interpretation mem: filesystem "mem_driver opens" mem_inv mem_view
proof unfold_locales
  fix m m' :: memFS and p q :: path and r c l e and b perm
  show "mem_inv m \<Longrightarrow> tree_ok (mem_view m)" by (rule mem_invD(1))
  show "mem_inv m' \<and> mem_view m' = mem_view m \<and> stat_agrees (mem_view m p) r"
    if "mem_inv m" "run_state (drv_Stat (mem_driver opens) p) m = (r, m')"
    using run_mem_Stat [OF that(1), of p] that by (auto simp: mem_driver_def)
  show "mem_inv m' \<and> mem_view m' = mem_view m \<and> c = Inr b"
    if "mem_inv m" "mem_view m p = Some (FileNode b)" "run_state (drv_ReadFile (mem_driver opens) p) m = (c, m')"
    using that mem_invD(3) [OF that(1)]
    by (cases rule: mem_node_cases [of m p]) (auto simp: mem_driver_def mem_ReadFile_def split: if_splits)
  show "mem_inv m' \<and> mem_view m' = mem_view m \<and> listing_agrees (members (mem_view m) p) l"
    if "mem_inv m" "mem_view m p = Some DirNode" "run_state (drv_ListDir (mem_driver opens) p) m = (l, m')"
  proof -
    have c: "canonical p" using tree_okD(1) [OF mem_invD(1) [OF that(1)]] that(2) by simp
    have "l = Inr (''.'' # ''..'' # mem_names m p)" "m' = m"
      using that mem_invD(3) [OF that(1)]
      by (cases rule: mem_node_cases [of m p]; simp add: mem_driver_def mem_ListDir_def split: if_splits)+
    moreover have "''.'' \<notin> members (mem_view m) p" "''..'' \<notin> members (mem_view m) p"
      by (simp_all add: members_def good_comp_def)
    ultimately show ?thesis
      using that(1) set_mem_names [OF that(1) c] distinct_mem_names [OF that(1), of p]
      by (auto simp: listing_agrees_def)
  qed
  show "mem_inv m' \<and> e = None \<and> mem_view m' = (mem_view m)(p \<mapsto> FileNode b)"
    if "mem_inv m" "canonical p" "mem_view m (parentOf p) = Some DirNode" "mem_view m p \<noteq> Some DirNode"
      "run_state (drv_WriteFile (mem_driver opens) p b perm) m = (e, m')"
    using run_mem_WriteFile [OF that(1-4)] that(5) by (simp add: mem_driver_def)
  show "mem_inv m' \<and> e = None \<and> mem_view m' = (mem_view m)(p \<mapsto> DirNode)"
    if "mem_inv m" "canonical p" "mem_view m (parentOf p) = Some DirNode" "mem_view m p = None"
      "run_state (drv_MkDir (mem_driver opens) p perm) m = (e, m')"
    using run_mem_MkDir [OF that(1-4)] that(5) by (simp add: mem_driver_def)
  show "mem_inv m' \<and> e = None \<and> mem_view m' = (mem_view m)(p := None)"
    if "mem_inv m" "mem_view m p = Some (FileNode b)" "run_state (drv_DeleteFile (mem_driver opens) p) m = (e, m')"
    using that mem_invD(3) [OF that(1)] tree_ok_unlink [OF mem_invD(1) [OF that(1)] that(2)]
    by (auto simp: mem_driver_def mem_DeleteFile_def mem_view_drop intro: mem_inv_drop)
  show "mem_inv m' \<and> e = None \<and> mem_view m' = (mem_view m)(p := None)"
    if "mem_inv m" "mem_view m p = Some DirNode" "p \<noteq> ''/''" "members (mem_view m) p = {}"
      "run_state (drv_DeleteDir (mem_driver opens) p) m = (e, m')"
    using that mem_invD(3) [OF that(1)] tree_ok_rmdir [OF mem_invD(1) [OF that(1)] that(2-4)]
    by (auto simp: mem_driver_def mem_DeleteDir_def mem_view_drop intro: mem_inv_drop)
  show "mem_inv m' \<and> e = None \<and> mem_view m' = (mem_view m)(p := None, q \<mapsto> FileNode b)"
    if "mem_inv m" "mem_view m p = Some (FileNode b)" "canonical q" "mem_view m q = None"
      "mem_view m (parentOf q) = Some DirNode" "run_state (drv_Rename (mem_driver opens) p q) m = (e, m')"
    using run_mem_Rename [OF that(1-5)] that(6) by (simp add: mem_driver_def)
qed

lemma mem_absent:
  assumes "mem_view m p = None"
  shows "\<exists>err. mem_node m p = Inl err \<and> notFound err"
  using assms by (cases rule: mem_node_cases [of m p]) auto

interpretation mem_precise: precise "mem_driver opens" mem_inv mem_view
proof unfold_locales
  fix m m' :: memFS and p q :: path and c l r e and opn
  note defs = mem_driver_def mem_ReadFile_def mem_ListDir_def mem_Rename_def mem_OpenFile_def mem_call_def mem_check_def
  show "mem_inv m' \<and> mem_view m' = mem_view m \<and> isl c"
    if "mem_inv m" "mem_view m p = None" "run_state (drv_ReadFile (mem_driver opens) p) m = (c, m')"
    using that mem_absent [OF that(2)] mem_invD(3) [OF that(1)] by (auto simp: defs)
  show "mem_inv m' \<and> mem_view m' = mem_view m \<and> isl l"
    if "mem_inv m" "mem_view m p = None" "run_state (drv_ListDir (mem_driver opens) p) m = (l, m')"
    using that mem_absent [OF that(2)] mem_invD(3) [OF that(1)] by (auto simp: defs)
  show "mem_inv m' \<and> mem_view m' = mem_view m \<and> isl r"
    if "mem_inv m" "mem_view m p = None" "drv_OpenFile (mem_driver opens) = Some opn" "run_state (opn p) m = (r, m')"
    using that mem_absent [OF that(2)] by (auto simp: defs split: if_splits)
  show "mem_inv m' \<and> mem_view m' = mem_view m \<and> (\<exists>err. e = Some err \<and> notFound err)"
    if "mem_inv m" "mem_view m p = None" "run_state (drv_Rename (mem_driver opens) p q) m = (e, m')"
    using that mem_absent [OF that(2)] mem_invD(3) [OF that(1)] by (auto simp: defs)
qed

text \<open>An open file is the number of its node.\<close>

definition mem_handle :: "memFS \<Rightarrow> nat \<Rightarrow> path \<Rightarrow> bool" where
  "mem_handle m r p \<longleftrightarrow> map_of (mf_nodes m) p = Some r"

lemma mem_handle_set [simp]: "mem_handle (mem_set r b m) = mem_handle m"
  by (intro ext) (simp add: mem_handle_def mem_set_def)

lemma mem_handle_data: "mem_handle m r p \<Longrightarrow> mem_view m p = Some (FileNode b) \<Longrightarrow> mem_data r m = b"
  by (auto simp: mem_handle_def mem_view_def mem_data_def split: if_splits)

lemma mem_handle_write:
  assumes "mem_inv m" and "mem_handle m r p" and "mem_view m p = Some (FileNode b)"
  shows "mem_inv (mem_set r c m)" and "mem_view (mem_set r c m) = (mem_view m)(p \<mapsto> FileNode c)"
  using assms mem_inv_set [OF assms(1)] mem_view_set [OF assms(1)] by (auto simp: mem_handle_def)

lemma run_mem_Range:
  assumes "mem_inv m" and "mem_handle m g q" and "mem_handle m f p" and "mem_view m p = Some (FileNode b)"
    and "mem_view m q = Some (FileNode c)" and "length c = length b"
    and "run_state (mem_Range g f 0 0 (int (length b))) m = (res, m')"
  shows "mem_inv m' \<and> mem_view m' = (mem_view m)(q \<mapsto> FileNode b) \<and> mem_handle m' = mem_handle m
    \<and> res = (int (length b), None)"
proof -
  have d: "mem_data f m = b" "mem_data g m = c" using mem_handle_data assms by blast+
  have "m' = mem_set g b m" "res = (int (length b), None)"
    using assms(6,7) by (auto simp: mem_Range_def mem_ReadAt_def mem_WriteAt_def d split: if_splits)
  then show ?thesis using mem_handle_write [OF assms(1,2,5)] by simp
qed

interpretation mem_files: positional "mem_driver True" mem_inv mem_view mem_OpenFile mem_handle
proof unfold_locales
  fix m m' :: memFS and p q :: path and f g n' :: nat and r res e and b c :: bytes and n off :: int and perm
  note defs = mem_driver_def mem_files_def
  show "drv_OpenFile (mem_driver True) = Some mem_OpenFile" by (simp add: defs)
  show "mem_inv m' \<and> mem_view m' = mem_view m \<and> (\<exists>f. r = Inr (Some f) \<and> mem_handle m' f p \<and>
      file_is_writable (drv_file (mem_driver True)) f \<and> (\<forall>g q. mem_handle m g q \<longrightarrow> mem_handle m' g q))"
    if "mem_inv m" "mem_view m p = Some (FileNode b)" "run_state (mem_OpenFile p) m = (r, m')"
    using that by (cases rule: mem_node_cases [of m p])
      (auto simp: defs mem_OpenFile_def mem_handle_def split: if_splits)
  show "mem_handle m' f p"
    if "mem_handle m f p" "p \<noteq> q" "run_state (drv_WriteFile (mem_driver True) q c perm) m = (e, m')"
    using that by (auto simp: defs mem_WriteFile_def mem_call_def mem_handle_def mem_set_def mem_add_def
        update_conv' split: option.splits)
  show "mem_inv m' \<and> mem_view m' = mem_view m \<and> (\<forall>g q. mem_handle m g q \<longrightarrow> mem_handle m' g q)
      \<and> n = int (length b)"
    if "mem_inv m" "mem_handle m f p" "mem_view m p = Some (FileNode b)"
      "run_state (file_Size (drv_file (mem_driver True)) f) m = (n, m')"
    using that mem_handle_data [OF that(2,3)] by (auto simp: defs)
  show "mem_inv m' \<and> mem_view m' = (mem_view m)(p \<mapsto> FileNode (resize (nat n) b)) \<and>
      (\<forall>g q. mem_handle m g q \<longrightarrow> mem_handle m' g q) \<and> e = None"
    if "mem_inv m" "mem_handle m f p" "mem_view m p = Some (FileNode b)" "0 \<le> n"
      "run_state (file_Truncate (drv_file (mem_driver True)) f n) m = (e, m')"
    using that mem_handle_data [OF that(2,3)] mem_handle_write [OF that(1-3)]
    by (auto simp: defs mem_Truncate_def resize_def)
  show "mem_inv m' \<and> mem_view m' = (mem_view m)(p \<mapsto> FileNode (patch (nat off) c b)) \<and>
      (\<forall>g q. mem_handle m g q \<longrightarrow> mem_handle m' g q) \<and> snd res = None"
    if "mem_inv m" "mem_handle m f p" "mem_view m p = Some (FileNode b)" "0 \<le> off"
      "off + int (length c) \<le> int (length b)"
      "run_state (file_WriteAt (drv_file (mem_driver True)) f c off) m = (res, m')"
    using that mem_handle_data [OF that(2,3)] mem_handle_write [OF that(1-3)]
    by (auto simp: defs mem_WriteAt_def patch_def)
  show "mem_inv m' \<and> mem_view m' = (mem_view m)(q \<mapsto> FileNode b) \<and>
      (\<forall>g q. mem_handle m g q \<longrightarrow> mem_handle m' g q) \<and> res = (int (length b), None)"
    if "mem_inv m" "mem_handle m g q" "mem_handle m f p" "mem_view m p = Some (FileNode b)"
      "mem_view m q = Some (FileNode c)" "length c = length b"
      "run_state (file_Range (drv_file (mem_driver True)) g f 0 0 (int (length b))) m = (res, m')"
    using run_mem_Range [OF that(1-6)] that(7) by (simp add: defs)
  show "mem_inv m' \<and> mem_view m' = mem_view m \<and> (\<forall>g q. mem_handle m g q \<longrightarrow> mem_handle m' g q) \<and> e = None"
    if "mem_inv m" "run_state (file_Sync (drv_file (mem_driver True)) f) m = (e, m')"
    using that by (auto simp: defs)
  show "mem_inv m' \<and> mem_view m' = mem_view m \<and> (\<forall>g q. mem_handle m g q \<and> q \<noteq> p \<longrightarrow> mem_handle m' g q) \<and> e = None"
    if "mem_inv m" "run_state (file_Close (drv_file (mem_driver True)) f) m = (e, m')"
    using that by (auto simp: defs)
qed

section \<open>A server over it\<close>

text \<open>
  Whatever the tests inject, the keys of the map stay canonical paths, because a handler hands the
  driver nothing else.
\<close>

definition mem_keys_ok :: "memFS \<Rightarrow> bool" where
  "mem_keys_ok m \<longleftrightarrow> (\<forall>p \<in> fst ` set (mf_nodes m). canonical p)"

definition mem_handler :: "bool \<Rightarrow> std \<Rightarrow> nat \<Rightarrow> (memFS, nat) handler" where
  "mem_handler opens g fuel = (base_handler (mem_driver opens) g 0 fuel)\<lparr>h_ro := False\<rparr>"

lemma sat_mem_call:
  assumes "\<And>m. P m \<Longrightarrow> B (fst (f m)) \<and> P (snd (f m))" and "\<And>e. B (bad e)"
  shows "sat P B (mem_call opn p bad f)"
  unfolding sat_def mem_call_def
proof (intro allI impI)
  fix m assume "P m"
  then show "case run_state (State (\<lambda>m. case mem_check m opn p of None \<Rightarrow> f m | Some e \<Rightarrow> (bad e, m))) m of
      (x, m') \<Rightarrow> B x \<and> P m'"
    using assms(1) [of m] assms(2) by (cases "f m") (simp split: option.split)
qed

lemma mem_keys_update [intro]:
  "mem_keys_ok m \<Longrightarrow> mem_keys_ok (mem_set r b m)"
  "mem_keys_ok m \<Longrightarrow> canonical p \<Longrightarrow> mem_keys_ok (mem_add p n m)"
  "mem_keys_ok m \<Longrightarrow> mem_keys_ok (mem_drop p m)"
  "mem_keys_ok m \<Longrightarrow> canonical p \<Longrightarrow>
     mem_keys_ok (m\<lparr>mf_nodes := AList.update p r (AList.delete q (mf_nodes m))\<rparr>)"
  by (auto simp: mem_keys_ok_def mem_set_def mem_add_def mem_drop_def AList.dom_update AList.delete_eq)

lemma good_mem_names:
  assumes "mem_keys_ok m" and "canonical p" and "n \<in> set (mem_names m p)"
  shows "good_comp n"
proof -
  obtain q where q: "q \<in> fst ` set (mf_nodes m)" "q \<noteq> p" "has_prefix q (if p = ''/'' then p else p @ ''/'')"
    "n = drop (length (if p = ''/'' then p else p @ ''/'')) q" "CHR ''/'' \<notin> set n"
    using assms(3) by (auto simp: mem_names_def Let_def contains_slash split: if_splits)
  have "q = (if p = ''/'' then p else p @ ''/'') @ n" using q(3,4) by (auto simp: has_prefix_iff)
  moreover have "canonical q" using q(1) assms(1) unfolding mem_keys_ok_def by blast
  ultimately show ?thesis using direct_child(1) [OF assms(2) _ q(2) _ q(5)] by blast
qed

lemma sat_gets: "sat P (\<lambda>_. True) (gets f)"
  by (simp add: sat_def)

lemmas mem_op_defs = mem_Stat_def mem_ReadFile_def mem_ListDir_def mem_WriteFile_def mem_MkDir_def
  mem_DeleteFile_def mem_DeleteDir_def mem_Rename_def

interpretation mem_server: session "mem_handler opens g fuel" mem_keys_ok lw_ok
proof unfold_locales
  fix p q :: path and f f' :: nat and n off len a b :: int and d :: bytes and perm :: nat and opn and c
  note defs = mem_handler_def base_handler_def mem_driver_def mem_files_def
  show "stable mem_keys_ok (drv_Stat (h_fs (mem_handler opens g fuel)) p)"
    by (simp add: defs mem_Stat_def) (rule sat_mem_call; simp)
  show "stable mem_keys_ok (drv_ReadFile (h_fs (mem_handler opens g fuel)) p)"
    by (simp add: defs mem_ReadFile_def) (rule sat_mem_call; simp)
  show "sat mem_keys_ok good_listing (drv_ListDir (h_fs (mem_handler opens g fuel)) p)" if "canonical p"
    using good_mem_names [OF _ that]
    by (simp add: defs mem_ListDir_def)
       (rule sat_mem_call; auto simp: good_listing_def split: sum.split)
  show "stable mem_keys_ok (opn p)" if "drv_OpenFile (h_fs (mem_handler opens g fuel)) = Some opn"
    using that by (auto simp: defs mem_OpenFile_def sat_def split: if_splits)
  show "stable mem_keys_ok (file_Size (drv_file (h_fs (mem_handler opens g fuel))) f)"
    by (simp add: defs sat_gets)
  show "stable mem_keys_ok (file_ReadAt (drv_file (h_fs (mem_handler opens g fuel))) f n off)"
    by (simp add: defs mem_ReadAt_def sat_gets)
  show "stable mem_keys_ok (file_Close (drv_file (h_fs (mem_handler opens g fuel))) f)"
    by (simp add: defs)
  show "stable mem_keys_ok c" if "h_capacity (mem_handler opens g fuel) = Some c"
    using that by (simp add: defs)
  show "stable mem_keys_ok (drv_WriteFile (h_fs (mem_handler opens g fuel)) p d perm)" if "canonical p"
    using that by (simp add: defs mem_WriteFile_def) (rule sat_mem_call; auto split: option.split)
  show "stable mem_keys_ok (drv_MkDir (h_fs (mem_handler opens g fuel)) p perm)" if "canonical p"
    using that by (simp add: defs mem_MkDir_def) (rule sat_mem_call; auto)
  show "stable mem_keys_ok (drv_DeleteFile (h_fs (mem_handler opens g fuel)) p)"
    by (simp add: defs mem_DeleteFile_def) (rule sat_mem_call; auto)
  show "stable mem_keys_ok (drv_DeleteDir (h_fs (mem_handler opens g fuel)) p)"
    by (simp add: defs mem_DeleteDir_def) (rule sat_mem_call; auto)
  show "stable mem_keys_ok (drv_Rename (h_fs (mem_handler opens g fuel)) p q)" if "canonical q"
    using that by (simp add: defs mem_Rename_def) (rule sat_mem_call; auto split: sum.split)
  show "stable mem_keys_ok (file_WriteAt (drv_file (h_fs (mem_handler opens g fuel))) f d off)"
    by (auto simp: defs mem_WriteAt_def sat_def)
  show "stable mem_keys_ok (file_Truncate (drv_file (h_fs (mem_handler opens g fuel))) f len)"
    by (auto simp: defs mem_Truncate_def sat_def)
  show "stable mem_keys_ok (file_Sync (drv_file (h_fs (mem_handler opens g fuel))) f)"
    by (simp add: defs)
  show "stable mem_keys_ok (file_Range (drv_file (h_fs (mem_handler opens g fuel))) f f' a b len)"
    by (auto simp: defs mem_Range_def mem_ReadAt_def mem_WriteAt_def sat_def)
qed

section \<open>A small server\<close>

text \<open>
  A concrete instance on which the properties are evaluated: a file \<open>/d/a\<close>, an empty lock table,
  and for the standard library's parameters the simplest functions of their types.
\<close>

definition demo_std :: std where
  "demo_std =
     \<lparr>std_sha256 = (\<lambda>b. b), std_mime = (\<lambda>e. []), std_authority = Some,
      std_xml = (\<lambda>b e. ([StartElement (davNS, b) [], EndElement (davNS, b)], e)),
      std_reencode = (\<lambda>ts. []),
      std_date = (\<lambda>v. None), std_sniff = (\<lambda>b. ''text/plain''), std_chunk = (\<lambda>n. 2), std_boundary = ''x''\<rparr>"

definition demo_mem :: memFS where
  "demo_mem = \<lparr>mf_nodes = [(''/'', 0), (''/d'', 1), (''/d/a'', 2)],
     mf_heap = [\<lparr>mn_mode = sIFDIR, mn_data = []\<rparr>, \<lparr>mn_mode = sIFDIR, mn_data = []\<rparr>,
                \<lparr>mn_mode = 0x8000, mn_data = ''hello''\<rparr>],
     mf_fail = []\<rparr>"

definition demo_request :: "string \<Rightarrow> string \<Rightarrow> headers \<Rightarrow> bytes \<Rightarrow> request" where
  "demo_request meth p hs b =
     \<lparr>rq_method = meth, rq_path = p, rq_headers = hs, rq_host = ''h'', rq_remote = ''r'', rq_tls = False,
      rq_body = b, rq_body_err = None\<rparr>"

definition demo_random :: "nat \<Rightarrow> go_error + bytes" where
  "demo_random n = (if n < 256 then Inr (replicate 15 (CHR ''x'') @ [char_of n]) else Inl (plain_error ''rand''))"

definition demo_lw :: lock_world where
  "demo_lw = \<lparr>lw_table = empty_locks, lw_now = 0, lw_rand = demo_random\<rparr>"

definition demo_world :: "'s \<Rightarrow> 's world" where
  "demo_world s = \<lparr>w_fs = s, w_lk = demo_lw, w_mu = False\<rparr>"

lemma demo_keys: "mem_keys_ok demo_mem"
  unfolding mem_keys_ok_def demo_mem_def by code_simp

lemma demo_lw_ok: "lw_ok demo_lw"
proof -
  have "m = n" if "newToken (demo_random m) = Inr tok" "newToken (demo_random n) = Inr tok" for m n tok
  proof -
    have "demo_random m = demo_random n" by (rule newToken_inj [OF that])
    moreover have "m < 256" "n < 256" using that by (auto simp: demo_random_def newToken_def split: if_splits)
    ultimately have "(of_char (char_of m :: char) :: nat) = of_char (char_of n :: char)" by (simp add: demo_random_def)
    then show ?thesis using \<open>m < 256\<close> \<open>n < 256\<close> by simp
  qed
  moreover have "byToken empty_locks = []" by (simp add: empty_locks_def)
  ultimately show ?thesis
    unfolding lw_ok_def tokens_ahead_def demo_lw_def fresh_rnd_def by (auto split: sum.split)
qed

end
