(* ===== verification/Isolation.thy ===== *)
theory Isolation
  imports MemFs
begin

text \<open>
  What reaches the driver. A driver is wrapped so that its state also holds the list of the calls
  it received; the invariants of \<open>Safety\<close>, instantiated on that list, say which paths the server
  can name and which calls a read-only export can make, for any number of requests at once.
\<close>

section \<open>A driver that records its calls\<close>

datatype access = Reads path | Writes path | ReadsFile | WritesFile

definition spy :: "access list \<Rightarrow> ('s, 'a) state \<Rightarrow> ('s \<times> access list, 'a) state" where
  "spy as m = State (\<lambda>(s, log). case run_state m s of (x, s') \<Rightarrow> (x, (s', log @ as)))"

definition spied_files :: "('s, 'f) file_ops \<Rightarrow> ('s \<times> access list, 'f) file_ops" where
  "spied_files ops =
     \<lparr>file_Size = (\<lambda>f. spy [ReadsFile] (file_Size ops f)),
      file_ReadAt = (\<lambda>f n off. spy [ReadsFile] (file_ReadAt ops f n off)),
      file_Close = (\<lambda>f. spy [ReadsFile] (file_Close ops f)),
      file_is_host = file_is_host ops, file_is_writable = file_is_writable ops,
      file_WriteAt = (\<lambda>f b off. spy [WritesFile] (file_WriteAt ops f b off)),
      file_Truncate = (\<lambda>f len. spy [WritesFile] (file_Truncate ops f len)),
      file_Sync = (\<lambda>f. spy [WritesFile] (file_Sync ops f)),
      file_Range = (\<lambda>f g a b len. spy [WritesFile, ReadsFile] (file_Range ops f g a b len))\<rparr>"

definition spied_driver :: "('s, 'f) driver \<Rightarrow> ('s \<times> access list, 'f) driver" where
  "spied_driver d =
     \<lparr>drv_Stat = (\<lambda>p. spy [Reads p] (drv_Stat d p)),
      drv_ReadFile = (\<lambda>p. spy [Reads p] (drv_ReadFile d p)),
      drv_ListDir = (\<lambda>p. spy [Reads p] (drv_ListDir d p)),
      drv_WriteFile = (\<lambda>p b m. spy [Writes p] (drv_WriteFile d p b m)),
      drv_MkDir = (\<lambda>p m. spy [Writes p] (drv_MkDir d p m)),
      drv_DeleteFile = (\<lambda>p. spy [Writes p] (drv_DeleteFile d p)),
      drv_DeleteDir = (\<lambda>p. spy [Writes p] (drv_DeleteDir d p)),
      drv_Rename = (\<lambda>p q. spy [Writes p, Writes q] (drv_Rename d p q)),
      drv_OpenFile = map_option (\<lambda>opn p. spy [Reads p] (opn p)) (drv_OpenFile d),
      drv_file = spied_files (drv_file d)\<rparr>"

definition spied :: "('s, 'f) handler \<Rightarrow> ('s \<times> access list, 'f) handler" where
  "spied h =
     \<lparr>h_fs = spied_driver (h_fs h), h_ro = h_ro h, h_prefix = h_prefix h, h_basic = h_basic h,
      h_bearer = h_bearer h, h_realm = h_realm h, h_insecureAuth = h_insecureAuth h,
      h_maxBody = h_maxBody h, h_start = h_start h, h_total = h_total h, h_avail = h_avail h,
      h_capacity = map_option (spy []) (h_capacity h), h_std = h_std h, h_fuel = h_fuel h\<rparr>"

text \<open>A condition on the driver's own state, and one on every call recorded.\<close>

definition logged :: "('s \<Rightarrow> bool) \<Rightarrow> (access \<Rightarrow> bool) \<Rightarrow> 's \<times> access list \<Rightarrow> bool" where
  "logged I ok sl \<longleftrightarrow> I (fst sl) \<and> (\<forall>a \<in> set (snd sl). ok a)"

lemma sat_spy: "sat I B m \<Longrightarrow> \<forall>a \<in> set as. ok a \<Longrightarrow> sat (logged I ok) B (spy as m)"
  by (fastforce simp: sat_def spy_def logged_def split: prod.splits)

lemmas spied_defs = spied_def spied_driver_def spied_files_def

lemma spied_reader:
  assumes "reader h I" and "\<And>p. canonical p \<Longrightarrow> ok (Reads p)" and "ok ReadsFile"
  shows "reader (spied h) (logged I ok)"
proof -
  note r = reader.Stat [OF assms(1)] reader.ReadFile [OF assms(1)] reader.ListDir [OF assms(1)]
    reader.OpenFile [OF assms(1)] reader.Size [OF assms(1)] reader.ReadAt [OF assms(1)]
    reader.Close [OF assms(1)] reader.Capacity [OF assms(1)]
  show ?thesis by unfold_locales (auto simp: spied_defs assms(2,3) intro!: sat_spy r)
qed

lemma spied_writer:
  assumes "writer h I" and "\<And>p. canonical p \<Longrightarrow> ok (Reads p) \<and> ok (Writes p)" and "ok ReadsFile \<and> ok WritesFile"
  shows "writer (spied h) (logged I ok)"
proof -
  have rd: "reader (spied h) (logged I ok)"
    using spied_reader [OF writer.axioms(1) [OF assms(1)]] assms(2,3) by blast
  note w = writer.WriteFile [OF assms(1)] writer.MkDir [OF assms(1)] writer.DeleteFile [OF assms(1)]
    writer.DeleteDir [OF assms(1)] writer.Rename [OF assms(1)] writer.WriteAt [OF assms(1)]
    writer.Truncate [OF assms(1)] writer.Sync [OF assms(1)] writer.Range [OF assms(1)]
  show ?thesis
    by (intro writer.intro rd, unfold_locales) (auto simp: spied_defs assms(2,3) intro!: sat_spy w)
qed

lemma session_any: "writer h P \<Longrightarrow> lock_user Q \<Longrightarrow> session h P Q"
  by (intro session.intro read_session.intro) (auto dest: writer.axioms(1))

section \<open>Properties\<close>

abbreviation served :: "('s, 'f) handler \<Rightarrow> 's proc \<Rightarrow> bool" where
  "served h p \<equiv> \<exists>r. p = ServeHTTP h r"

lemma reach_of_run:
  assumes "case run_proc (ServeHTTP h r) w0 of (x, w) \<Rightarrow> x \<noteq> None \<and> C w"
  obtains w ts where "pool_reach (served h) w0 (w, ts)" and "ts \<noteq> []" and "C w"
proof -
  obtain x w where run: "run_proc (ServeHTTP h r) w0 = (Some x, w)" and "C w" using assms by auto
  moreover have "\<exists>b. pool_reach (served h) w0 (w, [(b, Done x)])"
    by (rule pool_of_run [OF _ run]) blast
  ultimately show thesis using that by blast
qed

lemma reader_same:
  "reader h I \<Longrightarrow> h_fs h' = h_fs h \<Longrightarrow> h_capacity h' = h_capacity h \<Longrightarrow> reader h' I"
  by (simp add: reader_def)

text \<open>
  C1. Containment end to end: whatever requests arrive and however they interleave, every path
  the server hands to the driver, to read or to write, is a canonical path of the export, with no
  \<open>..\<close> in it. The driver is only assumed to list names, not paths, and to keep its own invariant.
\<close>

theorem driver_contained:
  assumes "writer h I" and "I s0"
    and "pool_reach (served (spied h)) \<lparr>w_fs = (s0, []), w_lk = l0, w_mu = False\<rparr> (w, ts)"
  shows "\<forall>p. Reads p \<in> set (snd (w_fs w)) \<or> Writes p \<in> set (snd (w_fs w)) \<longrightarrow> canonical p"
proof -
  define ok where "ok a = (\<forall>p. a = Reads p \<or> a = Writes p \<longrightarrow> canonical p)" for a
  have "session (spied h) (logged I ok) (\<lambda>_. True)"
    by (rule session_any [OF spied_writer [OF assms(1)] any_locks]) (auto simp: ok_def)
  then have keeps: "keeps_all (logged I ok) (\<lambda>_. True) p" if "served (spied h) p" for p
    using session.keeps_ServeHTTP that by blast
  have "pool_keeps (logged I ok) (\<lambda>_. True) (\<lambda>_. True) (w, ts)"
    by (rule pool_reach_keeps [OF assms(3)]) (auto simp: logged_def assms(2) intro: keeps)
  then show ?thesis by (auto simp: pool_keeps_def logged_def ok_def)
qed

theorem driver_contained_witness:
  "\<exists>w ts. pool_reach (served (spied (mem_handler False demo_std 5))) (demo_world (demo_mem, [])) (w, ts) \<and>
     Writes ''/d/a'' \<in> set (snd (w_fs w)) \<and> canonical ''/d/a''"
proof -
  have "case run_proc (ServeHTTP (spied (mem_handler False demo_std 5)) (demo_request ''DELETE'' ''/x/../d/'' [] []))
      (demo_world (demo_mem, [])) of (x, w) \<Rightarrow> x \<noteq> None \<and> Writes ''/d/a'' \<in> set (snd (w_fs w))"
    by code_simp
  then obtain w ts where reach: "pool_reach (served (spied (mem_handler False demo_std 5))) (demo_world (demo_mem, [])) (w, ts)"
    and wr: "Writes ''/d/a'' \<in> set (snd (w_fs w))"
    by (rule reach_of_run [where C = "\<lambda>w. Writes ''/d/a'' \<in> set (snd (w_fs w))"])
  show ?thesis
    using driver_contained [OF mem_server.writer_axioms demo_keys reach [unfolded demo_world_def]] reach wr by blast
qed

text \<open>
  C8. A read-only export is never written: whatever requests arrive and however they interleave,
  no call that changes the driver's contents is made, on a path or on an open file.
\<close>

theorem readonly_never_writes:
  assumes "h_ro h" and "reader h I" and "I s0"
    and "pool_reach (served (spied h)) \<lparr>w_fs = (s0, []), w_lk = l0, w_mu = False\<rparr> (w, ts)"
  shows "set (snd (w_fs w)) \<subseteq> range Reads \<union> {ReadsFile}"
proof -
  define ok where "ok a = (a \<in> range Reads \<union> {ReadsFile})" for a
  have "read_session (spied h) (logged I ok) (\<lambda>_. True)"
    by (intro read_session.intro spied_reader [OF assms(2)] any_locks) (auto simp: ok_def)
  then have keeps: "keeps_all (logged I ok) (\<lambda>_. True) p" if "served (spied h) p" for p
    using read_session.keeps_ServeHTTP_readonly [of "spied h"] that assms(1) by (auto simp: spied_def)
  have "pool_keeps (logged I ok) (\<lambda>_. True) (\<lambda>_. True) (w, ts)"
    by (rule pool_reach_keeps [OF assms(4)]) (auto simp: logged_def assms(3) intro: keeps)
  then show ?thesis by (auto simp: pool_keeps_def logged_def ok_def)
qed

theorem readonly_never_writes_witness:
  "\<exists>w ts. pool_reach (served (spied (base_handler (mem_driver True) demo_std 0 5))) (demo_world (demo_mem, [])) (w, ts) \<and>
     ReadsFile \<in> set (snd (w_fs w)) \<and> Writes ''/d/a'' \<notin> set (snd (w_fs w))"
proof -
  have "case run_proc (ServeHTTP (spied (base_handler (mem_driver True) demo_std 0 5)) (demo_request ''GET'' ''/d/a'' [] []))
      (demo_world (demo_mem, [])) of (x, w) \<Rightarrow> x \<noteq> None \<and> ReadsFile \<in> set (snd (w_fs w))"
    by code_simp
  then obtain w ts where
    reach: "pool_reach (served (spied (base_handler (mem_driver True) demo_std 0 5))) (demo_world (demo_mem, [])) (w, ts)"
    and rd: "ReadsFile \<in> set (snd (w_fs w))"
    by (rule reach_of_run [where C = "\<lambda>w. ReadsFile \<in> set (snd (w_fs w))"])
  have ok: "reader (base_handler (mem_driver True) demo_std 0 5) mem_keys_ok"
    by (rule reader_same [OF mem_server.reader_axioms [of True demo_std 5]])
       (simp_all add: mem_handler_def base_handler_def)
  have ro: "h_ro (base_handler (mem_driver True) demo_std 0 5)" by (simp add: base_handler_def)
  have "set (snd (w_fs w)) \<subseteq> range Reads \<union> {ReadsFile}"
    by (rule readonly_never_writes [OF ro ok demo_keys reach [unfolded demo_world_def]])
  then have "Writes ''/d/a'' \<notin> set (snd (w_fs w))" by auto
  then show ?thesis using reach rd by blast
qed

text \<open>
  C6. The lock table survives the server: whatever requests arrive and however they interleave,
  its two maps and its locks stay consistent and pairwise exclusive and it holds at most
  \<open>maxLocks\<close> locks, as long as the random bytes do not repeat a token.
\<close>

theorem server_lock_invariant:
  assumes "writer h I" and "I (w_fs w0)" and "lw_ok (w_lk w0)"
    and "pool_reach (served h) w0 (w, ts)"
  shows "ls_inv (lw_table (w_lk w)) \<and> length (byToken (lw_table (w_lk w))) \<le> maxLocks"
proof -
  have "session h I lw_ok" by (rule session_any [OF assms(1) locks.lock_user_axioms])
  then have keeps: "keeps_all I lw_ok p" if "served h p" for p
    using session.keeps_ServeHTTP that by blast
  have "pool_keeps I lw_ok (\<lambda>_. True) (w, ts)"
    by (rule pool_reach_keeps [OF assms(4,2,3) keeps]) (simp_all add: lw_ok_def tokens_ahead_def)
  then show ?thesis by (simp add: pool_keeps_def lw_ok_def)
qed

theorem server_lock_invariant_witness:
  "\<exists>w ts. pool_reach (served (mem_handler False demo_std 5)) (demo_world demo_mem) (w, ts) \<and>
     ts \<noteq> [] \<and> ls_inv (lw_table (w_lk w))"
proof -
  have "case run_proc (ServeHTTP (mem_handler False demo_std 5) (demo_request ''DELETE'' ''/d'' [] []))
      (demo_world demo_mem) of (x, w) \<Rightarrow> x \<noteq> None \<and> True"
    by code_simp
  then obtain w ts where reach: "pool_reach (served (mem_handler False demo_std 5)) (demo_world demo_mem) (w, ts)"
    and ne: "ts \<noteq> []"
    by (rule reach_of_run [where C = "\<lambda>w. True"])
  have "ls_inv (lw_table (w_lk w))"
    using server_lock_invariant [OF mem_server.writer_axioms _ _ reach] demo_keys demo_lw_ok
    by (simp add: demo_world_def)
  then show ?thesis using reach ne by blast
qed

end
