(* ===== verification/Concurrency.thy ===== *)
theory Concurrency
  imports Isolation
begin

text \<open>
  Requests at once. Every handler follows the discipline of \<open>fsmu\<close>: it calls the driver only while
  it holds the mutex, never takes it twice and never keeps it, so the driver is never entered by
  two requests and the server never blocks itself. The one exception, \<open>late_close\<close>, is the deferred
  \<open>Close\<close> of a \<open>GET\<close> on a driver that opens files; the last section exhibits it, with the other race
  the critical sections leave open, on an executable scheduler.
\<close>

section \<open>Every handler is disciplined, up to the close of a GET\<close>

lemma disciplined_fs_sat:
  "sat (\<lambda>_. True) A m \<Longrightarrow> (\<And>x. A x \<Longrightarrow> disciplined (k x) True) \<Longrightarrow> disciplined (fs_call m k) True"
  by (auto simp: fs_call_def sat_map intro: sat_mono)

lemma disciplined_checkLocks [intro!]:
  "(\<And>x. disciplined (k x) has) \<Longrightarrow> disciplined (checkLocks r p k) has"
  unfolding checkLocks_def by blast

lemma disciplined_discoveryXML:
  "(\<And>x. disciplined (k x) has) \<Longrightarrow> disciplined (discoveryXML h p k) has"
  unfolding discoveryXML_def by (auto intro!: orderly_ls_call split: option.split)

lemma disciplined_space: "(\<And>x. disciplined (k x) has) \<Longrightarrow> disciplined (space h k) has"
  unfolding space_def by (auto split: option.split)

lemma disciplined_propNames: "(\<And>x. disciplined (k x) has) \<Longrightarrow> disciplined (propNames h i k) has"
  unfolding propNames_def by (auto intro!: disciplined_space)

lemma disciplined_propValue: "(\<And>x. disciplined (k x) has) \<Longrightarrow> disciplined (propValue h i n k) has"
  unfolding propValue_def Let_def by (auto intro!: disciplined_space disciplined_discoveryXML)

lemma disciplined_all_props_loop:
  "(\<And>x. disciplined (k x) has) \<Longrightarrow> disciplined (all_props_loop h i ns k) has"
  by (induction ns arbitrary: k) (auto intro!: disciplined_propValue)

lemma disciplined_namedProps:
  "(\<And>x. disciplined (k x) has) \<Longrightarrow> disciplined (namedProps h i ns k) has"
  by (induction ns arbitrary: k) (auto intro!: disciplined_propValue split: option.split)

lemma disciplined_respond: "(\<And>x. disciplined (k x) has) \<Longrightarrow> disciplined (respond h i req k) has"
  unfolding respond_def Let_def allProps_def
  by (auto intro!: disciplined_propNames disciplined_all_props_loop disciplined_namedProps)

lemma disciplined_member_rows:
  "(\<And>x. disciplined (k x) True) \<Longrightarrow> disciplined (member_rows h name req ns k) True"
  by (induction ns arbitrary: k) (auto intro!: orderly_fs_call disciplined_respond split: sum.split)

lemma disciplined_servePropfind: "disciplined (servePropfind h w r name) False"
  unfolding servePropfind_def
  by (auto intro!: orderly_fs_call disciplined_respond disciplined_member_rows split: option.split sum.split)

lemma disciplined_serveProppatch: "disciplined (serveProppatch h w r name) False"
  unfolding serveProppatch_def
  by (auto intro!: orderly_fs_call split: option.split sum.split)

lemma disciplined_closeFile: "disciplined k False \<Longrightarrow> disciplined (closeFile h f k) False"
  unfolding closeFile_def by (auto intro!: orderly_fs_call)

lemma disciplined_remove_call:
  "(\<And>x. disciplined (k x) True) \<Longrightarrow> disciplined (remove_call h i k) True"
  unfolding remove_call_def by (auto intro!: orderly_fs_call split: option.split)

lemma disciplined_servePutRange: "disciplined (servePutRange h w r name cr) False"
  unfolding servePutRange_def putRange_body_def putRange_write_def Let_def
  by (auto intro!: orderly_fs_call disciplined_closeFile
      split: sum.split writable_error.split read_error.split option.split)

lemma disciplined_servePut: "disciplined (servePut h w r name) False"
  unfolding servePut_def put_write_def
  by (auto intro!: orderly_fs_call disciplined_servePutRange split: option.split sum.split read_error.split)

lemma disciplined_serveMkcol: "disciplined (serveMkcol h w r name) False"
  unfolding serveMkcol_def by (auto intro!: orderly_fs_call split: option.split sum.split)

lemma disciplined_serveDelete: "disciplined (serveDelete h w r name) False"
  unfolding serveDelete_def
  by (auto intro!: orderly_fs_call orderly_ls_call disciplined_remove_call split: option.split sum.split)

lemma disciplined_prepareDestination:
  "(\<And>c. disciplined (k c) True) \<Longrightarrow> disciplined (prepareDestination h w r src dst k) True"
  unfolding prepareDestination_def
  by (auto intro!: orderly_fs_call orderly_ls_call disciplined_remove_call split: option.split sum.split)

lemma disciplined_serveMove: "disciplined (serveMove h w r name) False"
  unfolding serveMove_def
  by (auto intro!: orderly_fs_call orderly_ls_call disciplined_prepareDestination
      split: option.split sum.split)

lemma disciplined_serveCopy: "disciplined (serveCopy h w r name) False"
  unfolding serveCopy_def
  by (auto intro!: orderly_fs_call orderly_ls_call disciplined_prepareDestination
      split: option.split sum.split)

lemma disciplined_serveLock: "disciplined (serveLock h w r name) False"
  unfolding serveLock_def lock_create_def writeLockResponse_def Let_def
  by (auto intro!: orderly_fs_call orderly_ls_call split: option.split sum.split)

lemma disciplined_serveUnlock: "disciplined (serveUnlock h w r name) False"
  unfolding serveUnlock_def Let_def by (auto intro!: orderly_ls_call split: option.split)

lemma disciplined_serveIndex: "disciplined (serveIndex h w r name) True"
  unfolding serveIndex_def by (auto simp: Let_def intro!: orderly_fs_call split: sum.split)

lemma open_in_memory:
  assumes "drv_OpenFile (h_fs h) = None"
  shows "sat (\<lambda>_. True) (\<lambda>c. \<forall>x. c = Inr x \<longrightarrow> (\<exists>d. x = InMemory d)) (open_content h i)"
  unfolding open_content_def using assms by (auto simp: sat_def split: sum.split prod.split)

lemma disciplined_memory: "disciplined (serve_reads (memory_read d) Done io) False"
  by (induction io) (auto simp: memory_read_def)

lemma disciplined_serveGet:
  assumes "drv_OpenFile (h_fs h) = None"
  shows "disciplined (serveGet h w r name) False"
  unfolding serveGet_def serve_content_def Let_def
  by (auto intro!: orderly_fs_call disciplined_serveIndex disciplined_fs_sat [OF open_in_memory [OF assms]]
      disciplined_memory split: sum.split)

text \<open>On a driver that opens files, a \<open>GET\<close> ends with one call outside \<open>fsmu\<close>: the deferred \<open>Close\<close>.\<close>

definition late_close :: "('s, 'f) handler \<Rightarrow> 's proc \<Rightarrow> bool" where
  "late_close h p \<longleftrightarrow> drv_OpenFile (h_fs h) \<noteq> None \<and> (\<exists>f resp. p = close_after h f resp)"

lemma orderly_close:
  assumes "drv_OpenFile (h_fs h) \<noteq> None"
  shows "orderly (late_close h) (close_after h f resp) False"
proof -
  have "late_close h (close_after h f resp)" using assms unfolding late_close_def by blast
  then show ?thesis by (simp add: close_after_def fs_call_def sat_map all_results_True)
qed

lemma orderly_reads:
  assumes "\<And>off n k. (\<And>x. orderly late (k x) False) \<Longrightarrow> orderly late (rd off n k) False"
    and "\<And>resp. orderly late (fin resp) False"
  shows "orderly late (serve_reads rd fin io) False"
  by (induction io) (auto intro!: assms)

lemma orderly_serve_content:
  assumes "drv_OpenFile (h_fs h) \<noteq> None"
  shows "orderly (late_close h) (serve_content h w r i c) False"
  unfolding serve_content_def Let_def
  by (cases c) (auto simp: memory_read_def locked_read_def host_read_def
      intro!: orderly_reads orderly_close [OF assms] orderly_fs_call orderly_cap_call)

lemma orderly_serveGet: "orderly (late_close h) (serveGet h w r name) False"
proof (cases "drv_OpenFile (h_fs h)")
  case None
  then show ?thesis using orderly_mono [OF disciplined_serveGet] by blast
next
  case (Some opn)
  then have "orderly (late_close h) (serve_content h w r i c) False" for i c
    by (simp add: orderly_serve_content)
  moreover have "orderly (late_close h) (serveIndex h w r name) True"
    by (rule orderly_mono [OF disciplined_serveIndex]) simp
  ultimately show ?thesis
    unfolding serveGet_def by (auto intro!: orderly_fs_call split: sum.split)
qed

lemma orderly_ServeHTTP: "orderly (late_close h) (ServeHTTP h r) False"
proof -
  have other: "disciplined p False \<Longrightarrow> orderly (late_close h) p False" for p by (erule orderly_mono) simp
  show ?thesis
    unfolding ServeHTTP_def dispatch_def Let_def mutate_def
    by (auto intro!: orderly_serveGet other [OF disciplined_servePropfind] other [OF disciplined_servePut]
        other [OF disciplined_serveDelete] other [OF disciplined_serveMkcol] other [OF disciplined_serveCopy]
        other [OF disciplined_serveMove] other [OF disciplined_serveProppatch] other [OF disciplined_serveLock]
        other [OF disciplined_serveUnlock] split: option.split)
qed

section \<open>A scheduler\<close>

text \<open>One action of request \<open>i\<close>, when it has one it can take; and a run by a list of turns.\<close>

definition act :: "nat \<Rightarrow> 's pool \<Rightarrow> 's pool option" where
  "act i c =
     (case c of (w, ts) \<Rightarrow>
        if i \<ge> length ts then None
        else (case ts ! i of (b, p) \<Rightarrow>
          (case p of
             Done r \<Rightarrow> None
           | Diverge \<Rightarrow> None
           | Lock q \<Rightarrow> if w_mu w then None else Some (w\<lparr>w_mu := True\<rparr>, ts[i := (True, q)])
           | Unlock q \<Rightarrow> Some (w\<lparr>w_mu := False\<rparr>, ts[i := (False, q)])
           | Fs m \<Rightarrow> (case run_state m (w_fs w) of (q, s) \<Rightarrow> Some (w\<lparr>w_fs := s\<rparr>, ts[i := (b, q)]))
           | Ls m \<Rightarrow> (case run_state m (w_lk w) of (q, l) \<Rightarrow> Some (w\<lparr>w_lk := l\<rparr>, ts[i := (b, q)]))
           | Call m \<Rightarrow> (case run_state m (w_fs w) of (q, s) \<Rightarrow> Some (w\<lparr>w_fs := s\<rparr>, ts[i := (b, q)])))))"

primrec turns :: "nat list \<Rightarrow> 's pool \<Rightarrow> 's pool option" where
  "turns [] c = Some c"
| "turns (i # is) c = (case act i c of None \<Rightarrow> None | Some c' \<Rightarrow> turns is c')"

lemma act_step: "act i c = Some c' \<Longrightarrow> pool_step arrives c c'"
  unfolding act_def
  by (auto split: prod.splits if_splits proc.splits intro: pool_step.intros simp: not_le)

lemma turns_reach:
  "pool_reach arrives w0 c \<Longrightarrow> turns is c = Some c' \<Longrightarrow> pool_reach arrives w0 c'"
proof (induction "is" arbitrary: c)
  case (Cons i "is")
  then obtain c1 where a: "act i c = Some c1" "turns is c1 = Some c'" by (auto split: option.splits)
  show ?case by (rule Cons.IH [OF reach_step [OF Cons.prems(1) act_step [OF a(1)]] a(2)])
qed simp

lemma arrivals_reach:
  assumes "\<forall>p \<in> set ps. arrives p"
  shows "pool_reach arrives w (w, map (Pair False) ps)"
  using assms
proof (induction ps rule: rev_induct)
  case (snoc p ps)
  then show ?case
    by (auto intro!: reach_step [OF _ act_arrive [of arrives p w "map (Pair False) ps"]])
qed (auto intro: reach_start)

definition answer :: "'s proc \<Rightarrow> nat option" where
  "answer p = (case p of Done r \<Rightarrow> Some (rs_status r) | _ \<Rightarrow> None)"

definition at_once :: "(memFS, nat) handler \<Rightarrow> request list \<Rightarrow> memFS pool" where
  "at_once h rs = (demo_world demo_mem, map (\<lambda>r. (False, ServeHTTP h r)) rs)"

lemma turns_from:
  assumes "\<forall>r \<in> set rs. arrives (ServeHTTP h r)" and "turns order (at_once h rs) = Some c"
  shows "pool_reach arrives (demo_world demo_mem) c"
proof -
  have "pool_reach arrives (demo_world demo_mem) (demo_world demo_mem, map (Pair False) (map (ServeHTTP h) rs))"
    by (rule arrivals_reach) (use assms(1) in auto)
  then show ?thesis using turns_reach assms(2) by (simp add: comp_def at_once_def)
qed

section \<open>Properties\<close>

definition calls_driver :: "'s proc \<Rightarrow> bool" where
  "calls_driver p \<longleftrightarrow> (case p of Fs m \<Rightarrow> True | _ \<Rightarrow> False)"

text \<open>
  C7. Mutual exclusion on the driver: whatever requests arrive and however they interleave, a request
  that is about to call the driver holds \<open>fsmu\<close>, and no other request holds it or is about to call
  the driver. The one exception, on a driver that opens files, is the \<open>Close\<close> that ends a \<open>GET\<close> or
  \<open>HEAD\<close> when its answer is complete.
\<close>

theorem driver_serialised:
  assumes "pool_reach (served h) w0 (w, ts)" and "\<not> w_mu w0"
    and "i < length ts" and "calls_driver (snd (ts ! i))" and "\<not> late_close h (snd (ts ! i))" and "j < length ts"
  shows "w_mu w \<and> fst (ts ! i) \<and>
    (i \<noteq> j \<longrightarrow> \<not> fst (ts ! j) \<and> (calls_driver (snd (ts ! j)) \<longrightarrow> late_close h (snd (ts ! j))))"
proof -
  have d: "pool_orderly (late_close h) (w, ts)"
    by (rule pool_reach_orderly [OF assms(1,2)]) (auto intro: orderly_ServeHTTP)
  have holds: "fst (ts ! k)" if "k < length ts" "calls_driver (snd (ts ! k))" "\<not> late_close h (snd (ts ! k))" for k
  proof -
    have "orderly (late_close h) (snd (ts ! k)) (fst (ts ! k))"
      using d nth_mem [OF that(1)] by (auto simp: pool_orderly_def)
    then show ?thesis using that(2,3) by (cases "snd (ts ! k)") (simp_all add: calls_driver_def)
  qed
  have "w_mu w"
  proof (rule ccontr)
    assume "\<not> w_mu w"
    then have "filter fst ts = []" using d by (simp add: pool_orderly_def)
    then show False using holds [OF assms(3-5)] nth_mem [OF assms(3)] by (auto simp: filter_empty_conv)
  qed
  then show ?thesis
    using holds [OF assms(3-5)] holds [OF assms(6)] one_holder [OF d assms(3,6)] by blast
qed

theorem driver_serialised_witness:
  "\<exists>w p q. pool_reach (served (mem_handler False demo_std 5)) (demo_world demo_mem) (w, [(True, p), (False, q)]) \<and>
     calls_driver p \<and> w_mu w \<and> \<not> calls_driver q"
proof -
  let ?h = "mem_handler False demo_std 5"
  let ?rs = "[demo_request ''DELETE'' ''/d/a'' [] [], demo_request ''GET'' ''/d/a'' [] []]"
  have "case turns [0, 0] (at_once ?h ?rs) of
      None \<Rightarrow> False
    | Some (w, ts) \<Rightarrow> map fst ts = [True, False] \<and> calls_driver (snd (ts ! 0))"
    by code_simp
  then obtain w p q where run: "turns [0, 0] (at_once ?h ?rs) = Some (w, [(True, p), (False, q)])"
    and p: "calls_driver p" by (auto split: option.splits)
  have reach: "pool_reach (served ?h) (demo_world demo_mem) (w, [(True, p), (False, q)])"
    by (rule turns_from [OF _ run]) auto
  have "\<not> late_close ?h x" for x
    by (simp add: late_close_def mem_handler_def base_handler_def mem_driver_def)
  then show ?thesis
    using driver_serialised [OF reach, of 0 1] reach p by (auto simp: demo_world_def)
qed

text \<open>
  No deadlock: as long as a request is unanswered, some request can take its next action. (A
  recursion deeper than the stack never answers and is left out.)
\<close>

theorem no_deadlock:
  assumes "pool_reach (served h) w0 (w, ts)" and "\<not> w_mu w0"
    and "\<forall>t \<in> set ts. snd t \<noteq> Diverge" and "t \<in> set ts" and "\<not> finished (snd t)"
  shows "\<exists>i c. act i (w, ts) = Some c"
proof -
  have "pool_orderly (late_close h) (w, ts)"
    by (rule pool_reach_orderly [OF assms(1,2)]) (auto intro: orderly_ServeHTTP)
  then obtain i where i: "i < length ts" "enabled w (snd (ts ! i))"
    using pool_progress [OF _ assms(3)] assms(4,5) by blast
  then have "\<exists>c. act i (w, ts) = Some c"
    by (cases "snd (ts ! i)") (auto simp: act_def enabled_def split: prod.splits)
  then show ?thesis by blast
qed

theorem no_deadlock_witness:
  "\<exists>i c. act i (at_once (mem_handler False demo_std 5) [demo_request ''DELETE'' ''/d/a'' [] []]) = Some c"
proof -
  let ?h = "mem_handler False demo_std 5"
  let ?rs = "[demo_request ''DELETE'' ''/d/a'' [] []]"
  have reach: "pool_reach (served ?h) (demo_world demo_mem) (at_once ?h ?rs)"
    by (rule turns_from [where order = "[]"]) auto
  have "case ServeHTTP ?h (demo_request ''DELETE'' ''/d/a'' [] []) of Ls m \<Rightarrow> True | _ \<Rightarrow> False" by code_simp
  then obtain m where m: "ServeHTTP ?h (demo_request ''DELETE'' ''/d/a'' [] []) = Ls m"
    by (auto split: proc.splits)
  show ?thesis
    using no_deadlock [OF reach [unfolded at_once_def], of "(False, Ls m)"]
    by (simp add: at_once_def m finished_def demo_world_def)
qed

section \<open>What the critical sections leave open\<close>

text \<open>
  The lock check of a \<open>PUT\<close> and its write are two critical sections: here a \<open>PUT\<close> without a
  token passes the check, a \<open>LOCK\<close> of the same file is then granted and answered 200, and the
  \<open>PUT\<close> still replaces the locked file and answers 204.
\<close>

theorem put_races_lock:
  "case turns [0, 1, 1, 1, 1, 1]
      (at_once (mem_handler False demo_std 5)
        [demo_request ''PUT'' ''/d/a'' [] ''new'', demo_request ''LOCK'' ''/d/a'' [] ''lockinfo'']) of
     None \<Rightarrow> False
   | Some (w, ts) \<Rightarrow>
       map (\<lambda>t. answer (snd t)) ts = [None, Some StatusOK] \<and>
       held (lw_table (w_lk w)) ''/d/a'' \<noteq> None \<and>
       mem_view (w_fs w) ''/d/a'' = Some (FileNode ''hello'') \<and>
       (case turns [0, 0, 0, 0, 0, 0, 0, 0] (w, ts) of
          None \<Rightarrow> False
        | Some (w', ts') \<Rightarrow>
            map (\<lambda>t. answer (snd t)) ts' = [Some StatusNoContent, Some StatusOK] \<and>
            held (lw_table (w_lk w')) ''/d/a'' \<noteq> None \<and>
            mem_view (w_fs w') ''/d/a'' = Some (FileNode ''new''))"
  by code_simp

text \<open>
  The deferred close of a \<open>GET\<close> escapes \<open>fsmu\<close>: on a driver that opens files, a \<open>GET\<close> that
  has been answered calls the driver's \<open>Close\<close> while another request holds the mutex and is
  inside the driver.
\<close>

theorem get_closes_outside_mutex:
  "\<exists>w p q. pool_reach (served (mem_handler True demo_std 5)) (demo_world demo_mem) (w, [(False, p), (True, q)]) \<and>
     w_mu w \<and> calls_driver p \<and> calls_driver q"
proof -
  let ?h = "mem_handler True demo_std 5"
  let ?c = "at_once ?h [demo_request ''GET'' ''/d/a'' [] [], demo_request ''DELETE'' ''/d/a'' [] []]"
  have "case turns (replicate 16 0 @ [1, 1]) ?c of
      None \<Rightarrow> False
    | Some (w, ts) \<Rightarrow> w_mu w \<and> map fst ts = [False, True] \<and> list_all (\<lambda>t. calls_driver (snd t)) ts"
    by code_simp
  then obtain w p q where run: "turns (replicate 16 0 @ [1, 1]) ?c = Some (w, [(False, p), (True, q)])"
    and w: "w_mu w" "calls_driver p" "calls_driver q"
    by (auto split: option.splits)
  have "pool_reach (served ?h) (demo_world demo_mem) (w, [(False, p), (True, q)])"
    by (rule turns_from [OF _ run]) auto
  then show ?thesis using w by blast
qed

end
