(* ===== verification/Access.thy ===== *)
theory Access
  imports Concurrency
begin

text \<open>
  Who may do what: the statuses the server answers with, authentication, the method table, the
  construction of a handler, and the enforcement of locks by the mutating methods.
\<close>

section \<open>The statuses of the server\<close>

definition repertoire :: "nat set" where
  "repertoire = {StatusOK, StatusPartialContent, StatusNotModified, StatusCreated, StatusNoContent, StatusMulti, StatusBadRequest, StatusForbidden,
     StatusNotFound, StatusMethodNotAllowed, StatusConflict, StatusPreconditionFailed,
     StatusRequestEntityTooLarge, StatusUnsupportedMediaType, StatusRequestedRangeNotSatisfiable,
     StatusUnprocessable, StatusLocked, StatusInternalServerError, StatusNotImplemented, StatusBadGateway,
     StatusInsufficientStorage}"

definition proper :: "http_response \<Rightarrow> bool" where
  "proper resp \<longleftrightarrow> rs_status resp \<in> repertoire \<and>
     (rs_status resp = StatusMulti \<longleftrightarrow> (\<exists>rows. rs_body resp = Multistatus rows \<and> rows \<noteq> []))"

abbreviation answers :: "'s proc \<Rightarrow> bool" where
  "answers \<equiv> keeps (\<lambda>_. True) (\<lambda>_. True) proper"

lemma answers_fs: "(\<And>x. answers (k x)) \<Longrightarrow> answers (fs_call m k)"
  by (auto simp: fs_call_def sat_map all_results_True)

lemma answers_ls: "(\<And>x. answers (k x)) \<Longrightarrow> answers (ls_call m k)"
  by (auto simp: ls_call_def sat_map all_results_True)

lemma answers_cap: "(\<And>x. answers (k x)) \<Longrightarrow> answers (cap_call m k)"
  by (auto simp: cap_call_def sat_map all_results_True)

lemma proper_error [simp]: "proper (http_error w c m) \<longleftrightarrow> c \<in> repertoire \<and> c \<noteq> StatusMulti"
  and proper_plain [simp]: "proper (respond_with w c b) \<longleftrightarrow> c \<in> repertoire \<and> c \<noteq> StatusMulti"
  and proper_multi [simp]: "proper (writeMultistatus w rows) \<longleftrightarrow> rows \<noteq> []"
  by (auto simp: proper_def http_error_def respond_with_def writeMultistatus_def repertoire_def)

lemma statusFor_proper [simp]:
  "statusFor e StatusInternalServerError \<in> repertoire" "statusFor e StatusInternalServerError \<noteq> StatusMulti"
  using statusFor_range [of e StatusInternalServerError] by (auto simp: repertoire_def status_defs)

lemma conflictOr_proper [simp]: "conflictOr e \<in> repertoire" "conflictOr e \<noteq> StatusMulti"
  by (auto simp: conflictOr_def) (simp_all add: repertoire_def status_defs)

lemma codes_proper [simp]:
  "StatusOK \<in> repertoire" "StatusCreated \<in> repertoire" "StatusNoContent \<in> repertoire"
  "StatusBadRequest \<in> repertoire" "StatusForbidden \<in> repertoire" "StatusMethodNotAllowed \<in> repertoire"
  "StatusConflict \<in> repertoire" "StatusPreconditionFailed \<in> repertoire"
  "StatusRequestEntityTooLarge \<in> repertoire" "StatusUnsupportedMediaType \<in> repertoire"
  "StatusRequestedRangeNotSatisfiable \<in> repertoire" "StatusUnprocessable \<in> repertoire"
  "StatusLocked \<in> repertoire" "StatusNotImplemented \<in> repertoire" "StatusBadGateway \<in> repertoire"
  "StatusInternalServerError \<in> repertoire" "StatusPartialContent \<in> repertoire" "StatusNotModified \<in> repertoire"
  by (simp_all add: repertoire_def)

lemma locked_not_multi [simp]:
  "StatusOK \<noteq> StatusMulti" "StatusPartialContent \<noteq> StatusMulti" "StatusNotModified \<noteq> StatusMulti" "StatusCreated \<noteq> StatusMulti" "StatusNoContent \<noteq> StatusMulti"
  "StatusBadRequest \<noteq> StatusMulti" "StatusForbidden \<noteq> StatusMulti" "StatusMethodNotAllowed \<noteq> StatusMulti"
  "StatusConflict \<noteq> StatusMulti" "StatusPreconditionFailed \<noteq> StatusMulti"
  "StatusRequestEntityTooLarge \<noteq> StatusMulti" "StatusUnsupportedMediaType \<noteq> StatusMulti"
  "StatusRequestedRangeNotSatisfiable \<noteq> StatusMulti" "StatusUnprocessable \<noteq> StatusMulti"
  "StatusLocked \<noteq> StatusMulti" "StatusNotImplemented \<noteq> StatusMulti" "StatusBadGateway \<noteq> StatusMulti"
  "StatusInternalServerError \<noteq> StatusMulti"
  by (simp_all add: status_defs)

lemma proper_lock_error [simp]: "proper (writeLockError w e)"
  by (cases e) (simp_all add: writeLockError_def)

lemma answers_checkLocks: "(\<And>x. answers (k x)) \<Longrightarrow> answers (checkLocks r p k)"
  unfolding checkLocks_def by (rule answers_ls)

lemma answers_discoveryXML: "(\<And>x. answers (k x)) \<Longrightarrow> answers (discoveryXML h p k)"
  unfolding discoveryXML_def by (auto intro!: answers_ls split: option.split)

lemma answers_space: "(\<And>x. answers (k x)) \<Longrightarrow> answers (space h k)"
  unfolding space_def by (auto intro!: answers_cap split: option.split)

lemma answers_propNames: "(\<And>x. answers (k x)) \<Longrightarrow> answers (propNames h i k)"
  unfolding propNames_def by (auto intro!: answers_space)

lemma answers_propValue: "(\<And>x. answers (k x)) \<Longrightarrow> answers (propValue h i n k)"
  unfolding propValue_def Let_def by (auto intro!: answers_space answers_discoveryXML)

lemma answers_all_props_loop: "(\<And>x. answers (k x)) \<Longrightarrow> answers (all_props_loop h i ns k)"
  by (induction ns arbitrary: k) (auto intro!: answers_propValue)

lemma answers_namedProps: "(\<And>x. answers (k x)) \<Longrightarrow> answers (namedProps h i ns k)"
  by (induction ns arbitrary: k) (auto intro!: answers_propValue split: option.split)

lemma answers_respond: "(\<And>x. answers (k x)) \<Longrightarrow> answers (respond h i req k)"
  unfolding respond_def Let_def allProps_def
  by (auto intro!: answers_propNames answers_all_props_loop answers_namedProps)

lemma answers_member_rows: "(\<And>x. answers (k x)) \<Longrightarrow> answers (member_rows h name req ns k)"
  by (induction ns arbitrary: k) (auto intro!: answers_fs answers_respond split: sum.split)

lemma answers_servePropfind: "answers (servePropfind h w r name)"
  unfolding servePropfind_def
  by (auto intro!: answers_fs answers_respond answers_member_rows split: option.split sum.split)

lemma answers_serveProppatch: "answers (serveProppatch h w r name)"
  unfolding serveProppatch_def by (auto intro!: answers_checkLocks answers_fs split: option.split sum.split)

lemma answers_closeFile: "answers k \<Longrightarrow> answers (closeFile h f k)"
  unfolding closeFile_def by (auto intro!: answers_fs)

lemma answers_remove_call: "(\<And>x. answers (k x)) \<Longrightarrow> answers (remove_call h i k)"
  unfolding remove_call_def by (auto intro!: answers_fs split: option.split)

lemma answers_servePutRange: "answers (servePutRange h w r name cr)"
  unfolding servePutRange_def putRange_body_def putRange_write_def Let_def
  by (auto intro!: answers_fs answers_closeFile
      split: sum.split writable_error.split read_error.split option.split)

lemma answers_servePut: "answers (servePut h w r name)"
  unfolding servePut_def put_write_def put_response_def
  by (auto intro!: answers_checkLocks answers_fs answers_servePutRange
      split: option.split sum.split read_error.split)

lemma answers_serveMkcol: "answers (serveMkcol h w r name)"
  unfolding serveMkcol_def by (auto intro!: answers_checkLocks answers_fs split: option.split sum.split)

lemma answers_serveDelete: "answers (serveDelete h w r name)"
  unfolding serveDelete_def
  by (auto intro!: answers_checkLocks answers_fs answers_ls answers_remove_call split: option.split sum.split)

lemma answers_prepareDestination:
  "answers (k StatusCreated) \<Longrightarrow> answers (k StatusNoContent) \<Longrightarrow> answers (prepareDestination h w r src dst k)"
  unfolding prepareDestination_def
  by (auto intro!: answers_fs answers_ls answers_remove_call split: option.split sum.split)

lemma destination_codes: "destination h r = Inl c \<Longrightarrow> c = StatusBadRequest \<or> c = StatusBadGateway"
  by (auto simp: destination_def Let_def split: if_splits option.splits)

lemma destination_not_multi [simp]: "destination h r \<noteq> Inl StatusMulti"
  using destination_codes [of h r StatusMulti] by (auto simp: status_defs)

lemma answers_serveMove: "answers (serveMove h w r name)"
  unfolding serveMove_def
  by (auto intro!: answers_checkLocks answers_fs answers_ls answers_prepareDestination
      dest: destination_codes split: option.split sum.split)

lemma answers_serveCopy: "answers (serveCopy h w r name)"
  unfolding serveCopy_def
  by (auto intro!: answers_checkLocks answers_fs answers_ls answers_prepareDestination
      dest: destination_codes split: option.split sum.split)

lemma answers_serveLock: "answers (serveLock h w r name)"
  unfolding serveLock_def lock_create_def writeLockResponse_def lock_response_def Let_def
  by (auto intro!: answers_fs answers_ls split: option.split sum.split)

lemma answers_serveUnlock: "answers (serveUnlock h w r name)"
  unfolding serveUnlock_def Let_def by (auto intro!: answers_ls split: option.split)

lemma answers_reads:
  assumes "replies proper io" and "\<And>off n k. (\<And>x. answers (k x)) \<Longrightarrow> answers (rd off n k)"
    and "\<And>resp. proper resp \<Longrightarrow> answers (fin resp)"
  shows "answers (serve_reads rd fin io)"
  using assms(1) by (induction io) (auto intro!: assms(2,3))

lemma answers_serveGet: "answers (serveGet h w r name)"
proof -
  have "replies proper (serveContent (h_std h) r ws n t len)" for ws n t len
    by (rule replies_serveContent) auto
  then have "answers (serve_content h w r i c)" for i c
    unfolding serve_content_def Let_def close_after_def
    by (auto simp: memory_read_def locked_read_def host_read_def intro!: answers_reads answers_fs answers_cap
        split: content.split)
  then show ?thesis
    unfolding serveGet_def serveIndex_def by (auto simp: Let_def intro!: answers_fs split: sum.split)
qed

lemma answers_dispatch: "answers (dispatch h w r name)"
  unfolding dispatch_def mutate_def Let_def serveOptions_def
  by (auto intro!: answers_serveGet answers_servePropfind answers_serveProppatch answers_servePut answers_serveDelete
      answers_serveMkcol answers_serveMove answers_serveCopy answers_serveLock answers_serveUnlock)

section \<open>Authentication\<close>

abbreviation turned_away :: "('s, 'f) handler \<Rightarrow> request \<Rightarrow> bool" where
  "turned_away h r \<equiv> (h_basic h \<noteq> None \<or> h_bearer h \<noteq> None) \<and> \<not> (confidential h r \<and> credentialsOK h r)"

lemma authorise_iff: "authorise h w r = None \<longleftrightarrow> \<not> turned_away h r"
  by (auto simp: authorise_def)

lemma turned_away_done:
  "turned_away h r \<Longrightarrow> \<exists>resp. ServeHTTP h r = Done resp \<and>
     rs_status resp = (if confidential h r then StatusUnauthorized else StatusUpgradeRequired) \<and>
     (\<exists>b. rs_body resp = Plain b)"
  by (auto simp: ServeHTTP_def authorise_def http_error_def)

lemma answers_ServeHTTP:
  "\<not> turned_away h r \<Longrightarrow> answers (ServeHTTP h r)"
  by (auto simp: ServeHTTP_def authorise_def intro: answers_dispatch split: option.split)

definition demo_guarded :: "(memFS, nat) handler" where
  "demo_guarded = mem_handler False demo_std 5\<lparr>h_bearer := Some (\<lambda>t. t = ''x''), h_insecureAuth := True\<rparr>"

definition demo_delete :: request where
  "demo_delete = demo_request ''DELETE'' ''/d'' [(''Authorization'', ''bearer x'')] []"

text \<open>
  C27. The gate: a request is answered 401 or 426 exactly when credentials are required and the
  connection is not confidential or no verifier accepts them; a request turned away touches neither
  the driver nor the lock table, and no failure of a driver passes for one.
\<close>

theorem authentication_gate:
  assumes "run_proc (ServeHTTP h r) w = (Some resp, w')"
  shows "(rs_status resp \<in> {StatusUnauthorized, StatusUpgradeRequired} \<longleftrightarrow>
      (h_basic h \<noteq> None \<or> h_bearer h \<noteq> None) \<and> \<not> (confidential h r \<and> credentialsOK h r))
    \<and> (rs_status resp \<in> {StatusUnauthorized, StatusUpgradeRequired} \<longrightarrow> w' = w)"
proof (cases "turned_away h r")
  case True
  from turned_away_done [OF this] obtain resp0 where "ServeHTTP h r = Done resp0"
    "rs_status resp0 \<in> {StatusUnauthorized, StatusUpgradeRequired}" by (auto split: if_splits)
  then show ?thesis using True assms by simp
next
  case False
  have "proper resp" using keeps_run [OF answers_ServeHTTP [OF False] _ _ assms] by simp
  then have "rs_status resp \<notin> {StatusUnauthorized, StatusUpgradeRequired}"
    by (auto simp: proper_def repertoire_def status_defs)
  then show ?thesis using False by blast
qed

theorem authentication_gate_witness:
  "snd (run_proc (ServeHTTP demo_guarded (demo_request ''DELETE'' ''/d'' [(''Authorization'', ''Bearer y'')] [])) (demo_world demo_mem))
     = demo_world demo_mem"
proof -
  let ?r = "demo_request ''DELETE'' ''/d'' [(''Authorization'', ''Bearer y'')] []"
  obtain x w where run: "run_proc (ServeHTTP demo_guarded ?r) (demo_world demo_mem) = (x, w)" by fastforce
  have "map_option rs_status (fst (run_proc (ServeHTTP demo_guarded ?r) (demo_world demo_mem))) = Some StatusUnauthorized"
    by code_simp
  then obtain resp where "x = Some resp" "rs_status resp = StatusUnauthorized" using run by auto
  then show ?thesis
    using authentication_gate [OF run [unfolded \<open>x = Some resp\<close>]] run by (simp add: demo_request_def)
qed

text \<open>
  Over a cleartext connection the credentials are not even read: the answer is the same 426
  whatever the headers say and whatever the verifiers would have decided.
\<close>

theorem cleartext_credentials_unread:
  assumes "\<not> confidential h r" and "h_basic h \<noteq> None \<or> h_bearer h \<noteq> None"
  shows "\<exists>resp. rs_status resp = StatusUpgradeRequired \<and> ServeHTTP h r = Done resp \<and>
    ServeHTTP (h\<lparr>h_basic := map_option (\<lambda>_. v) (h_basic h), h_bearer := map_option (\<lambda>_. u) (h_bearer h)\<rparr>)
      (r\<lparr>rq_headers := hs\<rparr>) = Done resp"
  using assms by (auto simp: ServeHTTP_def authorise_def confidential_def http_error_def)

text \<open>
  C28. Credentials are not accepted in the clear: a request that reaches a guarded server over IPv4
  without TLS, from any address outside 127.0.0.0/8, is answered 426 before its headers are read:
  the answer is the same whatever they say and whatever the verifiers would have decided.
\<close>

theorem cleartext_refused:
  assumes "h_basic h \<noteq> None \<or> h_bearer h \<noteq> None" and "\<not> h_insecureAuth h" and "\<not> rq_tls r"
    and "rq_remote r = show_dotted a b c d @ '':'' @ format_nat port"
    and "a < 256" "b < 256" "c < 256" "d < 256" and "a \<noteq> 127"
  shows "\<exists>resp. rs_status resp = StatusUpgradeRequired \<and> ServeHTTP h r = Done resp \<and>
    ServeHTTP (h\<lparr>h_basic := map_option (\<lambda>_. v) (h_basic h), h_bearer := map_option (\<lambda>_. u) (h_bearer h)\<rparr>)
      (r\<lparr>rq_headers := hs\<rparr>) = Done resp"
proof -
  have "\<forall>x \<in> set (format_nat port). is_digit x" using format_nat_digits by blast
  then have "\<not> from_loopback (rq_remote r)"
    using from_loopback_dotted [OF assms(5-8)] assms(4,9) by simp
  then have "\<not> confidential h r" using assms(2,3) by (simp add: confidential_def)
  then show ?thesis using assms(1) by (rule cleartext_credentials_unread)
qed

definition demo_peer :: "nat \<Rightarrow> string \<Rightarrow> request" where
  "demo_peer a auth =
     demo_request ''GET'' ''/'' [(''Authorization'', auth)] []\<lparr>rq_remote := show_dotted a 0 0 1 @ '':'' @ format_nat 80\<rparr>"

theorem cleartext_refused_witness:
  "\<exists>resp. rs_status resp = StatusUpgradeRequired \<and>
     ServeHTTP (mem_handler False demo_std 5\<lparr>h_bearer := Some (\<lambda>t. True)\<rparr>) (demo_peer 10 ''Bearer x'') = Done resp"
  using cleartext_refused
    [of "mem_handler False demo_std 5\<lparr>h_bearer := Some (\<lambda>t. True)\<rparr>" "demo_peer 10 ''Bearer x''" 10 0 0 1 80]
  by (auto simp: mem_handler_def base_handler_def demo_request_def demo_peer_def)

text \<open>
  C29. Basic credentials reach the verifier as the client has them: on a confidential connection, from
  whatever a client encodes (with any line breaks in it, and the scheme in any case), the verifier
  is asked about exactly that user and password, and the request is authorised when it accepts.
\<close>

theorem basic_credentials:
  assumes "rq_header r ''Authorization'' = scheme @ enc" and "map ascii_lower scheme = ''basic ''"
    and "filter (\<lambda>c. c \<noteq> CHR 10 \<and> c \<noteq> CHR 13) enc = base64_encode (user @ '':'' @ pass)"
    and "CHR '':'' \<notin> set user" and "confidential h r" and "h_basic h = Some verify" and "h_bearer h = None"
  shows "basicAuth r = Some (user, pass) \<and> (authorise h w r = None \<longleftrightarrow> verify user pass)"
proof -
  have "basicAuth r = Some (user, pass)" by (rule basicAuth_encode [OF assms(1-4)])
  then show ?thesis using assms(5-7) by (simp add: authorise_iff credentialsOK_def basicOK_def bearerOK_def)
qed

theorem basic_credentials_witness:
  "authorise (mem_handler False demo_std 5\<lparr>h_basic := Some (\<lambda>u p. u = ''me'' \<and> p = ''a:b'')\<rparr>) []
     (demo_peer 127 ''bAsic bWU6YTpi'') = None"
proof -
  have x: "from_loopback (show_dotted 127 0 0 1 @ '':'' @ format_nat 80)"
    using from_loopback_dotted [of 127 0 0 1 "format_nat 80"] format_nat_digits [of 80] by simp
  have y: "map ascii_lower ''bAsic '' = ''basic ''" by code_simp
  have z: "base64_encode ''me:a:b'' = ''bWU6YTpi''"
    by (simp add: Let_def base64_char_def base64_alphabet_def)
  show ?thesis
    using basic_credentials [of "demo_peer 127 ''bAsic bWU6YTpi''" "''bAsic ''" "''bWU6YTpi''" "''me''" "''a:b''"
        "mem_handler False demo_std 5\<lparr>h_basic := Some (\<lambda>u p. u = ''me'' \<and> p = ''a:b'')\<rparr>"] x y
    by (simp add: confidential_def mem_handler_def base_handler_def demo_request_def demo_peer_def header_get_def z
        del: base64_encode.simps)
qed

text \<open>
  C37. Every answer is one of the server's statuses, whatever a driver reports or the lock table
  decides, and it carries a multistatus document, of at least one row, exactly when it is a 207.
\<close>

theorem statuses_of_the_server:
  assumes "run_proc (ServeHTTP h r) w = (Some resp, w')"
  shows "rs_status resp \<in> {200, 201, 204, 206, 207, 304, 400, 401, 403, 404, 405, 409, 412, 413, 415, 416, 422, 423,
      426, 500, 501, 502, 507}
    \<and> (rs_status resp = 207 \<longleftrightarrow> (\<exists>rows. rs_body resp = Multistatus rows \<and> rows \<noteq> []))"
proof (cases "turned_away h r")
  case True
  from turned_away_done [OF this] obtain resp0 b where "ServeHTTP h r = Done resp0"
    "rs_status resp0 \<in> {StatusUnauthorized, StatusUpgradeRequired}" "rs_body resp0 = Plain b"
    by (auto split: if_splits)
  then show ?thesis using assms by auto
next
  case False
  have "proper resp" using keeps_run [OF answers_ServeHTTP [OF False] _ _ assms] by simp
  then show ?thesis by (auto simp: proper_def repertoire_def status_defs)
qed

theorem statuses_of_the_server_witness:
  "\<exists>resp w. run_proc (ServeHTTP demo_guarded demo_delete) (demo_world demo_mem) = (Some resp, w) \<and>
     rs_status resp \<in> {200, 201, 204, 206, 207, 304, 400, 401, 403, 404, 405, 409, 412, 413, 415, 416, 422, 423,
      426, 500, 501, 502, 507}"
proof -
  obtain x w where run: "run_proc (ServeHTTP demo_guarded demo_delete) (demo_world demo_mem) = (x, w)" by fastforce
  have "fst (run_proc (ServeHTTP demo_guarded demo_delete) (demo_world demo_mem)) \<noteq> None" by code_simp
  then obtain resp where x: "x = Some resp" using run by auto
  show ?thesis
    using statuses_of_the_server [OF run [unfolded x]] run x by (auto simp: demo_delete_def demo_request_def)
qed

lemma xor_zero: "(a :: 8 word) XOR b = 0 \<longleftrightarrow> a = b"
  by (metis xor.assoc xor.left_neutral xor.right_neutral xor_self_eq)

lemma foldl_or_zero:
  "foldl (\<lambda>v (x, y). v OR (byte_of x XOR byte_of y)) (v :: 8 word) xs = 0 \<longleftrightarrow>
     v = 0 \<and> (\<forall>(x, y) \<in> set xs. byte_of x = byte_of y)"
  by (induction xs arbitrary: v) (auto simp: or_eq_0_iff xor_zero)

lemma byte_of_inj: "byte_of c = byte_of d \<longleftrightarrow> c = d"
proof
  assume "byte_of c = byte_of d"
  then have "(of_char c :: nat) mod 256 = of_char d mod 256"
    by (simp add: byte_of_def word_of_nat_eq_iff take_bit_eq_mod)
  then show "c = d" by simp
qed simp

text \<open>
  \<open>Verify\<close>, which or-s together the differences of all bytes, is equality of strings.
\<close>

theorem Verify_is_equality: "Verify got want \<longleftrightarrow> got = want"
proof -
  have "(\<forall>(x, y) \<in> set (zip got want). x = y) \<longleftrightarrow> got = want" if "length got = length want"
    using that by (auto simp: list_eq_iff_zip_eq)
  then show ?thesis by (auto simp: Verify_def foldl_or_zero byte_of_inj)
qed

section \<open>Construction\<close>

text \<open>The options \<open>New\<close> accepts.\<close>

fun acceptable :: "'s handler_option \<Rightarrow> bool" where
  "acceptable (WithPrefix pfx) \<longleftrightarrow> valid_prefix pfx"
| "acceptable (WithBasicAuth realm v) \<longleftrightarrow> v \<noteq> None"
| "acceptable (WithBearerAuth realm v) \<longleftrightarrow> v \<noteq> None"
| "acceptable _ \<longleftrightarrow> True"

lemma prefix_accepted:
  "has_prefix pfx ''/'' \<and> \<not> has_suffix pfx ''/'' \<and> pfx = cleanPath pfx \<longleftrightarrow> canonical pfx \<and> pfx \<noteq> ''/''"
proof -
  have "\<not> has_suffix pfx ''/''" if "canonical pfx" "pfx \<noteq> ''/''"
  proof
    assume "has_suffix pfx ''/''"
    then obtain t where t: "pfx = t @ ''/''" by (auto simp: has_suffix_iff)
    then have "t \<noteq> []" using that(2) by auto
    then have "tl pfx = tl t @ CHR ''/'' # []" using t by simp
    then have "[] \<in> set (comps pfx)" using that(2) by (simp add: comps_def split_on_append_sep)
    then show False using that(1) by (auto simp: canonical_def good_comp_def)
  qed
  moreover have "has_suffix ''/'' ''/''" by (simp add: has_suffix_def)
  ultimately show ?thesis
    using canonical_cleanPath [of pfx] cleanPath_canonical [of pfx] by (auto simp: canonical_def)
qed

lemma WithPrefix_option_eq:
  "WithPrefix_option pfx h =
     (if pfx = [] then Inr h
      else if valid_prefix pfx then Inr (h\<lparr>h_prefix := pfx\<rparr>) else Inl ErrPrefix)"
proof -
  have "(\<not> has_prefix pfx ''/'' \<or> has_suffix pfx ''/'' \<or> pfx \<noteq> cleanPath pfx) = (\<not> valid_prefix pfx)"
    if "pfx \<noteq> []"
    using prefix_accepted [of pfx] that unfolding valid_prefix_def by blast
  then show ?thesis unfolding WithPrefix_option_def by simp
qed

lemmas option_rules = ReadWrite_option_def WithPrefix_option_eq WithCapacity_option_def
  WithCapacityFunc_option_def WithMaxBody_option_def WithBasicAuth_option_def
  WithBearerAuth_option_def AllowInsecureAuth_option_def

lemma apply_option_ok: "(\<exists>h'. apply_option h x = Inr h') \<longleftrightarrow> acceptable x"
  by (cases x) (auto simp: option_rules valid_prefix_def split: option.splits)

lemma apply_options_ok: "(\<exists>h'. apply_options h xs = Inr h') \<longleftrightarrow> (\<forall>x \<in> set xs. acceptable x)"
proof (induction xs arbitrary: h)
  case (Cons x xs)
  show ?case
    using apply_option_ok [of h x] Cons.IH by (cases "apply_option h x") auto
qed simp

text \<open>What a list of options does to a handler.\<close>

definition follows :: "('s, 'f) handler \<Rightarrow> 's handler_option list \<Rightarrow> ('s, 'f) handler \<Rightarrow> bool" where
  "follows h xs h' \<longleftrightarrow>
     h_fs h' = h_fs h \<and> (valid_prefix (h_prefix h) \<longrightarrow> valid_prefix (h_prefix h')) \<and>
     (0 < h_maxBody h \<longrightarrow> 0 < h_maxBody h') \<and>
     (h_ro h' \<longleftrightarrow> h_ro h \<and> ReadWrite \<notin> set xs) \<and>
     (h_insecureAuth h' \<longleftrightarrow> h_insecureAuth h \<or> AllowInsecureAuth \<in> set xs) \<and>
     (h_basic h' = None \<longleftrightarrow> h_basic h = None \<and> (\<forall>realm v. WithBasicAuth realm v \<notin> set xs)) \<and>
     (h_bearer h' = None \<longleftrightarrow> h_bearer h = None \<and> (\<forall>realm v. WithBearerAuth realm v \<notin> set xs))"

lemma followsD:
  assumes "follows h xs h'"
  shows "h_fs h' = h_fs h" and "valid_prefix (h_prefix h) \<Longrightarrow> valid_prefix (h_prefix h')"
    and "0 < h_maxBody h \<Longrightarrow> 0 < h_maxBody h'"
    and "h_ro h' \<longleftrightarrow> h_ro h \<and> ReadWrite \<notin> set xs"
    and "h_insecureAuth h' \<longleftrightarrow> h_insecureAuth h \<or> AllowInsecureAuth \<in> set xs"
    and "h_basic h' = None \<longleftrightarrow> h_basic h = None \<and> (\<forall>realm v. WithBasicAuth realm v \<notin> set xs)"
    and "h_bearer h' = None \<longleftrightarrow> h_bearer h = None \<and> (\<forall>realm v. WithBearerAuth realm v \<notin> set xs)"
  using assms unfolding follows_def by blast+

lemma follows_trans:
  assumes "follows h xs h1" and "follows h1 ys h2"
  shows "follows h (xs @ ys) h2"
  unfolding follows_def
proof (intro conjI impI)
  note a = followsD [OF assms(1)] and b = followsD [OF assms(2)]
  show "h_fs h2 = h_fs h" using a(1) b(1) by simp
  show "valid_prefix (h_prefix h) \<Longrightarrow> valid_prefix (h_prefix h2)" using a(2) b(2) by blast
  show "0 < h_maxBody h \<Longrightarrow> 0 < h_maxBody h2" using a(3) b(3) by blast
  show "h_ro h2 \<longleftrightarrow> h_ro h \<and> ReadWrite \<notin> set (xs @ ys)" using a(4) b(4) by simp
  show "h_insecureAuth h2 \<longleftrightarrow> h_insecureAuth h \<or> AllowInsecureAuth \<in> set (xs @ ys)" using a(5) b(5) by simp
  show "h_basic h2 = None \<longleftrightarrow> h_basic h = None \<and> (\<forall>realm v. WithBasicAuth realm v \<notin> set (xs @ ys))"
    unfolding a(6) b(6) set_append by blast
  show "h_bearer h2 = None \<longleftrightarrow> h_bearer h = None \<and> (\<forall>realm v. WithBearerAuth realm v \<notin> set (xs @ ys))"
    unfolding a(7) b(7) set_append by blast
qed

lemma apply_option_follows:
  assumes "apply_option h x = Inr h'"
  shows "follows h [x] h'"
proof (cases x)
  case (WithPrefix pfx)
  then show ?thesis using assms
    by (cases "pfx = []"; cases "valid_prefix pfx"; simp add: option_rules follows_def; (elim conjE)?; hypsubst?; simp)
next
  case (WithBasicAuth realm v)
  then show ?thesis using assms by (cases v; simp add: option_rules follows_def; hypsubst?; simp)
next
  case (WithBearerAuth realm v)
  then show ?thesis using assms by (cases v; simp add: option_rules follows_def; hypsubst?; simp)
qed (use assms in \<open>simp add: option_rules follows_def defaultMaxBody_def; hypsubst?; simp\<close>)+

lemma apply_options_follows: "apply_options h xs = Inr h' \<Longrightarrow> follows h xs h'"
proof (induction xs arbitrary: h)
  case (Cons x xs)
  then obtain h1 where h1: "apply_option h x = Inr h1" "apply_options h1 xs = Inr h'"
    by (auto split: sum.splits)
  show ?case
    using follows_trans [OF apply_option_follows [OF h1(1)] Cons.IH [OF h1(2)]] by simp
qed (simp add: follows_def)

text \<open>
  Construction: \<open>New\<close> succeeds exactly when it has a filesystem, the CSPRNG works and every
  option is acceptable. The handler then exports that filesystem with an empty lock table, under a
  prefix that is empty or a canonical path, with a positive body limit; it is read-only unless
  \<open>ReadWrite\<close> was given, and asks for credentials exactly when a verifier was.
\<close>

theorem New_configures:
  "(case New fsys g start fuel rnd opts of
     Inl e \<Rightarrow> fsys = None \<or> isl rnd \<or> (\<exists>x \<in> set opts. \<not> acceptable x)
   | Inr (h, locks) \<Rightarrow>
       fsys = Some (h_fs h) \<and> \<not> isl rnd \<and> (\<forall>x \<in> set opts. acceptable x) \<and> locks = empty_locks \<and>
       valid_prefix (h_prefix h) \<and> 0 < h_maxBody h \<and> (h_ro h \<longleftrightarrow> ReadWrite \<notin> set opts) \<and>
       (h_insecureAuth h \<longleftrightarrow> AllowInsecureAuth \<in> set opts) \<and>
       (h_basic h = None \<and> h_bearer h = None \<longleftrightarrow>
          (\<forall>realm v u. WithBasicAuth realm v \<notin> set opts \<and> WithBearerAuth realm u \<notin> set opts)))"
proof (cases "New fsys g start fuel rnd opts")
  case (Inl e)
  then show ?thesis
    using apply_options_ok [of "base_handler (the fsys) g start fuel" opts]
    by (auto simp: New_def newLockSystem_def split: option.splits sum.splits)
next
  case (Inr hl)
  obtain h locks where hl: "hl = (h, locks)" by (cases hl)
  obtain fs b where n: "fsys = Some fs" "rnd = Inr b" "locks = empty_locks"
    "apply_options (base_handler fs g start fuel) opts = Inr h"
    using Inr hl by (auto simp: New_def newLockSystem_def split: option.splits sum.splits)
  have "\<forall>x \<in> set opts. acceptable x" using apply_options_ok n(4) by blast
  then show ?thesis
    unfolding Inr hl using apply_options_follows [OF n(4)] n
    by (auto simp: follows_def base_handler_def valid_prefix_def defaultMaxBody_def)
qed

theorem New_configures_witness:
  "\<exists>h. New (Some (mem_driver False)) demo_std 0 5 (Inr ''x'') [WithPrefix ''/dav'', ReadWrite] = Inr (h, empty_locks) \<and>
     \<not> h_ro h \<and> valid_prefix (h_prefix h)"
proof -
  have "\<not> isl (New (Some (mem_driver False)) demo_std 0 5 (Inr ''x'') [WithPrefix ''/dav'', ReadWrite])"
    by code_simp
  then obtain h locks where "New (Some (mem_driver False)) demo_std 0 5 (Inr ''x'') [WithPrefix ''/dav'', ReadWrite] = Inr (h, locks)"
    by (cases "New (Some (mem_driver False)) demo_std 0 5 (Inr ''x'') [WithPrefix ''/dav'', ReadWrite]") auto
  then show ?thesis
    using New_configures [where fsys = "Some (mem_driver False)" and g = demo_std and start = 0 and fuel = 5
        and rnd = "Inr ''x''" and opts = "[WithPrefix ''/dav'', ReadWrite]"] by simp
qed

section \<open>Locks are enforced\<close>

lemma confirm_locked:
  assumes "ls_inv ls" and "canonical p" and "live now (held ls) q = Some l"
    and "q = p \<or> strictlyUnder q p \<and> lk_depth l = depthInfinity" and "lk_token l \<notin> set ts"
  shows "fst (confirm now p ts ls) = Some ErrLocked"
proof -
  have "blocks p depthZero l"
    using assms(4) exclusiveD(2) [OF ls_inv_exclusive [OF assms(1)], of q l] assms(3)
    by (auto simp: blocks_def live_Some)
  then show ?thesis
    using lk.scope_credential [OF assms(1,2,3)] assms(5) confirm_result [of now p ts ls] by auto
qed

lemma run_checkLocks [run_simps]:
  "run_proc (checkLocks r p k) w =
     (case confirm (lw_now (w_lk w)) p (submittedTokens (rq_header r ''If'')) (lw_table (w_lk w)) of
        (res, t) \<Rightarrow> run_proc (k res) (w\<lparr>w_lk := (w_lk w)\<lparr>lw_table := t\<rparr>\<rparr>))"
  by (simp add: checkLocks_def run_ls_call lw_confirm_def split: prod.splits)

text \<open>The paths whose locks a mutating request must hold the token of.\<close>

definition guarded :: "('s, 'f) handler \<Rightarrow> request \<Rightarrow> path \<Rightarrow> path set" where
  "guarded h r name =
     (if rq_method r \<in> {''PUT'', ''DELETE''} then (if name = ''/'' then {} else {name})
      else if rq_method r \<in> {''MKCOL'', ''PROPPATCH''} then {name}
      else (case destination h r of
          Inl _ \<Rightarrow> {}
        | Inr dst \<Rightarrow>
            if rq_method r = ''MOVE'' then (if name = ''/'' then {} else {name, dst})
            else if rq_method r = ''COPY'' \<and> parseDepth (rq_header r ''Depth'') \<in> {Some depthZero, Some depthInfinity}
            then {dst} else {}))"

definition refused_locked :: "'s proc \<Rightarrow> 's world \<Rightarrow> bool" where
  "refused_locked p w \<longleftrightarrow>
     (case run_proc p w of (res, w') \<Rightarrow>
        (\<exists>resp. res = Some resp \<and> rs_status resp = StatusLocked) \<and> w_fs w' = w_fs w \<and> w_mu w' = w_mu w \<and>
        held (lw_table (w_lk w')) = live (lw_now (w_lk w)) (held (lw_table (w_lk w))))"

lemma checkLocks_refuses:
  assumes "ls_inv (lw_table (w_lk w))"
    and "fst (confirm (lw_now (w_lk w)) p (submittedTokens (rq_header r ''If'')) (lw_table (w_lk w))) = Some ErrLocked"
    and "k (Some ErrLocked) = Done (writeLockError hs ErrLocked)"
  shows "refused_locked (checkLocks r p k) w"
proof -
  obtain t where c: "confirm (lw_now (w_lk w)) p (submittedTokens (rq_header r ''If'')) (lw_table (w_lk w)) = (Some ErrLocked, t)"
    using assms(2) by (cases "confirm (lw_now (w_lk w)) p (submittedTokens (rq_header r ''If'')) (lw_table (w_lk w))") auto
  then have "t = sweep (lw_now (w_lk w)) (lw_table (w_lk w))"
    using confirm_state [of "lw_now (w_lk w)" p "submittedTokens (rq_header r ''If'')" "lw_table (w_lk w)"] by simp
  then show ?thesis
    using assms(1,3) c by (simp add: refused_locked_def run_checkLocks held_sweep ls_inv_linked)
qed

text \<open>A first check that passes leaves the second one to decide, on the same live locks.\<close>

lemma checkLocks_passes_on:
  assumes "ls_inv (lw_table (w_lk w))"
    and "fst (confirm (lw_now (w_lk w)) p (submittedTokens (rq_header r ''If'')) (lw_table (w_lk w))) = None"
    and "refused_locked (k None) (w\<lparr>w_lk := (w_lk w)\<lparr>lw_table := sweep (lw_now (w_lk w)) (lw_table (w_lk w))\<rparr>\<rparr>)"
  shows "refused_locked (checkLocks r p k) w"
proof -
  have c: "confirm (lw_now (w_lk w)) p (submittedTokens (rq_header r ''If'')) (lw_table (w_lk w)) =
      (None, sweep (lw_now (w_lk w)) (lw_table (w_lk w)))"
    using assms(2) confirm_state by (metis prod.collapse)
  show ?thesis
    using assms(1,3) by (simp add: refused_locked_def run_checkLocks c held_sweep ls_inv_linked)
qed

abbreviation locked_out :: "request \<Rightarrow> path \<Rightarrow> int \<Rightarrow> lockSystem \<Rightarrow> bool" where
  "locked_out r p now ls \<equiv> fst (confirm now p (submittedTokens (rq_header r ''If'')) ls) = Some ErrLocked"

text \<open>A \<open>MOVE\<close> asks for its source, then, on a swept table, for its destination.\<close>

lemma move_refused:
  assumes "ls_inv (lw_table (w_lk w))" and "destination h r = Inr d" and "name \<noteq> ''/''" and "p = name \<or> p = d"
    and "locked_out r p (lw_now (w_lk w)) (lw_table (w_lk w))"
    and "locked_out r p (lw_now (w_lk w)) (sweep (lw_now (w_lk w)) (lw_table (w_lk w)))"
  shows "refused_locked (serveMove h ws r name) w"
proof (cases "locked_out r name (lw_now (w_lk w)) (lw_table (w_lk w))")
  case True
  then show ?thesis
    unfolding serveMove_def assms(2) sum.case if_not_P [OF assms(3)]
    by (intro checkLocks_refuses [OF assms(1)]) simp_all
next
  case False
  then have free: "fst (confirm (lw_now (w_lk w)) name (submittedTokens (rq_header r ''If'')) (lw_table (w_lk w))) = None"
    using confirm_result [of "lw_now (w_lk w)" name "submittedTokens (rq_header r ''If'')" "lw_table (w_lk w)"] by auto
  have "p = d" using False assms(4,5) by auto
  then show ?thesis
    unfolding serveMove_def assms(2) sum.case if_not_P [OF assms(3)]
    using assms(6) ls_inv_sweep [OF assms(1)]
    by (intro checkLocks_passes_on [OF assms(1) free], unfold option.case, intro checkLocks_refuses) simp_all
qed

lemma copy_refused:
  assumes "ls_inv (lw_table (w_lk w))" and "destination h r = Inr d"
    and "parseDepth (rq_header r ''Depth'') \<in> {Some depthZero, Some depthInfinity}"
    and "locked_out r d (lw_now (w_lk w)) (lw_table (w_lk w))"
  shows "refused_locked (serveCopy h ws r name) w"
  unfolding serveCopy_def assms(2) sum.case using assms(3,4)
  by (auto simp: depthZero_def depthOne_def depthInfinity_def intro!: checkLocks_refuses [OF assms(1)])

text \<open>
  C3. Locks are enforced: a \<open>PUT\<close>, \<open>DELETE\<close>, \<open>MKCOL\<close> or \<open>PROPPATCH\<close> of a path, a \<open>MOVE\<close> from or
  to it and a \<open>COPY\<close> to it are answered 423, with the driver not called and no live lock changed,
  when the path or a collection above it (with depth infinity) is locked and the request does not
  submit the lock's token.
\<close>

theorem locked_resource_refused:
  assumes "ls_inv (lw_table (w_lk w))" and "\<not> h_ro h" and "h_basic h = None" and "h_bearer h = None"
    and "resource (h_prefix h) (rq_path r) = Some name" and "p \<in> guarded h r name"
    and "live (lw_now (w_lk w)) (held (lw_table (w_lk w))) q = Some l"
    and "q = p \<or> strictlyUnder q p \<and> lk_depth l = depthInfinity"
    and "lk_token l \<notin> set (submittedTokens (rq_header r ''If''))"
  shows "\<exists>resp w'. run_proc (ServeHTTP h r) w = (Some resp, w') \<and> rs_status resp = StatusLocked
    \<and> w_fs w' = w_fs w \<and> held (lw_table (w_lk w')) = live (lw_now (w_lk w)) (held (lw_table (w_lk w)))"
proof -
  let ?ts = "submittedTokens (rq_header r ''If'')" and ?now = "lw_now (w_lk w)" and ?ls = "lw_table (w_lk w)"
  have p: "canonical p"
    using assms(6) resource_SomeD(1) [OF assms(5)] canonical_destination
    by (auto simp: guarded_def split: if_splits sum.splits)
  have locked: "locked_out r p ?now ?ls"
    by (rule confirm_locked [OF assms(1) p assms(7-9)])
  have again: "locked_out r p ?now (sweep ?now ?ls)"
    by (rule confirm_locked [OF ls_inv_sweep [OF assms(1)] p _ assms(8,9)])
       (use assms(1,7) in \<open>simp add: held_sweep ls_inv_linked\<close>)
  have serve: "ServeHTTP h r = dispatch h (setDAV h []) r name"
    using assms(3-5) by (simp add: ServeHTTP_def authorise_def)
  consider (at) "p = name" "rq_method r \<notin> {''MOVE'', ''COPY''}"
    | (move) d where "rq_method r = ''MOVE''" "destination h r = Inr d" "name \<noteq> ''/''" "p = name \<or> p = d"
    | (copy) "rq_method r = ''COPY''" "destination h r = Inr p"
        "parseDepth (rq_header r ''Depth'') \<in> {Some depthZero, Some depthInfinity}"
    using assms(6) by (auto simp: guarded_def split: if_splits sum.splits)
  then have "refused_locked (ServeHTTP h r) w"
  proof cases
    case at
    then show ?thesis
      using assms(2,6) locked unfolding serve
      by (auto simp: dispatch_def mutate_def guarded_def servePut_def serveDelete_def serveMkcol_def
          serveProppatch_def intro!: checkLocks_refuses [OF assms(1)] split: if_splits sum.splits)
  next
    case move
    then show ?thesis
      using assms(2) move_refused [OF assms(1) move(2-4) locked again] by (simp add: serve dispatch_def mutate_def)
  next
    case copy
    then show ?thesis
      using assms(2) copy_refused [OF assms(1) copy(2,3) locked] by (simp add: serve dispatch_def mutate_def)
  qed
  then show ?thesis by (auto simp: refused_locked_def split: prod.splits)
qed

theorem locked_resource_refused_witness:
  "map_option rs_status (fst (run_proc
     (ServeHTTP (mem_handler False demo_std 5) (demo_request ''PUT'' ''/a/b'' [(''If'', ''(<other>)'')] ''x''))
     \<lparr>w_fs = demo_mem, w_lk = \<lparr>lw_table = demo_locks, lw_now = 3, lw_rand = demo_random\<rparr>, w_mu = False\<rparr>)) = Some StatusLocked"
proof -
  let ?h = "mem_handler False demo_std 5"
  let ?r = "demo_request ''PUT'' ''/a/b'' [(''If'', ''(<other>)'')] ''x''"
  let ?w = "\<lparr>w_fs = demo_mem, w_lk = \<lparr>lw_table = demo_locks, lw_now = 3, lw_rand = demo_random\<rparr>, w_mu = False\<rparr>"
  have "live 3 (held demo_locks) ''/a'' = Some (new_lock 0 demo_token ''/a'' depthInfinity [] 10)"
    by (simp add: live_def demo_held expired_def new_lock_def)
  moreover have "strictlyUnder ''/a'' ''/a/b''" "resource [] ''/a/b'' = Some ''/a/b''"
    "\<not> demo_token \<in> set (submittedTokens ''(<other>)'')" by code_simp+
  moreover have "''/a/b'' \<in> guarded ?h ?r ''/a/b''" by (simp add: guarded_def demo_request_def)
  ultimately have "\<exists>resp w'. run_proc (ServeHTTP ?h ?r) ?w = (Some resp, w') \<and> rs_status resp = StatusLocked
      \<and> w_fs w' = demo_mem \<and> held (lw_table (w_lk w')) = live 3 (held demo_locks)"
    using locked_resource_refused [of ?w ?h ?r "''/a/b''" "''/a/b''" "''/a''" "new_lock 0 demo_token ''/a'' depthInfinity [] 10"]
      demo_inv
    by (simp add: mem_handler_def base_handler_def demo_request_def new_lock_def header_get_def)
  then show ?thesis by auto
qed

section \<open>The method table\<close>

text \<open>What a server offers: the methods that read and, unless it is read-only, those that write.\<close>

definition offered :: "('s, 'f) handler \<Rightarrow> (string \<times> (headers \<Rightarrow> request \<Rightarrow> path \<Rightarrow> 's proc)) list" where
  "offered h =
     [(''OPTIONS'', \<lambda>w r name. Done (serveOptions h w)), (''GET'', serveGet h), (''HEAD'', serveGet h),
      (''PROPFIND'', servePropfind h)] @
     (if h_ro h then []
      else [(''PUT'', servePut h), (''DELETE'', serveDelete h), (''MKCOL'', serveMkcol h), (''COPY'', serveCopy h),
        (''MOVE'', serveMove h), (''PROPPATCH'', serveProppatch h), (''LOCK'', serveLock h), (''UNLOCK'', serveUnlock h)])"

lemma header_get_del [simp]: "header_get (header_del w k) j = (if j = k then [] else header_get w j)"
  by (simp add: header_get_def)

fun comma_list :: "string list \<Rightarrow> string" where
  "comma_list [] = []"
| "comma_list [m] = m"
| "comma_list (m # n # ms) = m @ '', '' @ comma_list (n # ms)"

text \<open>
  C36. The method table: the \<open>Allow\<close> header lists exactly the methods that are served, each is served
  by its handler, a writing method of a read-only export is answered 403 and any other method
  405, both with that list and without touching the driver or the lock table.
\<close>

theorem method_table:
  assumes "h_basic h = None" and "h_bearer h = None" and "resource (h_prefix h) (rq_path r) = Some name"
  shows "allowed_methods h = comma_list (map fst (offered h))
    \<and> (case map_of (offered h) (rq_method r) of
        Some serve \<Rightarrow> ServeHTTP h r = serve (setDAV h []) r name
      | None \<Rightarrow> \<exists>resp. ServeHTTP h r = Done resp \<and> header_get (rs_headers resp) ''Allow'' = allowed_methods h \<and>
          rs_status resp = (if rq_method r \<in> {''PUT'', ''DELETE'', ''MKCOL'', ''COPY'', ''MOVE'', ''PROPPATCH'',
            ''LOCK'', ''UNLOCK''} then StatusForbidden else StatusMethodNotAllowed))"
proof
  show "allowed_methods h = comma_list (map fst (offered h))"
    by (simp add: allowed_methods_def read_methods_def offered_def)
  have serve: "ServeHTTP h r = dispatch h (setDAV h []) r name"
    using assms by (simp add: ServeHTTP_def authorise_def)
  show "case map_of (offered h) (rq_method r) of
        Some serve \<Rightarrow> ServeHTTP h r = serve (setDAV h []) r name
      | None \<Rightarrow> \<exists>resp. ServeHTTP h r = Done resp \<and> header_get (rs_headers resp) ''Allow'' = allowed_methods h \<and>
          rs_status resp = (if rq_method r \<in> {''PUT'', ''DELETE'', ''MKCOL'', ''COPY'', ''MOVE'', ''PROPPATCH'',
            ''LOCK'', ''UNLOCK''} then StatusForbidden else StatusMethodNotAllowed)"
    unfolding serve
  proof (cases "rq_method r \<in> {''OPTIONS'', ''GET'', ''HEAD'', ''PROPFIND'', ''PUT'', ''DELETE'', ''MKCOL'', ''COPY'',
      ''MOVE'', ''PROPPATCH'', ''LOCK'', ''UNLOCK''}")
    case True
    then show "case map_of (offered h) (rq_method r) of
        Some serve \<Rightarrow> dispatch h (setDAV h []) r name = serve (setDAV h []) r name
      | None \<Rightarrow> \<exists>resp. dispatch h (setDAV h []) r name = Done resp \<and>
          header_get (rs_headers resp) ''Allow'' = allowed_methods h \<and>
          rs_status resp = (if rq_method r \<in> {''PUT'', ''DELETE'', ''MKCOL'', ''COPY'', ''MOVE'', ''PROPPATCH'',
            ''LOCK'', ''UNLOCK''} then StatusForbidden else StatusMethodNotAllowed)"
      by (elim insertE emptyE; simp add: dispatch_def Let_def mutate_def offered_def http_error_def)
  next
    case False
    then show "case map_of (offered h) (rq_method r) of
        Some serve \<Rightarrow> dispatch h (setDAV h []) r name = serve (setDAV h []) r name
      | None \<Rightarrow> \<exists>resp. dispatch h (setDAV h []) r name = Done resp \<and>
          header_get (rs_headers resp) ''Allow'' = allowed_methods h \<and>
          rs_status resp = (if rq_method r \<in> {''PUT'', ''DELETE'', ''MKCOL'', ''COPY'', ''MOVE'', ''PROPPATCH'',
            ''LOCK'', ''UNLOCK''} then StatusForbidden else StatusMethodNotAllowed)"
      by (simp add: dispatch_def Let_def mutate_def offered_def http_error_def)
  qed
qed

theorem method_table_witness:
  "\<exists>resp. ServeHTTP (base_handler (mem_driver False) demo_std 0 5) (demo_request ''PUT'' ''/d'' [] []) = Done resp \<and>
     rs_status resp = StatusForbidden"
proof -
  have "resource [] ''/d'' = Some ''/d''" by code_simp
  then show ?thesis
    using method_table [of "base_handler (mem_driver False) demo_std 0 5" "demo_request ''PUT'' ''/d'' [] []" "''/d''"]
    by (auto simp: base_handler_def demo_request_def offered_def)
qed

end
