(* ===== verification/Escaping.thy ===== *)
theory Escaping
  imports Server
begin

text \<open>
  Text that leaves the server inside another syntax: names in the HTML index, values in XML, the
  realm in a header. Each is read back as it was meant, and none can end the syntax it is put in.
\<close>

section \<open>Code points and their bytes\<close>

text \<open>A code point below 128 is one byte; the bytes of any other have the top bit set.\<close>

lemma decode_rune_bytes:
  assumes "decode_rune s = Some (r, n)"
  shows "r < 128 \<and> take n s = [char_of r] \<or> 128 \<le> r \<and> (\<forall>c \<in> set (take n s). 128 \<le> (of_char c :: nat))"
proof -
  obtain a s1 where s: "s = a # s1" using assms by (cases s) (auto simp: decode_rune_def)
  define b :: nat where "b = of_char a"
  show ?thesis
  proof (cases "b < 128")
    case True
    then show ?thesis using assms s by (auto simp: decode_rune_def b_def Let_def)
  next
    case False
    then have b: "194 \<le> b" "b \<le> 244" and lead: "128 \<le> (of_char a :: nat)"
      using assms s by (auto simp: decode_rune_def b_def Let_def split: if_splits)
    obtain c s2 where s1: "s1 = c # s2" and sec: "second_byte_ok b c"
      using assms s b False by (cases s1) (auto simp: decode_rune_def b_def Let_def split: if_splits)
    have c: "128 \<le> (of_char c :: nat)" "b = 224 \<Longrightarrow> 160 \<le> (of_char c :: nat)" "b = 240 \<Longrightarrow> 144 \<le> (of_char c :: nat)"
      using sec by (auto simp: second_byte_ok_def in_range_def split: if_splits)
    show ?thesis
    proof (cases "b < 224")
      case True
      then have "r = (b - 192) * 64 + cont c" "n = 2" using assms s s1 sec b False
        by (auto simp: decode_rune_def b_def Let_def split: if_splits)
      then show ?thesis using b c lead s s1 by (auto simp: numeral_2_eq_2)
    next
      case ge3: False
      obtain d s3 where s2: "s2 = d # s3" and din: "in_range 0x80 0xBF d"
        using assms s s1 sec b False ge3
        by (cases s2) (auto simp: decode_rune_def b_def Let_def in_range_def split: if_splits)
      have d: "128 \<le> (of_char d :: nat)" using din by (simp add: in_range_def)
      have big: "2 \<le> (b - 224) * 64 + cont c \<or> 240 \<le> b"
        using ge3 c by (cases "b = 224") (auto simp: cont_def)
      show ?thesis
      proof (cases "b < 240")
        case True
        then have "r = ((b - 224) * 64 + cont c) * 64 + cont d" "n = 3"
          using assms s s1 s2 sec b False ge3
          by (auto simp: decode_rune_def b_def Let_def split: if_splits)
        then show ?thesis using True big c d lead s s1 s2 by (auto simp: numeral_3_eq_3)
      next
        case ge4: False
        have "decode_rune s = (case s3 of [] \<Rightarrow> None | e # s4 \<Rightarrow>
            if \<not> in_range 0x80 0xBF e then None
            else Some ((((b - 0xF0) * 64 + cont c) * 64 + cont d) * 64 + cont e, 4))"
          using sec din b False ge3 ge4
          by (simp add: decode_rune_def s s1 s2 Let_def b_def [symmetric])
        then obtain e s4 where s3: "s3 = e # s4" and e: "128 \<le> (of_char e :: nat)"
          and r: "r = (((b - 240) * 64 + cont c) * 64 + cont d) * 64 + cont e" "n = 4"
          using assms by (cases s3) (auto simp: in_range_def split: if_splits)
        have "1 \<le> (b - 240) * 64 + cont c" using ge4 c(3) by (cases "b = 240") (auto simp: cont_def)
        then have "128 \<le> r" by (simp add: r)
        moreover have "take n s = [a, c, d, e]" by (simp add: r(2) s s1 s2 s3)
        ultimately show ?thesis using c(1) d e lead by simp
      qed
    qed
  qed
qed

lemma runes_bytes:
  "(Some r, w) \<in> set (runes s) \<Longrightarrow>
     r < 128 \<and> w = [char_of r] \<or> 128 \<le> r \<and> (\<forall>c \<in> set w. 128 \<le> (of_char c :: nat))"
proof (induction s rule: runes.induct)
  case (1 s)
  show ?case
  proof (cases s)
    case Nil
    then show ?thesis using 1 by simp
  next
    case (Cons c s')
    show ?thesis
    proof (cases "decode_rune s")
      case None
      have "runes s = (None, [c]) # runes s'" using None Cons by (subst runes.simps) simp
      then show ?thesis using 1(1) [OF Cons None] 1(3) by simp
    next
      case (Some p)
      obtain q n where p: "p = (q, n)" by (cases p)
      have "(Some r, w) = (Some q, take n s) \<or> (Some r, w) \<in> set (runes (drop n s))"
      proof -
        have "runes s = (Some q, take n s) # runes (drop n s)" using Some Cons p by (subst runes.simps) simp
        then show ?thesis using 1(3) by simp
      qed
      then show ?thesis using decode_rune_bytes [of s q n] 1(2) [OF Cons Some p [symmetric]] Some p by auto
    qed
  qed
qed

section \<open>Quoted header strings\<close>

text \<open>How a client reads a quoted-string: up to the first quote that is not escaped.\<close>

fun unquote :: "string \<Rightarrow> (string \<times> string) option" where
  "unquote [] = None"
| "unquote (c # s) =
     (if c = CHR 34 then Some ([], s)
      else if c = CHR 92 then (case s of [] \<Rightarrow> None | d # t \<Rightarrow> map_option (apfst ((#) d)) (unquote t))
      else map_option (apfst ((#) c)) (unquote s))"

text \<open>A text without its control characters, invalid bytes replaced.\<close>

definition legible :: "string \<Rightarrow> string" where
  "legible s = concat (map (\<lambda>u. case fst u of
       None \<Rightarrow> replacement
     | Some r \<Rightarrow> if r < 0x20 \<or> r = 0x7F then [] else snd u) (runes s))"

lemma unquote_plain:
  "\<forall>c \<in> set w. c \<noteq> CHR 34 \<and> c \<noteq> CHR 92 \<Longrightarrow> unquote (w @ s) = map_option (apfst ((@) w)) (unquote s)"
  by (induction w) (auto simp: option.map_comp comp_def apfst_def map_prod_def option.map_id split: prod.split intro!: option.map_cong)

lemma high_plain: "128 \<le> (of_char c :: nat) \<Longrightarrow> c \<noteq> CHR 34 \<and> c \<noteq> CHR 92"
  by auto

lemma unquote_rune:
  assumes "(u, w) \<in> set (runes s)"
  shows "unquote (quote_rune (u, w) @ t) =
    map_option (apfst ((@) (case u of None \<Rightarrow> replacement | Some r \<Rightarrow> if r < 0x20 \<or> r = 0x7F then [] else w)))
      (unquote t)"
proof (cases u)
  case None
  have "\<forall>c \<in> set replacement. c \<noteq> CHR 34 \<and> c \<noteq> CHR 92" by (simp add: replacement_def)
  then show ?thesis using None unquote_plain by (simp add: quote_rune_def)
next
  case (Some r)
  consider "r = 34 \<or> r = 92" | "r \<noteq> 34" "r \<noteq> 92" by blast
  then show ?thesis
  proof cases
    case 1
    then have "w = [char_of r]" using runes_bytes [of r w s] assms Some by auto
    then show ?thesis using 1 Some by (auto simp: quote_rune_def apfst_def map_prod_def intro!: option.map_cong)
  next
    case 2
    have low: "char_of r \<noteq> CHR 34 \<and> char_of r \<noteq> CHR 92" if "r < 128"
    proof -
      have "(of_char (char_of r :: char) :: nat) = r" using that by simp
      then show ?thesis using 2 by fastforce
    qed
    have "\<forall>c \<in> set w. c \<noteq> CHR 34 \<and> c \<noteq> CHR 92"
      using low runes_bytes [of r w s] assms Some high_plain by auto
    then show ?thesis using 2 Some unquote_plain by (auto simp: quote_rune_def apfst_def map_prod_def option.map_id0 option.map_ident)
  qed
qed

lemma unquote_runes:
  "set us \<subseteq> set (runes s) \<Longrightarrow>
   unquote (concat (map quote_rune us) @ CHR 34 # t) =
     Some (concat (map (\<lambda>u. case fst u of
       None \<Rightarrow> replacement
     | Some r \<Rightarrow> if r < 0x20 \<or> r = 0x7F then [] else snd u) us), t)"
proof (induction us)
  case (Cons u us)
  then show ?case using unquote_rune [of "fst u" "snd u" s] by simp
qed simp

lemma quote_rune_bytes:
  assumes "(u, w) \<in> set (runes s)" and "c \<in> set (quote_rune (u, w))"
  shows "32 \<le> (of_char c :: nat) \<and> (of_char c :: nat) \<noteq> 127"
proof (cases u)
  case None
  then show ?thesis using assms(2) by (auto simp: quote_rune_def replacement_def)
next
  case (Some r)
  then show ?thesis using runes_bytes [of r w s] assms
    by (auto simp: quote_rune_def split: if_splits)
qed

text \<open>
  No header injection: a realm inside the quotes of a challenge is read back by a client as
  that realm without its control characters, whatever bytes it is made of, the quoted string ends
  where the server ends it, and no control character is left in the header.
\<close>

lemma quoteHeader_is_quoted:
  "unquote (quoteHeader s @ CHR 34 # t) = Some (legible s, t)
   \<and> (\<forall>c \<in> set (quoteHeader s). 32 \<le> (of_char c :: nat) \<and> (of_char c :: nat) \<noteq> 127)"
proof
  show "unquote (quoteHeader s @ CHR 34 # t) = Some (legible s, t)"
    using unquote_runes [of "runes s" s t] by (simp add: quoteHeader_def legible_def)
  show "\<forall>c \<in> set (quoteHeader s). 32 \<le> (of_char c :: nat) \<and> (of_char c :: nat) \<noteq> 127"
    using quote_rune_bytes by (force simp: quoteHeader_def)
qed

section \<open>Markup\<close>

text \<open>How a browser or an XML parser reads text: the character references, and the rest as it is.\<close>

definition references :: "(string \<times> string) list" where
  "references = [(''&lt;'', ''<''), (''&gt;'', ''>''), (''&amp;'', ''&''), (''&#34;'', [CHR 34]), (''&#39;'', [CHR 39]),
     (''&#x9;'', [CHR 9]), (''&#xA;'', [CHR 10]), (''&#xD;'', [CHR 13])]"

function unescape_text :: "string \<Rightarrow> string" where
  "unescape_text s =
     (case s of
        [] \<Rightarrow> []
      | c # t \<Rightarrow>
          (case find (\<lambda>(e, x). e \<noteq> [] \<and> has_prefix s e) references of
             Some (e, x) \<Rightarrow> x @ unescape_text (drop (length e) s)
           | None \<Rightarrow> c # unescape_text t))"
  by pat_completeness auto
termination
  by (relation "measure length") (auto simp: find_Some_iff)

declare unescape_text.simps [simp del]

lemma unescape_Nil [simp]: "unescape_text [] = []"
  by (simp add: unescape_text.simps)

lemma unescape_reference:
  assumes "(e, x) \<in> set references"
  shows "unescape_text (e @ t) = x @ unescape_text t"
  using assms by (subst unescape_text.simps) (auto simp: references_def)

lemma unescape_byte:
  assumes "c \<noteq> CHR ''&''"
  shows "unescape_text (c # t) = c # unescape_text t"
  using assms by (subst unescape_text.simps) (auto simp: references_def)

lemma unescape_plain: "CHR ''&'' \<notin> set w \<Longrightarrow> unescape_text (w @ t) = w @ unescape_text t"
  by (induction w) (auto simp: unescape_byte)

definition markup :: "char set" where
  "markup = {CHR ''<'', CHR ''>'', CHR 34, CHR 39}"

text \<open>
  No name becomes markup: what \<open>writeHTML\<close> writes has no angle bracket and no quote, and a
  browser reads it back as the name.
\<close>

lemma writeHTML_roundtrip:
  "set (writeHTML s) \<inter> markup = {} \<and> unescape_text (writeHTML s @ t) = s @ unescape_text t"
proof
  show "set (writeHTML s) \<inter> markup = {}"
    by (auto simp: writeHTML_eq markup_def html_special_def html_entity_def split: if_splits)
  show "unescape_text (writeHTML s @ t) = s @ unescape_text t"
    unfolding writeHTML_eq
  proof (induction s)
    case (Cons c s)
    show ?case
    proof (cases "html_special c")
      case True
      then have "(html_entity c, [c]) \<in> set references"
        by (auto simp: html_special_def html_entity_def references_def)
      from unescape_reference [OF this] show ?thesis using True Cons.IH by simp
    next
      case False
      then have "c \<noteq> CHR ''&''" by (simp add: html_special_def)
      then show ?thesis using False Cons.IH by (simp add: unescape_byte)
    qed
  qed simp
qed

text \<open>The text an XML document can carry: characters outside the \<open>Char\<close> production are replaced.\<close>

definition xml_legible :: "string \<Rightarrow> string" where
  "xml_legible s = concat (map (\<lambda>u. case fst u of
       None \<Rightarrow> replacement
     | Some r \<Rightarrow> if in_character_range r then snd u else replacement) (runes s))"

lemma unescape_replacement: "unescape_text (replacement @ t) = replacement @ unescape_text t"
  by (rule unescape_plain) (simp add: replacement_def)

lemma low_char:
  assumes "(r :: nat) < 128"
  shows "char_of r = (c :: char) \<longleftrightarrow> r = of_char c"
proof -
  have "r mod 256 = r" using assms by simp
  then show ?thesis by auto
qed

lemma escape_rune_references:
  "\<forall>r \<in> {34, 39, 38, 60, 62, 9, 10, 13}. (escape_rune (Some r, [char_of r]), [char_of r]) \<in> set references \<and>
     in_character_range r \<and> set (escape_rune (Some r, [char_of r])) \<inter> markup = {}"
  by code_simp

lemma escape_rune_reads:
  assumes "(u, w) \<in> set (runes s)"
  shows "set (escape_rune (u, w)) \<inter> markup = {}"
    and "unescape_text (escape_rune (u, w) @ t) =
      (case u of None \<Rightarrow> replacement | Some r \<Rightarrow> if in_character_range r then w else replacement) @ unescape_text t"
proof -
  have rep: "set replacement \<inter> markup = {}" by (simp add: replacement_def markup_def)
  have both: "set (escape_rune (u, w)) \<inter> markup = {} \<and> unescape_text (escape_rune (u, w) @ t) =
      (case u of None \<Rightarrow> replacement | Some r \<Rightarrow> if in_character_range r then w else replacement) @ unescape_text t"
  proof (cases u)
    case None
    then show ?thesis using rep by (simp add: escape_rune_def unescape_replacement)
  next
    case (Some r)
    show ?thesis
    proof (cases "r \<in> {34, 39, 38, 60, 62, 9, 10, 13}")
      case True
      then have w: "w = [char_of r]" using runes_bytes [of r w s] assms Some by auto
      from escape_rune_references True have "(escape_rune (u, w), [char_of r]) \<in> set references"
        "in_character_range r" "set (escape_rune (u, w)) \<inter> markup = {}"
        unfolding Some w by blast+
      then show ?thesis using unescape_reference [of "escape_rune (u, w)" "[char_of r]" t] Some w by simp
    next
      case False
      have esc: "escape_rune (u, w) = (if in_character_range r then w else replacement)"
        using False Some by (simp add: escape_rune_def)
      have "c \<notin> insert (CHR ''&'') markup" if "c \<in> set w" for c
      proof (cases "r < 128")
        case True
        then have "c = char_of r" using that runes_bytes [of r w s] assms Some by auto
        then show ?thesis using True False low_char [OF True] by (auto simp: markup_def)
      next
        case ge: False
        then have "128 \<le> (of_char c :: nat)" using that runes_bytes [of r w s] assms Some by auto
        then show ?thesis by (auto simp: markup_def)
      qed
      then have "set w \<inter> markup = {}" "CHR ''&'' \<notin> set w" by blast+
      then show ?thesis using esc rep Some by (simp add: unescape_replacement unescape_plain)
    qed
  qed
  then show "set (escape_rune (u, w)) \<inter> markup = {}"
    and "unescape_text (escape_rune (u, w) @ t) =
      (case u of None \<Rightarrow> replacement | Some r \<Rightarrow> if in_character_range r then w else replacement) @ unescape_text t"
    by blast+
qed

lemma escape_runes_read:
  "set us \<subseteq> set (runes s) \<Longrightarrow>
   set (concat (map escape_rune us)) \<inter> markup = {} \<and>
   unescape_text (concat (map escape_rune us) @ t) = concat (map (\<lambda>u. case fst u of
       None \<Rightarrow> replacement
     | Some r \<Rightarrow> if in_character_range r then snd u else replacement) us) @ unescape_text t"
proof (induction us)
  case (Cons u us)
  then show ?case using escape_rune_reads [of "fst u" "snd u" s] by simp blast
qed simp

text \<open>
  No property value becomes markup: \<open>textValue\<close> writes no angle bracket, quote or control
  character, and an XML parser reads back the value, with what XML cannot represent replaced.
\<close>

lemma textValue_roundtrip:
  "set (textValue s) \<inter> markup = {} \<and> unescape_text (textValue s @ t) = xml_legible s @ unescape_text t"
  using escape_runes_read [of "runes s" s t] by (simp add: textValue_def xml_legible_def)

text \<open>
  C40. Nothing the server writes of a name, a value or a realm can leave the place it is written to: the
  HTML index and the property values carry no angle bracket and no quote and are read back as the name
  and the value (with what XML cannot represent replaced), and a realm ends its quoted string where the
  server ends it, leaves no control character in the header and is read back without those it had.
\<close>

theorem written_text_reads_back:
  "set (writeHTML s) \<inter> markup = {} \<and> unescape_text (writeHTML s @ t) = s @ unescape_text t
   \<and> set (textValue s) \<inter> markup = {} \<and> unescape_text (textValue s @ t) = xml_legible s @ unescape_text t
   \<and> unquote (quoteHeader s @ CHR 34 # t) = Some (legible s, t)
   \<and> (\<forall>c \<in> set (quoteHeader s). 32 \<le> (of_char c :: nat) \<and> (of_char c :: nat) \<noteq> 127)"
  using writeHTML_roundtrip [of s t] textValue_roundtrip [of s t] quoteHeader_is_quoted [of s t] by blast

theorem written_text_reads_back_witness:
  "unquote (quoteHeader [CHR ''a'', CHR 34, CHR 10, CHR ''b''] @ [CHR 34]) = Some ([CHR ''a'', CHR 34, CHR ''b''], [])"
proof -
  have "legible [CHR ''a'', CHR 34, CHR 10, CHR ''b''] = [CHR ''a'', CHR 34, CHR ''b'']" by code_simp
  then show ?thesis using written_text_reads_back [of "[CHR ''a'', CHR 34, CHR 10, CHR ''b'']" "[]"] by simp
qed

end
