(* ===== verification/Effects.thy ===== *)
theory Effects
  imports Access
begin

text \<open>
  What a request, served alone, does to the tree behind a driver that obeys the laws of
  \<open>DriverLaws\<close> and to the live locks. \<open>yields\<close> says it of one program; its rules, one for each kind
  of action, let the proof of a handler follow the handler's own steps.
\<close>

section \<open>What a request does to the tree\<close>

definition accepted :: "('s, 'f) handler \<Rightarrow> request \<Rightarrow> path \<Rightarrow> bool" where
  "accepted h r name \<longleftrightarrow>
     \<not> h_ro h \<and> authorise h [] r = None \<and> resource (h_prefix h) (rq_path r) = Some name"

lemma accepted_canonical: "accepted h r name \<Longrightarrow> canonical name"
  using resource_SomeD(1) by (auto simp: accepted_def)

lemma accepted_serves:
  assumes "accepted h r name"
  shows "rq_method r = ''PUT'' \<Longrightarrow> ServeHTTP h r = servePut h (setDAV h []) r name"
    and "rq_method r = ''MKCOL'' \<Longrightarrow> ServeHTTP h r = serveMkcol h (setDAV h []) r name"
    and "rq_method r = ''DELETE'' \<Longrightarrow> ServeHTTP h r = serveDelete h (setDAV h []) r name"
    and "rq_method r = ''COPY'' \<Longrightarrow> ServeHTTP h r = serveCopy h (setDAV h []) r name"
    and "rq_method r = ''MOVE'' \<Longrightarrow> ServeHTTP h r = serveMove h (setDAV h []) r name"
    and "rq_method r = ''LOCK'' \<Longrightarrow> ServeHTTP h r = serveLock h (setDAV h []) r name"
    and "rq_method r = ''UNLOCK'' \<Longrightarrow> ServeHTTP h r = serveUnlock h (setDAV h []) r name"
    and "rq_method r = ''PROPFIND'' \<Longrightarrow> ServeHTTP h r = servePropfind h (setDAV h []) r name"
  using assms by (simp_all add: accepted_def ServeHTTP_def dispatch_def mutate_def Let_def)

definition permitted :: "request \<Rightarrow> path \<Rightarrow> lock_world \<Rightarrow> bool" where
  "permitted r p l \<longleftrightarrow> fst (confirm (lw_now l) p (submittedTokens (rq_header r ''If'')) (lw_table l)) = None"

definition locks_at :: "lock_world \<Rightarrow> path \<Rightarrow> lockInfo option" where
  "locks_at l = live (lw_now l) (held (lw_table l))"

definition without_locks :: "path \<Rightarrow> (path \<Rightarrow> lockInfo option) \<Rightarrow> path \<Rightarrow> lockInfo option" where
  "without_locks p t = (\<lambda>q. if under p q then None else t q)"

text \<open>
  \<open>wp p w Q\<close>: the request answers when it runs alone from \<open>w\<close>, and \<open>Q\<close> holds of the answer and of
  the world it leaves. \<open>yields\<close> is the form the mutating methods are specified in: the status and the
  tree, the live locks, and the invariants of the driver and of the lock table kept.
\<close>

definition wp :: "'s proc \<Rightarrow> 's world \<Rightarrow> (http_response \<Rightarrow> 's world \<Rightarrow> bool) \<Rightarrow> bool" where
  "wp p w Q \<longleftrightarrow> (\<exists>resp w'. run_proc p w = (Some resp, w') \<and> Q resp w')"

definition outcome ::
  "('s \<Rightarrow> bool) \<Rightarrow> ('s \<Rightarrow> tree) \<Rightarrow> nat \<times> tree \<Rightarrow> (path \<Rightarrow> lockInfo option) \<Rightarrow> http_response \<Rightarrow> 's world \<Rightarrow> bool" where
  "outcome fsinv view out locks resp w \<longleftrightarrow>
     (rs_status resp, view (w_fs w)) = out \<and> fsinv (w_fs w) \<and> \<not> w_mu w \<and>
     ls_inv (lw_table (w_lk w)) \<and> locks_at (w_lk w) = locks"

abbreviation yields ::
  "('s \<Rightarrow> bool) \<Rightarrow> ('s \<Rightarrow> tree) \<Rightarrow> 's proc \<Rightarrow> 's world \<Rightarrow> nat \<times> tree \<Rightarrow> (path \<Rightarrow> lockInfo option) \<Rightarrow> bool" where
  "yields fsinv view p w out locks \<equiv> wp p w (outcome fsinv view out locks)"

lemma wp_mono: "wp p w Q \<Longrightarrow> (\<And>resp w'. Q resp w' \<Longrightarrow> R resp w') \<Longrightarrow> wp p w R"
  unfolding wp_def by blast

lemma wp_Done: "wp (Done resp) w Q \<longleftrightarrow> Q resp w"
  by (simp add: wp_def)

lemma wp_Lock:
  "\<not> w_mu w \<Longrightarrow> wp (Lock p) w Q \<longleftrightarrow> wp p (w\<lparr>w_mu := True\<rparr>) Q"
  by (simp add: wp_def run_simps)

lemma wp_Unlock:
  "wp (Unlock p) w Q \<longleftrightarrow> wp p (w\<lparr>w_mu := False\<rparr>) Q"
  by (simp add: wp_def run_simps)

lemma wp_fs:
  "wp (fs_call m k) w Q \<longleftrightarrow>
     (case run_state m (w_fs w) of (x, s) \<Rightarrow> wp (k x) (w\<lparr>w_fs := s\<rparr>) Q)"
  by (simp add: wp_def run_simps split: prod.splits)

lemmas wp_simps = wp_Done wp_Lock wp_Unlock outcome_def

lemma locks_at_sweep:
  "ls_inv (lw_table l) \<Longrightarrow> locks_at (l\<lparr>lw_table := sweep (lw_now l) (lw_table l)\<rparr>) = locks_at l"
  by (simp add: locks_at_def held_sweep ls_inv_linked)

lemma sweep_sweep: "linked ls \<Longrightarrow> sweep now (sweep now ls) = sweep now ls"
  by (simp add: sweep_eq linked_restrict restrict_restrict)

text \<open>A lock check that passes, and the release of the locks of a tree.\<close>

lemma wp_checkLocks:
  assumes "permitted r p (w_lk w)" and "ls_inv (lw_table (w_lk w))"
    and "\<And>w'. w_fs w' = w_fs w \<Longrightarrow> w_mu w' = w_mu w \<Longrightarrow> ls_inv (lw_table (w_lk w')) \<Longrightarrow>
      locks_at (w_lk w') = locks_at (w_lk w) \<Longrightarrow> (\<And>q. permitted r q (w_lk w') = permitted r q (w_lk w)) \<Longrightarrow>
      wp (k None) w' Q"
  shows "wp (checkLocks r p k) w Q"
proof -
  let ?l = "w_lk w"
  let ?w' = "w\<lparr>w_lk := ?l\<lparr>lw_table := sweep (lw_now ?l) (lw_table ?l)\<rparr>\<rparr>"
  have "wp (k None) ?w' Q"
  proof (rule assms(3))
    show "ls_inv (lw_table (w_lk ?w'))" using assms(2) by (simp add: ls_inv_sweep)
    show "locks_at (w_lk ?w') = locks_at ?l" using locks_at_sweep [OF assms(2)] by simp
    show "permitted r q (w_lk ?w') = permitted r q ?l" for q
      using sweep_sweep [OF ls_inv_linked [OF assms(2)], of "lw_now ?l"] by (simp add: permitted_def confirm_def)
  qed simp_all
  moreover have "confirm (lw_now ?l) p (submittedTokens (rq_header r ''If'')) (lw_table ?l) =
      (None, sweep (lw_now ?l) (lw_table ?l))"
    using assms(1) confirm_state [of "lw_now ?l" p _ "lw_table ?l"] by (simp add: permitted_def prod_eq_iff)
  ultimately show ?thesis by (simp add: wp_def run_checkLocks)
qed

lemma wp_release:
  assumes "ls_inv (lw_table (w_lk w))"
    and "\<And>w'. w_fs w' = w_fs w \<Longrightarrow> w_mu w' = w_mu w \<Longrightarrow> ls_inv (lw_table (w_lk w')) \<Longrightarrow>
      locks_at (w_lk w') = without_locks p (locks_at (w_lk w)) \<Longrightarrow>
      wp (k ()) w' Q"
  shows "wp (ls_call (lw_release p) k) w Q"
proof -
  let ?w' = "w\<lparr>w_lk := (w_lk w)\<lparr>lw_table := releaseTree p (lw_table (w_lk w))\<rparr>\<rparr>"
  have "wp (k ()) ?w' Q"
  proof (rule assms(2))
    show "ls_inv (lw_table (w_lk ?w'))" using assms(1) by (simp add: ls_inv_releaseTree)
    show "locks_at (w_lk ?w') = without_locks p (locks_at (w_lk w))"
      using assms(1) by (auto simp: without_locks_def locks_at_def live_def held_releaseTree ls_inv_linked)
  qed simp_all
  then show ?thesis by (simp add: wp_def run_simps lw_release_def)
qed


section \<open>The rules of a driver that obeys the laws\<close>

definition told :: "node option \<Rightarrow> path \<Rightarrow> go_error + resourceInfo \<Rightarrow> bool" where
  "told nd p ri \<longleftrightarrow>
     (case nd of
        None \<Rightarrow> \<exists>e. ri = Inl e \<and> notFound e
      | Some x \<Rightarrow> \<exists>i. ri = Inr i \<and> ri_path i = p \<and> (ri_isDir i \<longleftrightarrow> x = DirNode))"

lemma told_None: "told None p ri \<longleftrightarrow> (\<exists>e. ri = Inl e \<and> notFound e)"
  and told_Some: "told (Some x) p ri \<longleftrightarrow> (\<exists>i. ri = Inr i \<and> ri_path i = p \<and> (ri_isDir i \<longleftrightarrow> x = DirNode))"
  by (simp_all add: told_def)

lemma told_SomeD: "told (Some x) p ri \<Longrightarrow> \<exists>i. ri = Inr i"
  by (auto simp: told_def)

context filesystem
begin

lemma wp_info:
  assumes "h_fs h = d" and "fsinv (w_fs w)" and "canonical p"
    and "\<And>ri s. told (view (w_fs w) p) p ri \<Longrightarrow> fsinv s \<Longrightarrow> view s = view (w_fs w) \<Longrightarrow>
      wp (k ri) (w\<lparr>w_fs := s\<rparr>) Q"
  shows "wp (fs_call (info h p) k) w Q"
proof (cases "view (w_fs w) p")
  case None
  obtain e s where "run_state (info h p) (w_fs w) = (Inl e, s)" "notFound e" "fsinv s" "view s = view (w_fs w)"
    by (rule info_absent [OF assms(2,1,3) None])
  then show ?thesis using assms(4) [of "Inl e" s] None by (simp add: wp_fs told_None)
next
  case (Some nd)
  obtain i s where "run_state (info h p) (w_fs w) = (Inr i, s)" "ri_path i = p"
    "ri_isDir i \<longleftrightarrow> nd = DirNode" "fsinv s" "view s = view (w_fs w)"
    by (rule info_present [OF assms(2,1) Some])
  then show ?thesis using assms(4) [of "Inr i" s] Some by (simp add: wp_fs told_Some)
qed

lemma wp_Stat:
  assumes "fsinv (w_fs w)" and "canonical p"
    and "\<And>st s. (isl st \<longleftrightarrow> view (w_fs w) p = None) \<Longrightarrow> (\<And>e. st = Inl e \<Longrightarrow> notFound e) \<Longrightarrow> fsinv s \<Longrightarrow>
      view s = view (w_fs w) \<Longrightarrow> wp (k st) (w\<lparr>w_fs := s\<rparr>) Q"
  shows "wp (fs_call (drv_Stat d p) k) w Q"
proof -
  obtain st s where st: "run_state (drv_Stat d p) (w_fs w) = (st, s)" by fastforce
  from Stat [OF assms(1,2) st] have "wp (k st) (w\<lparr>w_fs := s\<rparr>) Q"
    by (intro assms(3)) (auto simp: stat_agrees_def split: option.splits)
  then show ?thesis by (simp add: wp_fs st)
qed

lemma wp_WriteFile:
  assumes "fsinv (w_fs w)" and "canonical p" and "p \<noteq> ''/''" and "view (w_fs w) (parentOf p) = Some DirNode"
    and "view (w_fs w) p \<noteq> Some DirNode"
    and "\<And>s. fsinv s \<Longrightarrow> view s = (view (w_fs w))(p \<mapsto> FileNode b) \<Longrightarrow>
      wp (k None) (w\<lparr>w_fs := s\<rparr>) Q"
  shows "wp (fs_call (drv_WriteFile d p b m) k) w Q"
proof -
  obtain e s where e: "run_state (drv_WriteFile d p b m) (w_fs w) = (e, s)" by fastforce
  from WriteFile [OF assms(1-5) e] show ?thesis using assms(6) [of s] by (simp add: wp_fs e)
qed

lemma wp_MkDir:
  assumes "fsinv (w_fs w)" and "canonical p" and "view (w_fs w) (parentOf p) = Some DirNode"
    and "view (w_fs w) p = None"
    and "\<And>s. fsinv s \<Longrightarrow> view s = (view (w_fs w))(p \<mapsto> DirNode) \<Longrightarrow>
      wp (k None) (w\<lparr>w_fs := s\<rparr>) Q"
  shows "wp (fs_call (drv_MkDir d p m) k) w Q"
proof -
  obtain e s where e: "run_state (drv_MkDir d p m) (w_fs w) = (e, s)" by fastforce
  from MkDir [OF assms(1-4) e] show ?thesis using assms(5) [of s] by (simp add: wp_fs e)
qed

lemma wp_Rename:
  assumes "fsinv (w_fs w)" and "view (w_fs w) p = Some (FileNode b)" and "canonical q" and "view (w_fs w) q = None"
    and "view (w_fs w) (parentOf q) = Some DirNode"
    and "\<And>s. fsinv s \<Longrightarrow> view s = (view (w_fs w))(p := None, q \<mapsto> FileNode b) \<Longrightarrow>
      wp (k None) (w\<lparr>w_fs := s\<rparr>) Q"
  shows "wp (fs_call (drv_Rename d p q) k) w Q"
proof -
  obtain e s where e: "run_state (drv_Rename d p q) (w_fs w) = (e, s)" by fastforce
  from Rename [OF assms(1-5) e] show ?thesis using assms(6) [of s] by (simp add: wp_fs e)
qed

lemma wp_remove:
  assumes h: "h_fs h = d" and "fsinv (w_fs w)" and i: "told (view (w_fs w) p) p (Inr i)"
    and "p \<noteq> ''/''" and "fits (h_fuel h) p (view (w_fs w))"
    and "\<And>s. fsinv s \<Longrightarrow> view s = cut_tree p (view (w_fs w)) \<Longrightarrow>
      wp (k []) (w\<lparr>w_fs := s\<rparr>) Q"
  shows "wp (remove_call h i k) w Q"
proof -
  obtain nd where nd: "view (w_fs w) p = Some nd" "ri_path i = p" "ri_isDir i \<longleftrightarrow> nd = DirNode"
    using i by (auto simp: told_def split: option.splits)
  then obtain s where "run_state (removeTree (h_fuel h) h i) (w_fs w) = (Some [], s)" "fsinv s"
    "view s = cut_tree p (view (w_fs w))"
    using removeTree_correct [OF h assms(2), of i nd "h_fuel h"] assms(4,5) by auto
  then show ?thesis using assms(6) [of s] by (simp add: remove_call_def wp_fs)
qed

lemma wp_copy:
  assumes h: "h_fs h = d" and "copies_files fsinv view h" and "fsinv (w_fs w)"
    and i: "told (view (w_fs w) p) p (Inr i)"
    and "canonical q" and "view (w_fs w) q = None" and "view (w_fs w) (parentOf q) = Some DirNode"
    and "apart p q" and "fits (h_fuel h) p (view (w_fs w))"
    and "\<And>s. fsinv s \<Longrightarrow> view s = (if deep \<or> view (w_fs w) p \<noteq> Some DirNode then graft p q (view (w_fs w))
        else (view (w_fs w))(q \<mapsto> DirNode)) \<Longrightarrow> wp (k (Some [])) (w\<lparr>w_fs := s\<rparr>) Q"
  shows "wp (fs_call (copyTree (h_fuel h) h i q deep) k) w Q"
proof -
  obtain nd where nd: "view (w_fs w) p = Some nd" "ri_path i = p" "ri_isDir i \<longleftrightarrow> nd = DirNode"
    using i by (auto simp: told_def split: option.splits)
  have "\<exists>s. run_state (copyTree (h_fuel h) h i q deep) (w_fs w) = (Some [], s) \<and> fsinv s \<and>
    view s = (if deep \<or> nd \<noteq> DirNode then graft p q (view (w_fs w)) else (view (w_fs w))(q \<mapsto> DirNode))"
  proof (cases "deep \<or> nd \<noteq> DirNode")
    case True
    then have "copyTree (h_fuel h) h i q deep = copyTree (h_fuel h) h i q True"
      using nd(3) by (cases "h_fuel h") auto
    then show ?thesis
      using copyTree_correct [OF h assms(2,3), of i nd q "h_fuel h"] nd assms(5-9) True by simp
  next
    case False
    obtain n where n: "h_fuel h = Suc n" using nd(1) assms(9) by (cases "h_fuel h") (auto simp: fits_def)
    obtain e s where e: "run_state (drv_MkDir d q defaultDirPerm) (w_fs w) = (e, s)" by fastforce
    from MkDir [OF assms(3,5,7,6) e] show ?thesis using False nd(3) by (simp add: n h e)
  qed
  then obtain s where "run_state (copyTree (h_fuel h) h i q deep) (w_fs w) = (Some [], s)" "fsinv s"
    "view s = (if deep \<or> nd \<noteq> DirNode then graft p q (view (w_fs w)) else (view (w_fs w))(q \<mapsto> DirNode))"
    by blast
  then show ?thesis using assms(10) [of s] nd(1) by (simp add: wp_fs)
qed

end

context precise
begin

lemma wp_Rename_absent:
  assumes "fsinv (w_fs w)" and "canonical p" and "canonical q" and "view (w_fs w) p = None"
    and "\<And>err s. notFound err \<Longrightarrow> fsinv s \<Longrightarrow> view s = view (w_fs w) \<Longrightarrow> wp (k (Some err)) (w\<lparr>w_fs := s\<rparr>) Q"
  shows "wp (fs_call (drv_Rename d p q) k) w Q"
proof -
  obtain e s where e: "run_state (drv_Rename d p q) (w_fs w) = (e, s)" by fastforce
  from Rename_absent [OF assms(1-4) e] show ?thesis using assms(5) by (auto simp: wp_fs e)
qed

lemma wp_copy_absent:
  assumes h: "h_fs h = d" and "fsinv (w_fs w)" and "canonical (ri_path i)" and "view (w_fs w) (ri_path i) = None"
    and "canonical q" and "view (w_fs w) q = None" and "view (w_fs w) (parentOf q) = Some DirNode" and "ri_path i \<noteq> q"
    and "h_fuel h \<noteq> 0"
    and "\<And>fs s. fsinv s \<Longrightarrow> fs = [] \<longleftrightarrow> ri_isDir i \<and> \<not> deep \<Longrightarrow>
      view s = (if ri_isDir i then (view (w_fs w))(q \<mapsto> DirNode) else view (w_fs w)) \<Longrightarrow>
      wp (k (Some fs)) (w\<lparr>w_fs := s\<rparr>) Q"
  shows "wp (fs_call (copyTree (h_fuel h) h i q deep) k) w Q"
proof -
  obtain n where n: "h_fuel h = Suc n" using assms(9) by (cases "h_fuel h") auto
  obtain fs s where "run_state (copyTree (Suc n) h i q deep) (w_fs w) = (Some fs, s)" "fsinv s"
    "fs = [] \<longleftrightarrow> ri_isDir i \<and> \<not> deep" "view s = (if ri_isDir i then (view (w_fs w))(q \<mapsto> DirNode) else view (w_fs w))"
    using copy_absent [OF assms(1-8)] by metis
  then show ?thesis using assms(10) by (simp add: wp_fs n)
qed

end

section \<open>The small server\<close>

lemma demo_view: "mem_view demo_mem = [''/'' \<mapsto> DirNode, ''/d'' \<mapsto> DirNode, ''/d/a'' \<mapsto> FileNode ''hello'']"
  by (rule ext) (simp add: mem_view_def demo_mem_def mem_is_dir_def sIFMT_def sIFDIR_def)

lemma demo_cases:
  assumes "mem_view demo_mem p \<noteq> None"
  shows "p \<in> set [''/'', ''/d'', ''/d/a'']"
  using assms by (auto simp: demo_view split: if_splits)

lemma demo_paths:
  "\<forall>p \<in> set [''/'', ''/d'', ''/d/a'']. canonical p \<and> length (comps p) < 5 \<and> parentOf p \<in> set [''/'', ''/d'']"
  by code_simp

lemma demo_mem_inv: "mem_inv demo_mem"
proof (rule mem_invI)
  have "canonical p \<and> mem_view demo_mem (parentOf p) = Some DirNode" if "mem_view demo_mem p \<noteq> None" for p
  proof -
    have "canonical p" "parentOf p \<in> set [''/'', ''/d'']" using demo_paths demo_cases [OF that] by blast+
    then show ?thesis by (auto simp: demo_view)
  qed
  then show "tree_ok (mem_view demo_mem)" unfolding tree_ok_def by (simp add: demo_view)
qed (auto simp: demo_mem_def split: if_splits)

lemma demo_fits: "fits 5 p (mem_view demo_mem)"
  unfolding fits_def
proof (intro allI impI)
  fix q assume "mem_view demo_mem q \<noteq> None \<and> under p q"
  then have "length (comps q) < 5" using demo_paths demo_cases by blast
  then show "length (comps q) < length (comps p) + 5" by simp
qed

lemma demo_permitted:
  assumes "canonical p"
  shows "permitted r p demo_lw"
proof -
  have "held empty_locks = Map.empty" by (rule ext) (simp add: held_def empty_locks_def)
  then show ?thesis
    using lk.conf_pass [OF ls_inv_empty assms] by (simp add: permitted_def demo_lw_def live_def)
qed

lemma demo_accepted:
  assumes "resource [] p = Some p"
  shows "accepted (mem_handler opens demo_std n) (demo_request m p hs b) p"
  using assms by (simp add: accepted_def mem_handler_def base_handler_def authorise_def demo_request_def)

lemma demo_destination:
  assumes "p \<in> {''/b'', ''/d''}"
  shows "destination (mem_handler opens demo_std n) (demo_request m q [(''Destination'', p)] b) = Inr p"
proof -
  have "url_parse Some ''/b'' = Some ([], ''/b'')" "resource [] ''/b'' = Some ''/b''"
    "url_parse Some ''/d'' = Some ([], ''/d'')" "resource [] ''/d'' = Some ''/d''" by code_simp+
  then show ?thesis using assms
    by (auto simp: destination_def mem_handler_def base_handler_def demo_request_def demo_std_def header_get_def)
qed

lemma demo_fields [simp]:
  "w_fs (demo_world s) = s" "w_lk (demo_world s) = demo_lw" "\<not> w_mu (demo_world s)"
  "ls_inv (lw_table demo_lw)" "h_fs (mem_handler opens g n) = mem_driver opens"
  "h_fuel (mem_handler opens g n) = n" "h_maxBody (mem_handler opens g n) = defaultMaxBody"
  "rq_method (demo_request m p hs b) = m" "rq_body (demo_request m p hs b) = b"
  "rq_body_err (demo_request m p hs b) = None" "rq_headers (demo_request m p hs b) = hs"
  by (simp_all add: demo_world_def demo_lw_def mem_handler_def base_handler_def demo_request_def)

end
