(* ===== verification/WriteSpecs.thy ===== *)
theory WriteSpecs
  imports Effects
begin

text \<open>
  The mutating methods refine functions on the tree: the status of the answer and the new tree are
  those of \<open>put_spec\<close>, \<open>mkcol_spec\<close>, \<open>delete_spec\<close>, \<open>move_spec\<close> and \<open>copy_spec\<close>, and the locks
  that go are those of what was moved, removed or overwritten.
\<close>

section \<open>The methods as functions on the tree\<close>

definition put_spec :: "int \<Rightarrow> request \<Rightarrow> path \<Rightarrow> tree \<Rightarrow> nat \<times> tree" where
  "put_spec limit r p v =
     (if p = ''/'' then (StatusMethodNotAllowed, v)
      else if v (parentOf p) \<noteq> Some DirNode then (StatusConflict, v)
      else if limit < int (length (rq_body r)) then (StatusRequestEntityTooLarge, v)
      else if rq_body_err r \<noteq> None then (StatusBadRequest, v)
      else (if v p = None then StatusCreated else StatusNoContent, v(p \<mapsto> FileNode (rq_body r))))"

definition mkcol_spec :: "request \<Rightarrow> path \<Rightarrow> tree \<Rightarrow> nat \<times> tree" where
  "mkcol_spec r p v =
     (if rq_body r \<noteq> [] then (StatusUnsupportedMediaType, v)
      else if v p \<noteq> None then (StatusMethodNotAllowed, v)
      else if v (parentOf p) \<noteq> Some DirNode then (StatusConflict, v)
      else (StatusCreated, v(p \<mapsto> DirNode)))"

definition delete_spec :: "path \<Rightarrow> tree \<Rightarrow> nat \<times> tree" where
  "delete_spec p v =
     (if p = ''/'' then (StatusForbidden, v)
      else if v p = None then (StatusNotFound, v)
      else (StatusNoContent, cut_tree p v))"

text \<open>Whether a \<open>COPY\<close> or \<open>MOVE\<close> may put something at \<open>dst\<close>: a refusal, or the status of success.\<close>

definition target_verdict :: "bool option \<Rightarrow> path \<Rightarrow> path \<Rightarrow> tree \<Rightarrow> nat + nat" where
  "target_verdict ow src dst v =
     (if dst = src \<or> dst = ''/'' \<or> strictlyUnder src dst then Inl StatusForbidden
      else (case ow of
          None \<Rightarrow> Inl StatusBadRequest
        | Some o' \<Rightarrow>
            if v (parentOf dst) \<noteq> Some DirNode then Inl StatusConflict
            else if v dst = None then Inr StatusCreated
            else if \<not> o' then Inl StatusPreconditionFailed
            else Inr StatusNoContent))"

text \<open>
  Putting something at \<open>dst\<close> removes what is there, with \<open>src\<close> when \<open>dst\<close> is above it: then a \<open>MOVE\<close>
  does not find its source any more, and a \<open>COPY\<close> of a collection makes an empty one (207 unless
  \<open>Depth: 0\<close> asked for no more than that).
\<close>

definition move_spec :: "bool option \<Rightarrow> path \<Rightarrow> path \<Rightarrow> tree \<Rightarrow> nat \<times> tree" where
  "move_spec ow src dst v =
     (if src = ''/'' then (StatusForbidden, v)
      else if v src = None then (StatusNotFound, v)
      else (case target_verdict ow src dst v of
          Inl code \<Rightarrow> (code, v)
        | Inr code \<Rightarrow>
            if strictlyUnder dst src then (StatusNotFound, cut_tree dst v)
            else (code, (cut_tree dst v)(src := None, dst := v src))))"

definition copy_spec :: "bool \<Rightarrow> bool option \<Rightarrow> path \<Rightarrow> path \<Rightarrow> tree \<Rightarrow> nat \<times> tree" where
  "copy_spec deep ow src dst v =
     (if v src = None then (StatusNotFound, v)
      else (case target_verdict ow src dst v of
          Inl code \<Rightarrow> (code, v)
        | Inr code \<Rightarrow>
            if strictlyUnder dst src
            then (if v src = Some DirNode then (if deep then StatusMulti else code, (cut_tree dst v)(dst \<mapsto> DirNode))
              else (StatusMulti, cut_tree dst v))
            else (code, if deep \<or> v src \<noteq> Some DirNode then graft src dst (cut_tree dst v)
              else (cut_tree dst v)(dst \<mapsto> DirNode))))"

text \<open>The locks that are left: what was overwritten, and what was moved, has lost its own.\<close>

definition copy_locks ::
  "bool option \<Rightarrow> path \<Rightarrow> path \<Rightarrow> tree \<Rightarrow> (path \<Rightarrow> lockInfo option) \<Rightarrow> path \<Rightarrow> lockInfo option" where
  "copy_locks ow src dst v t =
     (if v src = None \<or> isl (target_verdict ow src dst v) \<or> v dst = None then t else without_locks dst t)"

definition move_locks ::
  "bool option \<Rightarrow> path \<Rightarrow> path \<Rightarrow> tree \<Rightarrow> (path \<Rightarrow> lockInfo option) \<Rightarrow> path \<Rightarrow> lockInfo option" where
  "move_locks ow src dst v t =
     (if src = ''/'' then t
      else if v src = None \<or> isl (target_verdict ow src dst v) \<or> strictlyUnder dst src then copy_locks ow src dst v t
      else without_locks src (copy_locks ow src dst v t))"

lemma error_status [simp]: "rs_status (http_error w c m) = c"
  and plain_status [simp]: "rs_status (respond_with w c b) = c"
  by (simp_all add: http_error_def respond_with_def)

lemma notFound_status: "notFound e \<Longrightarrow> statusFor e StatusInternalServerError = StatusNotFound"
  and notFound_conflict: "notFound e \<Longrightarrow> conflictOr e = StatusConflict"
  by (simp_all add: notFound_def conflictOr_def)


context filesystem
begin

lemma put_written:
  assumes h: "h_fs h = d" and c: "canonical p" "p \<noteq> ''/''" and s: "fsinv (w_fs w)" "\<not> w_mu w"
    and i: "ls_inv (lw_table (w_lk w))"
    and v: "view (w_fs w) (parentOf p) = Some DirNode" "view (w_fs w) p \<noteq> Some DirNode"
  shows "yields fsinv view (put_write h ws r p (view (w_fs w) p \<noteq> None)) w
    (put_spec (h_maxBody h) r p (view (w_fs w))) (locks_at (w_lk w))"
  using s i c v
  by (auto simp: put_write_def read_all_max_def put_spec_def wp_simps h put_response_def
      intro!: wp_WriteFile wp_info [OF h] split: option.splits)


lemma put_stored:
  assumes h: "h_fs h = d" and name: "canonical name" "rq_header r ''Content-Range'' = []"
    and s: "fsinv (w_fs w)" "\<not> w_mu w" and l: "ls_inv (lw_table (w_lk w))" "permitted r name (w_lk w)"
    and v: "view (w_fs w) name \<noteq> Some DirNode \<or> name = ''/''"
  shows "yields fsinv view (servePut h ws r name) w
    (put_spec (h_maxBody h) r name (view (w_fs w))) (locks_at (w_lk w))"
proof (cases "name = ''/''")
  case True
  then show ?thesis using s l by (simp add: servePut_def wp_simps put_spec_def)
next
  case False
  note p = canonical_parentOf [OF name(1)]
  have put: "yields fsinv view (put_write h ws r name b) w'
      (put_spec (h_maxBody h) r name (view (w_fs w))) (locks_at (w_lk w))"
    if "fsinv (w_fs w')" "view (w_fs w') = view (w_fs w)" "\<not> w_mu w'" "ls_inv (lw_table (w_lk w'))"
      "locks_at (w_lk w') = locks_at (w_lk w)" "view (w_fs w) (parentOf name) = Some DirNode"
      "b \<longleftrightarrow> view (w_fs w) name \<noteq> None" for w' b
    using put_written [OF h name(1) False that(1,3,4)] that v False by simp
  show ?thesis
  proof (cases "view (w_fs w) (parentOf name) = Some DirNode")
    case True
    then show ?thesis
      unfolding servePut_def
      using s l False name p v
      by (auto simp: wp_simps told_def h intro!: wp_checkLocks wp_info [OF h] wp_Stat put)
  next
    case parent: False
    then have "put_spec (h_maxBody h) r name (view (w_fs w)) = (StatusConflict, view (w_fs w))"
      using False by (simp add: put_spec_def)
    then show ?thesis
      unfolding servePut_def
      using s l False name p parent
      by (auto simp: wp_simps told_def notFound_conflict h intro!: wp_checkLocks wp_info [OF h]
          split: option.splits)
  qed
qed

lemma mkcol_made:
  assumes h: "h_fs h = d" and name: "canonical name"
    and s: "fsinv (w_fs w)" "\<not> w_mu w" and l: "ls_inv (lw_table (w_lk w))" "permitted r name (w_lk w)"
  shows "yields fsinv view (serveMkcol h ws r name) w (mkcol_spec r name (view (w_fs w))) (locks_at (w_lk w))"
  using s l name canonical_parentOf [OF name] unfolding serveMkcol_def
  by (auto simp: wp_simps told_def notFound_conflict h mkcol_spec_def
      intro!: wp_checkLocks wp_info [OF h] wp_Stat wp_MkDir split: option.splits sum.splits)

lemma deleted:
  assumes h: "h_fs h = d" and name: "canonical name"
    and s: "fsinv (w_fs w)" "\<not> w_mu w" and l: "ls_inv (lw_table (w_lk w))" "permitted r name (w_lk w)"
    and f: "fits (h_fuel h) name (view (w_fs w))"
  shows "yields fsinv view (serveDelete h ws r name) w (delete_spec name (view (w_fs w)))
    (if name = ''/'' \<or> view (w_fs w) name = None then locks_at (w_lk w)
     else without_locks name (locks_at (w_lk w)))"
proof (cases "view (w_fs w) name")
  case None
  then show ?thesis
    using s l name unfolding serveDelete_def
    by (auto simp: wp_simps told_None notFound_status delete_spec_def
        intro!: wp_checkLocks wp_info [OF h])
next
  case (Some nd)
  show ?thesis
    using s l name f Some unfolding serveDelete_def
    by (auto simp: wp_simps delete_spec_def told_Some
        intro!: wp_checkLocks wp_info [OF h] wp_remove [OF h, where p = name] wp_release)
qed


lemma prepared:
  assumes h: "h_fs h = d" and c: "canonical dst" and s: "fsinv (w_fs w)" "w_mu w" "ls_inv (lw_table (w_lk w))"
    and f: "fits (h_fuel h) dst (view (w_fs w))"
    and ow: "ow = overwrite (rq_header r ''Overwrite'')"
    and refused: "\<And>code. target_verdict ow src dst (view (w_fs w)) = Inl code \<Longrightarrow>
      out = (code, view (w_fs w)) \<and> locks = locks_at (w_lk w)"
    and granted: "\<And>code w'. target_verdict ow src dst (view (w_fs w)) = Inr code \<Longrightarrow> fsinv (w_fs w') \<Longrightarrow>
      view (w_fs w') = cut_tree dst (view (w_fs w)) \<Longrightarrow> w_mu w' \<Longrightarrow> ls_inv (lw_table (w_lk w')) \<Longrightarrow>
      locks_at (w_lk w') = (if view (w_fs w) dst = None then locks_at (w_lk w)
        else without_locks dst (locks_at (w_lk w))) \<Longrightarrow> yields fsinv view (k code) w' out locks"
  shows "yields fsinv view (prepareDestination h ws r src dst k) w out locks"
proof -
  note p = canonical_parentOf [OF c]
  have absent: "cut_tree dst (view (w_fs w)) = view (w_fs w)" if "view (w_fs w) dst = None"
    using absent_below [OF view_ok [OF s(1)] that c] by (auto simp: cut_tree_def fun_eq_iff)
  consider (same) "dst = src \<or> dst = ''/'' \<or> strictlyUnder src dst"
    | (bad) "dst \<noteq> src" "dst \<noteq> ''/''" "\<not> strictlyUnder src dst" "ow = None"
    | (orphan) o' where "dst \<noteq> src" "dst \<noteq> ''/''" "\<not> strictlyUnder src dst" "ow = Some o'"
        "view (w_fs w) (parentOf dst) \<noteq> Some DirNode"
    | (free) o' where "dst \<noteq> src" "dst \<noteq> ''/''" "\<not> strictlyUnder src dst" "ow = Some o'"
        "view (w_fs w) (parentOf dst) = Some DirNode" "view (w_fs w) dst = None"
    | (taken) o' nd where "dst \<noteq> src" "dst \<noteq> ''/''" "\<not> strictlyUnder src dst" "ow = Some o'"
        "view (w_fs w) (parentOf dst) = Some DirNode" "view (w_fs w) dst = Some nd"
    by (metis not_Some_eq)
  then show ?thesis
  proof cases
    case same
    then show ?thesis using refused s
      by (auto simp: prepareDestination_def target_verdict_def wp_simps)
  next
    case bad
    then show ?thesis using refused s ow
      by (simp add: prepareDestination_def target_verdict_def wp_simps)
  next
    case orphan
    then have "out = (StatusConflict, view (w_fs w)) \<and> locks = locks_at (w_lk w)"
      using refused by (simp add: target_verdict_def)
    then show ?thesis using orphan s ow p
      by (auto simp: prepareDestination_def wp_simps told_def notFound_conflict
          intro!: wp_info [OF h] split: option.splits)
  next
    case free
    then show ?thesis
      using granted [of StatusCreated] s ow p c absent
      by (auto simp: prepareDestination_def target_verdict_def wp_simps told_None told_Some
          intro!: wp_info [OF h])
  next
    case taken
    then have "\<not> o' \<Longrightarrow> out = (StatusPreconditionFailed, view (w_fs w)) \<and> locks = locks_at (w_lk w)"
      using refused by (simp add: target_verdict_def)
    then show ?thesis
      using taken granted [of StatusNoContent] s ow p c f
      by (auto simp: prepareDestination_def target_verdict_def wp_simps told_Some
          intro!: wp_info [OF h] wp_remove [OF h, where p = dst] wp_release)
  qed
qed


lemma cut_parent:
  assumes "canonical p" and "p \<noteq> ''/''"
  shows "cut_tree p v (parentOf p) = v (parentOf p)"
proof -
  have "length (comps (parentOf p)) < length (comps p)"
    using assms comps_eq_Nil [OF assms(1)] by (simp add: comps_parentOf [OF assms(1)])
  then have "\<not> under p (parentOf p)"
    using under_iff_comps [OF assms(1) canonical_parentOf [OF assms(1)]] prefix_length_le by fastforce
  then show ?thesis by (simp add: cut_tree_def)
qed

lemma verdict_granted:
  assumes "target_verdict ow src dst v = Inr code"
  shows "dst \<noteq> src" and "dst \<noteq> ''/''" and "\<not> strictlyUnder src dst" and "v (parentOf dst) = Some DirNode"
    and "ow \<noteq> None"
  using assms by (auto simp: target_verdict_def split: if_splits option.splits)

lemma above_source:
  assumes "strictlyUnder dst name" and "tree_ok v" and "v name \<noteq> None" and "canonical dst"
  shows "v dst = Some DirNode" and "cut_tree dst v name = None"
  using ancestor_is_dir [OF assms(2,3,4,1)] assms(1) by (simp_all add: cut_tree_def strictlyUnder_def)

end

context precise
begin

lemma moved:
  assumes h: "h_fs h = d" and name: "canonical name" and dst: "destination h r = Inr dst" "canonical dst"
    and s: "fsinv (w_fs w)" "\<not> w_mu w"
    and l: "ls_inv (lw_table (w_lk w))" "permitted r name (w_lk w)" "permitted r dst (w_lk w)"
    and f: "fits (h_fuel h) dst (view (w_fs w))"
    and kind: "view (w_fs w) name \<noteq> Some DirNode \<or> name = ''/'' \<or> strictlyUnder dst name"
    and ow: "ow = overwrite (rq_header r ''Overwrite'')"
  shows "yields fsinv view (serveMove h ws r name) w (move_spec ow name dst (view (w_fs w)))
    (move_locks ow name dst (view (w_fs w)) (locks_at (w_lk w)))"
    (is "yields _ _ _ _ ?out ?locks")
proof -
  let ?v = "view (w_fs w)"
  note specs = move_spec_def move_locks_def copy_locks_def
  consider (root) "name = ''/''" | (missing) "name \<noteq> ''/''" "?v name = None"
    | (there) nd where "name \<noteq> ''/''" "?v name = Some nd" "strictlyUnder dst name \<or> (\<exists>b. nd = FileNode b)"
    using kind by (metis node.exhaust not_Some_eq)
  then show ?thesis
  proof cases
    case root
    then show ?thesis using s l by (simp add: serveMove_def dst wp_simps specs)
  next
    case missing
    then show ?thesis
      using s l name unfolding serveMove_def
      by (auto simp: dst wp_simps told_None notFound_status specs
          intro!: wp_checkLocks wp_info [OF h])
  next
    case there
    define out where "out = ?out"
    define lk where "lk = ?locks"
    have moving: "yields fsinv view (fs_call (drv_Rename d name dst) (\<lambda>err. case err of
          Some e \<Rightarrow> Unlock (Done (fail_with ws e))
        | None \<Rightarrow> ls_call (lw_release name) (\<lambda>_. Unlock (Done (respond_with
            (header_set ws ''Location'' (hrefOf h dst False)) code []))))) w' out lk"
      if t: "target_verdict ow name dst ?v = Inr code" and w': "fsinv (w_fs w')" "view (w_fs w') = cut_tree dst ?v"
        "w_mu w'" "ls_inv (lw_table (w_lk w'))" "locks_at (w_lk w') = (if ?v dst = None then locks_at (w_lk w)
          else without_locks dst (locks_at (w_lk w)))" for w' code
    proof (cases "strictlyUnder dst name")
      case True
      have "?v name \<noteq> None" using there(2) by simp
      note a = above_source [OF True view_ok [OF s(1)] this dst(2)]
      show ?thesis
        using t w' there(1,2) True a name dst(2)
        by (auto simp: wp_simps specs out_def lk_def notFound_status intro!: wp_Rename_absent)
    next
      case False
      then obtain b where b: "?v name = Some (FileNode b)" using there(2,3) by auto
      note g = verdict_granted [OF t]
      have "cut_tree dst ?v name = Some (FileNode b)" "cut_tree dst ?v dst = None"
        "cut_tree dst ?v (parentOf dst) = Some DirNode"
        using b False g cut_parent [OF dst(2) g(2)] by (auto simp: cut_tree_def strictlyUnder_def)
      then show ?thesis
        using t w' there(1) b False dst(2)
        by (auto simp: wp_simps specs out_def lk_def intro!: wp_Rename wp_release)
    qed
    have refused: "out = (code, ?v) \<and> lk = locks_at (w_lk w)"
      if "target_verdict ow name dst ?v = Inl code" for code
      using that there by (simp add: specs out_def lk_def)
    show ?thesis
      using s l name there(1,2) f dst(2) refused moving
      unfolding serveMove_def out_def [symmetric] lk_def [symmetric]
      by (auto simp: dst(1) wp_simps h
          intro!: wp_checkLocks wp_info [OF h] prepared [OF h dst(2) _ _ _ _ ow] dest!: told_SomeD)
  qed
qed

text \<open>The copy itself, when the destination is clear: of a tree that is still there, and of one that went with it.\<close>

abbreviation copy_call ::
  "('s, 'f) handler \<Rightarrow> headers \<Rightarrow> path \<Rightarrow> bool \<Rightarrow> nat \<Rightarrow> resourceInfo \<Rightarrow> 's proc" where
  "copy_call h ws dst deep code i \<equiv> fs_call (copyTree (h_fuel h) h i dst deep) (\<lambda>res. case res of
        None \<Rightarrow> Diverge
      | Some failures \<Rightarrow>
          if failures \<noteq> [] then Unlock (Done (writeMultistatus ws failures))
          else Unlock (Done (respond_with (header_set ws ''Location'' (hrefOf h dst (ri_isDir i))) code [])))"

lemma copying:
  assumes h: "h_fs h = d" and no: "copies_files fsinv view h" and dst: "canonical dst" and name: "canonical name"
    and v: "tree_ok v" "v name = Some nd" and f: "fits (h_fuel h) name v"
    and t: "target_verdict ow name dst v = Inr code"
    and w: "fsinv (w_fs w)" "view (w_fs w) = cut_tree dst v" "w_mu w" "ls_inv (lw_table (w_lk w))"
      "locks_at (w_lk w) = copy_locks ow name dst v lks"
    and i: "told (v name) name (Inr i)"
  shows "yields fsinv view (copy_call h ws dst deep code i) w (copy_spec deep ow name dst v) (copy_locks ow name dst v lks)"
proof -
  note g = verdict_granted [OF t]
  have info: "ri_path i = name" "ri_isDir i \<longleftrightarrow> nd = DirNode" using i v(2) by (auto simp: told_Some)
  have gone: "cut_tree dst v dst = None" "cut_tree dst v (parentOf dst) = Some DirNode"
    using g cut_parent [OF dst g(2)] by (auto simp: cut_tree_def)
  show ?thesis
  proof (cases "strictlyUnder dst name")
    case True
    have "v name \<noteq> None" using v(2) by simp
    note a = above_source [OF True v(1) this dst]
    have "h_fuel h \<noteq> 0" using f v(2) by (auto simp: fits_def intro!: notI)
    then show ?thesis
      using t w True a v(2) name dst info gone g(1)
      by (intro wp_copy_absent [OF h w(1)]) (auto simp: wp_simps copy_spec_def writeMultistatus_def split: if_splits)
  next
    case False
    then have same: "cut_tree dst v name = v name" using g(1) by (auto simp: cut_tree_def strictlyUnder_def)
    show ?thesis
    proof (rule wp_copy [OF h no w(1) _ dst])
      show "told (view (w_fs w) name) name (Inr i)" "view (w_fs w) dst = None"
        "view (w_fs w) (parentOf dst) = Some DirNode" using i same gone by (simp_all add: w(2))
      show "apart name dst" using g False by (auto simp: apart_def strictlyUnder_def)
      show "fits (h_fuel h) name (view (w_fs w))"
        using fits_submap [OF f] cut_tree_Some unfolding w(2) by metis
      fix s assume "fsinv s" "view s = (if deep \<or> view (w_fs w) name \<noteq> Some DirNode
        then graft name dst (view (w_fs w)) else (view (w_fs w))(dst \<mapsto> DirNode))"
      then show "yields fsinv view (case Some [] of None \<Rightarrow> Diverge
        | Some failures \<Rightarrow> if failures \<noteq> [] then Unlock (Done (writeMultistatus ws failures))
          else Unlock (Done (respond_with (header_set ws ''Location'' (hrefOf h dst (ri_isDir i))) code [])))
        (w\<lparr>w_fs := s\<rparr>) (copy_spec deep ow name dst v) (copy_locks ow name dst v lks)"
        using t w same v(2) False by (auto simp: wp_simps copy_spec_def)
    qed
  qed
qed

lemma copied:
  assumes h: "h_fs h = d" and name: "canonical name" and dst: "destination h r = Inr dst" "canonical dst"
    and no: "copies_files fsinv view h"
    and depth: "parseDepth (rq_header r ''Depth'') = Some dp" "dp \<noteq> depthOne"
    and s: "fsinv (w_fs w)" "\<not> w_mu w" and l: "ls_inv (lw_table (w_lk w))" "permitted r dst (w_lk w)"
    and f: "fits (h_fuel h) dst (view (w_fs w))" "fits (h_fuel h) name (view (w_fs w))"
    and ow: "ow = overwrite (rq_header r ''Overwrite'')"
  shows "yields fsinv view (serveCopy h ws r name) w (copy_spec (dp = depthInfinity) ow name dst (view (w_fs w)))
    (copy_locks ow name dst (view (w_fs w)) (locks_at (w_lk w)))"
    (is "yields _ _ _ _ ?out ?locks")
proof (cases "view (w_fs w) name")
  case None
  then show ?thesis
    using s l name depth unfolding serveCopy_def
    by (auto simp: dst wp_simps told_None notFound_status copy_spec_def copy_locks_def
        intro!: wp_checkLocks wp_info [OF h])
next
  case (Some nd)
  let ?v = "view (w_fs w)"
  define out where "out = ?out"
  define lk where "lk = ?locks"
  have refused: "out = (code, ?v) \<and> lk = locks_at (w_lk w)" if "target_verdict ow name dst ?v = Inl code" for code
    using that Some by (simp add: copy_spec_def copy_locks_def out_def lk_def)
  have copy: "yields fsinv view (copy_call h ws dst (dp = depthInfinity) code i) w' out lk"
    if t: "target_verdict ow name dst ?v = Inr code" and w': "fsinv (w_fs w')" "view (w_fs w') = cut_tree dst ?v"
      "w_mu w'" "ls_inv (lw_table (w_lk w'))" "locks_at (w_lk w') = (if ?v dst = None then locks_at (w_lk w)
        else without_locks dst (locks_at (w_lk w)))" and i: "told (?v name) name (Inr i)" for w' code i
    unfolding out_def lk_def
    by (rule copying [OF h no dst(2) name view_ok [OF s(1)] Some f(2) t w'(1-4) _ i])
       (use t w'(5) Some in \<open>simp add: copy_locks_def\<close>)
  have "yields fsinv view (prepareDestination h ws r name dst (\<lambda>code. copy_call h ws dst (dp = depthInfinity) code i))
      w' out lk"
    if "fsinv (w_fs w')" "view (w_fs w') = ?v" "w_mu w'" "ls_inv (lw_table (w_lk w'))"
      "locks_at (w_lk w') = locks_at (w_lk w)" and i: "told (?v name) name (Inr i)" for w' i
    by (rule prepared [OF h dst(2) that(1,3,4) _ ow]) (use that f refused copy in auto)
  then show ?thesis
    using s l name depth Some unfolding serveCopy_def out_def [symmetric] lk_def [symmetric]
    by (auto simp: dst(1) intro!: wp_checkLocks wp_info [OF h] simp: wp_simps told_def)
qed

end


section \<open>Properties\<close>

text \<open>
  C12. A whole \<open>PUT\<close> the locks permit does exactly what \<open>put_spec\<close> says to the tree behind any driver
  that obeys the laws: the body is stored under the path, with 201 for a new file and 204 for an
  existing one; without a parent collection, with a body over the limit or cut short, nothing
  is written and the answer is 409, 413 or 400. No lock is touched.
\<close>

theorem put_stores:
  assumes "filesystem d fsinv view" and "h_fs h = d" and "accepted h r name" and "rq_method r = ''PUT''"
    and "rq_header r ''Content-Range'' = []" and "fsinv (w_fs w)" and "\<not> w_mu w"
    and "ls_inv (lw_table (w_lk w))" and "permitted r name (w_lk w)"
    and "view (w_fs w) name \<noteq> Some DirNode \<or> name = ''/''"
  shows "yields fsinv view (ServeHTTP h r) w (put_spec (h_maxBody h) r name (view (w_fs w))) (locks_at (w_lk w))"
  unfolding accepted_serves(1) [OF assms(3,4)]
  by (rule filesystem.put_stored [OF assms(1,2) accepted_canonical [OF assms(3)] assms(5-)])

theorem put_stores_witness:
  "yields mem_inv mem_view (ServeHTTP (mem_handler False demo_std 5) (demo_request ''PUT'' ''/d/b'' [] ''x''))
     (demo_world demo_mem) (StatusCreated, (mem_view demo_mem)(''/d/b'' \<mapsto> FileNode ''x'')) (locks_at demo_lw)"
proof -
  have p: "canonical ''/d/b''" "resource [] ''/d/b'' = Some ''/d/b''" "parentOf ''/d/b'' = ''/d''" by code_simp+
  show ?thesis
    using put_stores [where d = "mem_driver False" and fsinv = mem_inv and view = mem_view
        and h = "mem_handler False demo_std 5" and r = "demo_request ''PUT'' ''/d/b'' [] ''x''"
        and name = "''/d/b''" and w = "demo_world demo_mem"]
      mem.filesystem_axioms [of False] demo_accepted [OF p(2), of False 5]
      demo_mem_inv demo_permitted [OF p(1)] p(3)
    by (simp add: put_spec_def demo_view header_get_def defaultMaxBody_def)
qed

text \<open>
  C22. \<open>MKCOL\<close> makes an empty collection under an existing one and answers 201; a request body, a
  path that is taken or a missing parent collection change nothing (415, 405, 409).
\<close>

theorem mkcol_makes:
  assumes "filesystem d fsinv view" and "h_fs h = d" and "accepted h r name" and "rq_method r = ''MKCOL''"
    and "fsinv (w_fs w)" and "\<not> w_mu w" and "ls_inv (lw_table (w_lk w))" and "permitted r name (w_lk w)"
  shows "yields fsinv view (ServeHTTP h r) w (mkcol_spec r name (view (w_fs w))) (locks_at (w_lk w))"
  unfolding accepted_serves(2) [OF assms(3,4)]
  by (rule filesystem.mkcol_made [OF assms(1,2) accepted_canonical [OF assms(3)] assms(5-)])

theorem mkcol_makes_witness:
  "yields mem_inv mem_view (ServeHTTP (mem_handler False demo_std 5) (demo_request ''MKCOL'' ''/d/b'' [] []))
     (demo_world demo_mem) (StatusCreated, (mem_view demo_mem)(''/d/b'' \<mapsto> DirNode)) (locks_at demo_lw)"
proof -
  have p: "canonical ''/d/b''" "resource [] ''/d/b'' = Some ''/d/b''" "parentOf ''/d/b'' = ''/d''" by code_simp+
  show ?thesis
    using mkcol_makes [where d = "mem_driver False" and fsinv = mem_inv and view = mem_view
        and h = "mem_handler False demo_std 5" and r = "demo_request ''MKCOL'' ''/d/b'' [] []"
        and name = "''/d/b''" and w = "demo_world demo_mem"]
      mem.filesystem_axioms [of False] demo_accepted [OF p(2), of False 5]
      demo_mem_inv demo_permitted [OF p(1)] p(3)
    by (simp add: mkcol_spec_def demo_view)
qed

text \<open>
  C9. \<open>DELETE\<close> removes the whole tree at the path and nothing else, answers 204, and drops exactly the
  locks at and below the path; a missing path is 404 and the root 403, with nothing changed.
\<close>

theorem delete_removes:
  assumes "filesystem d fsinv view" and "h_fs h = d" and "accepted h r name" and "rq_method r = ''DELETE''"
    and "fsinv (w_fs w)" and "\<not> w_mu w" and "ls_inv (lw_table (w_lk w))" and "permitted r name (w_lk w)"
    and "fits (h_fuel h) name (view (w_fs w))"
  shows "yields fsinv view (ServeHTTP h r) w (delete_spec name (view (w_fs w)))
    (if name = ''/'' \<or> view (w_fs w) name = None then locks_at (w_lk w)
     else without_locks name (locks_at (w_lk w)))"
  unfolding accepted_serves(3) [OF assms(3,4)]
  by (rule filesystem.deleted [OF assms(1,2) accepted_canonical [OF assms(3)] assms(5-)])

theorem delete_removes_witness:
  "yields mem_inv mem_view (ServeHTTP (mem_handler False demo_std 5) (demo_request ''DELETE'' ''/d'' [] []))
     (demo_world demo_mem) (StatusNoContent, [''/'' \<mapsto> DirNode]) (without_locks ''/d'' (locks_at demo_lw))"
proof -
  have p: "canonical ''/d''" "resource [] ''/d'' = Some ''/d''"
    "\<not> under ''/d'' ''/''" "under ''/d'' ''/d''" "under ''/d'' ''/d/a''" by code_simp+
  have "cut_tree ''/d'' (mem_view demo_mem) = [''/'' \<mapsto> DirNode]"
    using p(3-5) by (auto simp: cut_tree_def demo_view fun_eq_iff)
  then show ?thesis
    using delete_removes [where d = "mem_driver False" and fsinv = mem_inv and view = mem_view
        and h = "mem_handler False demo_std 5" and r = "demo_request ''DELETE'' ''/d'' [] []"
        and name = "''/d''" and w = "demo_world demo_mem"]
      mem.filesystem_axioms [of False] demo_accepted [OF p(2), of False 5]
      demo_mem_inv demo_permitted [OF p(1)] demo_fits
    by (simp add: delete_spec_def demo_view)
qed

text \<open>
  C11. \<open>MOVE\<close> of a file takes it away from its path and puts it at the destination, replacing the whole
  tree there when \<open>Overwrite\<close> allows it (204, else 201), and drops the locks of both trees. Every
  refusal (404, 403, 400, 409, 412) changes nothing, but for one: when the destination is above the
  source, the tree there is removed and the source with it, and the answer is 404.
\<close>

theorem move_moves:
  assumes "precise d fsinv view" and "h_fs h = d" and "accepted h r name" and "rq_method r = ''MOVE''"
    and "destination h r = Inr dst" and "fsinv (w_fs w)" and "\<not> w_mu w" and "ls_inv (lw_table (w_lk w))"
    and "permitted r name (w_lk w)" and "permitted r dst (w_lk w)"
    and "fits (h_fuel h) dst (view (w_fs w))"
    and "view (w_fs w) name \<noteq> Some DirNode \<or> name = ''/'' \<or> strictlyUnder dst name"
    and "ow = overwrite (rq_header r ''Overwrite'')"
  shows "yields fsinv view (ServeHTTP h r) w (move_spec ow name dst (view (w_fs w)))
    (move_locks ow name dst (view (w_fs w)) (locks_at (w_lk w)))"
  unfolding accepted_serves(5) [OF assms(3,4)]
  by (rule precise.moved [OF assms(1,2) accepted_canonical [OF assms(3)] assms(5)
        canonical_destination [OF assms(5)] assms(6-13)])

theorem move_moves_witness:
  "yields mem_inv mem_view (ServeHTTP (mem_handler False demo_std 5)
       (demo_request ''MOVE'' ''/d/a'' [(''Destination'', ''/b'')] []))
     (demo_world demo_mem)
     (StatusCreated, (cut_tree ''/b'' (mem_view demo_mem))(''/d/a'' := None, ''/b'' \<mapsto> FileNode ''hello''))
     (without_locks ''/d/a'' (locks_at demo_lw))"
proof -
  have p: "canonical ''/d/a''" "canonical ''/b''" "resource [] ''/d/a'' = Some ''/d/a''"
    "resource [] ''/b'' = Some ''/b''" "parentOf ''/b'' = ''/''"
    "\<not> strictlyUnder ''/b'' ''/d/a''" "\<not> strictlyUnder ''/d/a'' ''/b''" "overwrite [] = Some True" by code_simp+
  show ?thesis
    using move_moves [where d = "mem_driver False" and fsinv = mem_inv and view = mem_view
        and h = "mem_handler False demo_std 5" and r = "demo_request ''MOVE'' ''/d/a'' [(''Destination'', ''/b'')] []"
        and name = "''/d/a''" and w = "demo_world demo_mem" and dst = "''/b''" and ow = "Some True"]
      mem_precise.precise_axioms [of False] demo_accepted [OF p(3), of False 5]
      demo_mem_inv demo_permitted [OF p(1)] demo_permitted [OF p(2)] demo_fits
      demo_destination [of "''/b''" False 5 "''MOVE''" "''/d/a''" "[]"] p(5-)
    by (simp add: move_spec_def move_locks_def copy_locks_def target_verdict_def demo_view header_get_def)
qed

text \<open>
  C10. \<open>COPY\<close> grafts the whole tree at the source onto the destination (with \<open>Depth: 0\<close> only the
  collection itself), replacing what is there when \<open>Overwrite\<close> allows it, leaves the source as it
  was and drops exactly the locks of what it replaced; every refusal changes nothing. When the
  destination is above the source, the source goes with what is replaced: a collection becomes an
  empty one and a file is gone, with 207 for the members and the file that could not be copied.
\<close>

theorem copy_copies:
  assumes "precise d fsinv view" and "h_fs h = d" and "accepted h r name" and "rq_method r = ''COPY''"
    and "destination h r = Inr dst" and "drv_OpenFile d = None \<or> positional d fsinv view opn handle"
    and "parseDepth (rq_header r ''Depth'') = Some dp" and "dp \<noteq> depthOne"
    and "fsinv (w_fs w)" and "\<not> w_mu w" and "ls_inv (lw_table (w_lk w))" and "permitted r dst (w_lk w)"
    and "fits (h_fuel h) dst (view (w_fs w))" and "fits (h_fuel h) name (view (w_fs w))"
    and "ow = overwrite (rq_header r ''Overwrite'')"
  shows "yields fsinv view (ServeHTTP h r) w (copy_spec (dp = depthInfinity) ow name dst (view (w_fs w)))
    (copy_locks ow name dst (view (w_fs w)) (locks_at (w_lk w)))"
proof -
  have "copies_files fsinv view h"
    using assms(6) filesystem.copies_whole [OF precise.axioms(1) [OF assms(1)] assms(2)]
      positional.copies_opened [OF _ assms(2)] by blast
  then show ?thesis
    unfolding accepted_serves(4) [OF assms(3,4)]
    by (rule precise.copied [OF assms(1,2) accepted_canonical [OF assms(3)] assms(5)
          canonical_destination [OF assms(5)] _ assms(7-15)])
qed

theorem copy_copies_witness:
  "yields mem_inv mem_view (ServeHTTP (mem_handler True demo_std 5)
       (demo_request ''COPY'' ''/d'' [(''Destination'', ''/b'')] []))
     (demo_world demo_mem) (StatusCreated, graft ''/d'' ''/b'' (cut_tree ''/b'' (mem_view demo_mem)))
     (locks_at demo_lw)"
proof -
  have p: "canonical ''/d''" "canonical ''/b''" "resource [] ''/d'' = Some ''/d''"
    "resource [] ''/b'' = Some ''/b''" "parentOf ''/b'' = ''/''"
    "\<not> strictlyUnder ''/b'' ''/d''" "\<not> strictlyUnder ''/d'' ''/b''" "parseDepth [] = Some depthInfinity"
    "overwrite [] = Some True" by code_simp+
  show ?thesis
    using copy_copies [where d = "mem_driver True" and fsinv = mem_inv and view = mem_view
        and h = "mem_handler True demo_std 5" and r = "demo_request ''COPY'' ''/d'' [(''Destination'', ''/b'')] []"
        and name = "''/d''" and w = "demo_world demo_mem" and dst = "''/b''" and dp = depthInfinity
        and opn = mem_OpenFile and handle = mem_handle and ow = "Some True"]
      mem_precise.precise_axioms [of True] mem_files.positional_axioms demo_accepted [OF p(3), of True 5]
      demo_mem_inv demo_permitted [OF p(2)] demo_fits
      demo_destination [of "''/b''" True 5 "''COPY''" "''/d''" "[]"] p(5-)
    by (simp add: copy_spec_def copy_locks_def target_verdict_def demo_view header_get_def mem_driver_def depthOne_def
        depthInfinity_def)
qed

section \<open>A destination above the source\<close>

text \<open>
  C30. A \<open>MOVE\<close> or a \<open>COPY\<close> (of any depth but 0) onto a collection above the source is not refused
  when it may overwrite: everything below the destination is deleted, the source with it, nothing
  arrives, and the answer is 404 for a \<open>MOVE\<close> and 207 for a \<open>COPY\<close>; the rest of the tree is as it was.
\<close>

theorem overwriting_an_ancestor_loses_the_source:
  assumes "precise d fsinv view" and "h_fs h = d" and "accepted h r name" and "rq_method r \<in> {''MOVE'', ''COPY''}"
    and "destination h r = Inr dst" and "strictlyUnder dst name" and "dst \<noteq> ''/''"
    and "overwrite (rq_header r ''Overwrite'') = Some True"
    and "rq_method r = ''COPY'' \<longrightarrow> parseDepth (rq_header r ''Depth'') = Some depthInfinity"
    and "drv_OpenFile d = None \<or> positional d fsinv view opn handle"
    and "fsinv (w_fs w)" and "\<not> w_mu w" and "ls_inv (lw_table (w_lk w))"
    and "permitted r name (w_lk w)" and "permitted r dst (w_lk w)"
    and "fits (h_fuel h) dst (view (w_fs w))" and "fits (h_fuel h) name (view (w_fs w))"
    and "view (w_fs w) name \<noteq> None"
  shows "wp (ServeHTTP h r) w (\<lambda>resp w'.
    rs_status resp = (if rq_method r = ''MOVE'' then StatusNotFound else StatusMulti) \<and>
    (\<forall>q. strictlyUnder dst q \<longrightarrow> view (w_fs w') q = None) \<and>
    (\<forall>q. \<not> under dst q \<longrightarrow> view (w_fs w') q = view (w_fs w) q))"
proof -
  let ?v = "view (w_fs w)"
  note fs = precise.axioms(1) [OF assms(1)]
  note c = accepted_canonical [OF assms(3)] canonical_destination [OF assms(5)]
  note ok = filesystem.view_ok [OF fs assms(11)]
  have dir: "?v dst = Some DirNode" by (rule ancestor_is_dir [OF ok assms(18) c(2) assms(6)])
  then have parent: "?v (parentOf dst) = Some DirNode" using tree_okD(2) [OF ok, of dst] by simp
  have "\<not> strictlyUnder name dst" "dst \<noteq> name"
    using assms(6) tree.le_antisym [OF c(1,2)] by (auto simp: strictlyUnder_def)
  then have verdict: "target_verdict (Some True) name dst ?v = Inr StatusNoContent"
    using assms(7) dir parent by (simp add: target_verdict_def)
  have root: "name \<noteq> ''/''" using assms(6) c(2) by (auto simp: strictlyUnder_def tree.le_root_iff)
  have files: "copies_files fsinv view h"
    using assms(10) filesystem.copies_whole [OF fs assms(2)] positional.copies_opened [OF _ assms(2)] by blast
  have "yields fsinv view (ServeHTTP h r) w (if rq_method r = ''MOVE'' then move_spec (Some True) name dst ?v
      else copy_spec True (Some True) name dst ?v) (if rq_method r = ''MOVE''
        then move_locks (Some True) name dst ?v (locks_at (w_lk w)) else copy_locks (Some True) name dst ?v (locks_at (w_lk w)))"
  proof (cases "rq_method r = ''MOVE''")
    case True
    show ?thesis
      unfolding if_P [OF True] accepted_serves(5) [OF assms(3) True]
      by (rule precise.moved [OF assms(1,2) c(1) assms(5) c(2)]) (use assms in auto)
  next
    case False
    then have m: "rq_method r = ''COPY''" using assms(4) by simp
    then have dp: "parseDepth (rq_header r ''Depth'') = Some depthInfinity" using assms(9) by blast
    have "yields fsinv view (serveCopy h (setDAV h []) r name) w (copy_spec (depthInfinity = depthInfinity) (Some True) name dst ?v)
        (copy_locks (Some True) name dst ?v (locks_at (w_lk w)))"
      by (rule precise.copied [OF assms(1,2) c(1) assms(5) c(2) files dp])
         (use assms in \<open>auto simp: depthInfinity_def depthOne_def\<close>)
    then show ?thesis using False accepted_serves(4) [OF assms(3) m] by simp
  qed
  then show ?thesis
    by (rule wp_mono)
       (use root verdict assms(6,18) in \<open>auto simp: outcome_def move_spec_def copy_spec_def cut_tree_def strictlyUnder_def
          split: if_splits\<close>)
qed

theorem overwriting_an_ancestor_loses_the_source_witness:
  "wp (ServeHTTP (mem_handler False demo_std 5) (demo_request ''MOVE'' ''/d/a'' [(''Destination'', ''/d'')] []))
     (demo_world demo_mem) (\<lambda>resp w'. rs_status resp = StatusNotFound \<and> mem_view (w_fs w') ''/d/a'' = None)"
proof -
  have p: "canonical ''/d/a''" "canonical ''/d''" "resource [] ''/d/a'' = Some ''/d/a''" "strictlyUnder ''/d'' ''/d/a''"
    "overwrite [] = Some True" by code_simp+
  have "wp (ServeHTTP (mem_handler False demo_std 5) (demo_request ''MOVE'' ''/d/a'' [(''Destination'', ''/d'')] []))
     (demo_world demo_mem) (\<lambda>resp w'. rs_status resp = StatusNotFound \<and>
       (\<forall>q. strictlyUnder ''/d'' q \<longrightarrow> mem_view (w_fs w') q = None) \<and>
       (\<forall>q. \<not> under ''/d'' q \<longrightarrow> mem_view (w_fs w') q = mem_view demo_mem q))"
    using overwriting_an_ancestor_loses_the_source [where d = "mem_driver False" and fsinv = mem_inv and view = mem_view
        and h = "mem_handler False demo_std 5" and r = "demo_request ''MOVE'' ''/d/a'' [(''Destination'', ''/d'')] []"
        and name = "''/d/a''" and w = "demo_world demo_mem" and dst = "''/d''"]
      mem_precise.precise_axioms [of False] demo_accepted [OF p(3), of False 5]
      demo_mem_inv demo_permitted [OF p(1)] demo_permitted [OF p(2)] demo_fits
      demo_destination [of "''/d''" False 5 "''MOVE''" "''/d/a''" "[]"] p(4,5)
    by (simp add: demo_view header_get_def mem_driver_def)
  then show ?thesis by (rule wp_mono) (use p(4) in blast)
qed

end
