(* ===== verification/PartialPut.thy ===== *)
theory PartialPut
  imports WriteSpecs
begin

text \<open>
  The \<open>PUT\<close> of a range (\<open>putrange.go\<close>) on a driver whose files are written in place: the answer
  and the tree are those of \<open>range_spec\<close>, with \<open>patch\<close> the bytes of the range replaced.
\<close>

section \<open>The specification\<close>

definition range_spec :: "int \<Rightarrow> request \<Rightarrow> contentRange \<Rightarrow> path \<Rightarrow> tree \<Rightarrow> nat \<times> tree" where
  "range_spec limit r cr p v =
     (case v p of
        None \<Rightarrow> (StatusConflict, v)
      | Some DirNode \<Rightarrow> (StatusMethodNotAllowed, v)
      | Some (FileNode b) \<Rightarrow>
          if int (length b) \<le> cr_end cr \<and> cr_start cr \<noteq> int (length b)
          then (StatusRequestedRangeNotSatisfiable, v)
          else if cr_length cr < 0 then (StatusBadRequest, v)
          else if cr_length cr \<le> int (length (rq_body r)) \<and> cr_length cr \<le> limit
          then (StatusNoContent,
            v(p \<mapsto> FileNode (patch (nat (cr_start cr)) (take (nat (cr_length cr)) (rq_body r)) b)))
          else if limit < int (length (rq_body r)) then (StatusRequestEntityTooLarge, v)
          else (StatusBadRequest, v))"

section \<open>Its implementation\<close>

lemma told_FileD: "told (Some (FileNode b)) p ri \<Longrightarrow> \<exists>i. ri = Inr i \<and> \<not> ri_isDir i"
  by (auto simp: told_def)

context positional
begin

lemma wp_writableAt:
  assumes h: "h_fs h = d" and "fsinv (w_fs w)" and "view (w_fs w) p = Some (FileNode b)"
    and "\<And>f s. handle s f p \<Longrightarrow> fsinv s \<Longrightarrow> view s = view (w_fs w) \<Longrightarrow>
      yields fsinv view (k (Inr f)) (w\<lparr>w_fs := s\<rparr>) out locks"
  shows "yields fsinv view (fs_call (writableAt h p) k) w out locks"
proof -
  obtain r s where r: "run_state (opn p) (w_fs w) = (r, s)" by fastforce
  from Open [OF assms(2,3) r] obtain f where "r = Inr (Some f)" "handle s f p" "file_is_writable (drv_file d) f"
    "fsinv s" "view s = view (w_fs w)" by auto
  then show ?thesis using assms(4) [of s f] by (simp add: writableAt_def h opener wp_fs r)
qed

lemma wp_Size:
  assumes "fsinv (w_fs w)" and "handle (w_fs w) f p" and "view (w_fs w) p = Some (FileNode b)"
    and "\<And>s. handle s f p \<Longrightarrow> fsinv s \<Longrightarrow> view s = view (w_fs w) \<Longrightarrow>
      yields fsinv view (k (int (length b))) (w\<lparr>w_fs := s\<rparr>) out locks"
  shows "yields fsinv view (fs_call (file_Size (drv_file d) f) k) w out locks"
proof -
  obtain n s where n: "run_state (file_Size (drv_file d) f) (w_fs w) = (n, s)" by fastforce
  from Size [OF assms(1-3) n] assms(2) show ?thesis using assms(4) [of s] by (simp add: wp_fs n)
qed

lemma wp_closeFile:
  assumes h: "h_fs h = d" and "fsinv (w_fs w)" and "handle (w_fs w) f p" and "\<not> w_mu w"
    and "\<And>s. fsinv s \<Longrightarrow> view s = view (w_fs w) \<Longrightarrow> yields fsinv view k (w\<lparr>w_fs := s, w_mu := False\<rparr>) out locks"
  shows "yields fsinv view (closeFile h f k) w out locks"
proof -
  obtain e s where e: "run_state (file_Close (drv_file d) f) (w_fs w) = (e, s)" by fastforce
  from Close [OF assms(2,3) e] show ?thesis
    using assms(4) assms(5) [of s] by (simp add: closeFile_def h wp_simps wp_fs e)
qed

lemma write_range_correct:
  assumes "fsinv s" and f: "handle s f p" and b: "view s p = Some (FileNode b)"
    and cr: "0 \<le> cr_start cr" "cr_end cr + 1 = cr_start cr + int (length c)"
    and fit: "if appending then cr_start cr = int (length b) else cr_end cr < int (length b)"
    and small: "int (length b) + int (length c) < 2 ^ 63"
  shows "\<exists>s'. run_state (write_range (drv_file d) f cr c appending len) s = (None, s') \<and> fsinv s' \<and>
    view s' = (view s)(p \<mapsto> FileNode (patch (nat (cr_start cr)) c b))"
proof -
  define b1 where "b1 = (if appending then resize (length b + length c) b else b)"
  have "\<exists>s1. run_state (if appending then file_Truncate (drv_file d) f (int64 (cr_end cr + 1))
      else State_Monad.return None) s = (None, s1) \<and> fsinv s1 \<and> handle s1 f p \<and> view s1 = (view s)(p \<mapsto> FileNode b1)"
  proof (cases appending)
    case True
    have i: "int64 (cr_end cr + 1) = int (length b) + int (length c)" using True cr fit small by simp
    obtain e s1 where e: "run_state (file_Truncate (drv_file d) f (int (length b) + int (length c))) s = (e, s1)" by fastforce
    from Truncate [OF assms(1) f b _ e] f True nat_int_add [of "length b" "length c"]
    show ?thesis unfolding i by (simp add: e b1_def)
  next
    case False
    then show ?thesis using assms(1) f b by (simp add: b1_def fun_upd_idem)
  qed
  then obtain s1 where s1: "run_state (if appending then file_Truncate (drv_file d) f (int64 (cr_end cr + 1))
      else State_Monad.return None) s = (None, s1)" "fsinv s1" "handle s1 f p" "view s1 = (view s)(p \<mapsto> FileNode b1)"
    by blast
  obtain res s2 where r: "run_state (file_WriteAt (drv_file d) f c (cr_start cr)) s1 = (res, s2)" by fastforce
  have "cr_start cr + int (length c) \<le> int (length b1)" using cr fit by (auto simp: b1_def split: if_splits)
  from WriteAt [OF s1(2,3) _ cr(1) this r] s1(3,4) have s2: "fsinv s2" "handle s2 f p" "snd res = None"
    "view s2 = (view s)(p \<mapsto> FileNode (patch (nat (cr_start cr)) c b1))" by auto
  have "patch (nat (cr_start cr)) c b1 = patch (nat (cr_start cr)) c b"
    using fit patch_resize [of b c] by (auto simp: b1_def patch_def split: if_splits)
  then have v2: "view s2 = (view s)(p \<mapsto> FileNode (patch (nat (cr_start cr)) c b))" using s2(4) by simp
  obtain e3 s3 where e3: "run_state (file_Sync (drv_file d) f) s2 = (e3, s3)" by fastforce
  from Sync [OF s2(1,2) e3] s2(2) have s3: "fsinv s3" "view s3 = view s2" "handle s3 f p" "e3 = None" by auto
  obtain e4 s4 where e4: "run_state (file_Close (drv_file d) f) s3 = (e4, s4)" by fastforce
  from Close [OF s3(1,3) e4] have "fsinv s4" "view s4 = view s3" "e4 = None" by auto
  then show ?thesis using s1(1) r s2(3) e3 e4 s3(2,4) v2 by (simp add: write_range_def)
qed


lemma range_written:
  assumes h: "h_fs h = d" and name: "canonical name" and s: "fsinv (w_fs w)" "\<not> w_mu w"
    and l: "ls_inv (lw_table (w_lk w))" "locks_at (w_lk w) = locks"
    and f: "handle (w_fs w) f name" "view (w_fs w) name = Some (FileNode b)" "v = view (w_fs w)"
    and cr: "0 \<le> cr_start cr" "cr_start cr \<le> cr_end cr" "cr_end cr < 2 ^ 63"
    and small: "int (length b) + h_maxBody h < 2 ^ 63" "0 < h_maxBody h"
  shows "yields fsinv view (putRange_body h ws r name cr f (int (length b))) w
    (range_spec (h_maxBody h) r cr name v) locks"
proof -
  let ?len = "int (length b)" and ?n = "cr_length cr" and ?body = "rq_body r"
  note n = cr_length_eq [OF cr]
  have close: "yields fsinv view (closeFile h f (Done (http_error hs code msg))) w (code, v) locks" for hs code msg
    by (rule wp_closeFile [OF h s(1) f(1) s(2)]) (simp add: wp_simps l f(3))
  consider (beyond) "?len \<le> cr_end cr \<and> cr_start cr \<noteq> ?len"
    | (huge) "\<not> (?len \<le> cr_end cr \<and> cr_start cr \<noteq> ?len)" "?n < 0"
    | (good) "\<not> (?len \<le> cr_end cr \<and> cr_start cr \<noteq> ?len)" "0 \<le> ?n" "?n \<le> int (length ?body)" "?n \<le> h_maxBody h"
    | (bad) "\<not> (?len \<le> cr_end cr \<and> cr_start cr \<noteq> ?len)" "0 \<le> ?n" "\<not> (?n \<le> int (length ?body) \<and> ?n \<le> h_maxBody h)"
    by linarith
  then show ?thesis
  proof cases
    case beyond
    then show ?thesis using f(2,3) close by (simp add: putRange_body_def range_spec_def)
  next
    case huge
    then show ?thesis using f(2,3) close small(2)
      by (auto simp: putRange_body_def range_spec_def read_all_limited_def Let_def)
  next
    case good
    let ?c = "take (nat ?n) ?body"
    have c: "int (length ?c) = ?n" "cr_end cr + 1 = cr_start cr + int (length ?c)"
      using good n by (auto split: if_splits)
    have "?len + int (length ?c) < 2 ^ 63" using good c(1) small(1) by linarith
    moreover have "if cr_start cr = ?len then cr_start cr = ?len else cr_end cr < ?len" using good by auto
    ultimately obtain s' where s': "run_state (write_range (drv_file d) f cr ?c (cr_start cr = ?len) ?len) (w_fs w) =
        (None, s')" "fsinv s'" "view s' = v(name \<mapsto> FileNode (patch (nat (cr_start cr)) ?c b))"
      using write_range_correct [OF s(1) f(1,2) cr(1) c(2)] unfolding f(3) by blast
    have spec: "range_spec (h_maxBody h) r cr name v =
        (StatusNoContent, v(name \<mapsto> FileNode (patch (nat (cr_start cr)) ?c b)))"
      using good f(2,3) by (auto simp: range_spec_def)
    have "yields fsinv view (putRange_write h ws name cr f ?c (cr_start cr = ?len) ?len) w
        (range_spec (h_maxBody h) r cr name v) locks"
      unfolding putRange_write_def
      by (subst wp_Lock, rule s(2), subst wp_fs)
         (use s s' l name spec in \<open>auto simp: wp_simps h intro!: wp_info [OF h]\<close>)
    moreover have "putRange_body h ws r name cr f ?len = putRange_write h ws name cr f ?c (cr_start cr = ?len) ?len"
      using good c(1) by (auto simp: putRange_body_def read_all_limited_def Let_def)
    ultimately show ?thesis by simp
  next
    case bad
    then show ?thesis using f(2,3) close
      by (auto simp: putRange_body_def range_spec_def read_all_limited_def read_all_max_def Let_def split: option.splits)
  qed
qed


lemma range_put:
  assumes h: "h_fs h = d" and name: "canonical name" "name \<noteq> ''/''"
    and cr: "rq_header r ''Content-Range'' \<noteq> []" "parseContentRange (rq_header r ''Content-Range'') = Some cr"
    and s: "fsinv (w_fs w)" "\<not> w_mu w" and l: "ls_inv (lw_table (w_lk w))" "permitted r name (w_lk w)"
    and small: "\<And>b. view (w_fs w) name = Some (FileNode b) \<Longrightarrow> int (length b) + h_maxBody h < 2 ^ 63"
      "0 < h_maxBody h"
  shows "yields fsinv view (servePut h ws r name) w
    (range_spec (h_maxBody h) r cr name (view (w_fs w))) (locks_at (w_lk w))"
proof -
  let ?v = "view (w_fs w)"
  define out where "out = range_spec (h_maxBody h) r cr name ?v"
  have body: "yields fsinv view (putRange_body h ws r name cr f (int (length b))) w' out (locks_at (w_lk w))"
    if "fsinv (w_fs w')" "\<not> w_mu w'" "ls_inv (lw_table (w_lk w'))" "locks_at (w_lk w') = locks_at (w_lk w)"
      "handle (w_fs w') f name" "view (w_fs w') = ?v" "?v name = Some (FileNode b)" for w' f b
    unfolding out_def
    by (rule range_written [OF h name(1) that(1-5) _ that(6) [symmetric] parseContentRange_SomeD [OF cr(2)]])
       (use small that in simp_all)
  have "yields fsinv view (servePutRange h ws r name cr) w' out (locks_at (w_lk w))"
    if w': "fsinv (w_fs w')" "\<not> w_mu w'" "ls_inv (lw_table (w_lk w'))" "locks_at (w_lk w') = locks_at (w_lk w)"
      "view (w_fs w') = ?v" for w'
  proof -
    consider (none) "?v name = None" | (dir) "?v name = Some DirNode" | (plain) b where "?v name = Some (FileNode b)"
      by (metis node.exhaust not_Some_eq)
    then show ?thesis
    proof cases
      case none
      then have "out = (StatusConflict, ?v)" by (simp add: out_def range_spec_def)
      then show ?thesis using w' none name
        by (auto simp: servePutRange_def wp_simps told_None notFound_conflict intro!: wp_info [OF h])
    next
      case dir
      then have "out = (StatusMethodNotAllowed, ?v)" by (simp add: out_def range_spec_def)
      then show ?thesis using w' dir name
        by (auto simp: servePutRange_def wp_simps told_Some intro!: wp_info [OF h])
    next
      case plain
      then show ?thesis using w' name
        by (auto simp: servePutRange_def wp_simps h dest!: told_FileD
            intro!: wp_info [OF h] wp_writableAt [OF h, where b = b] wp_Size [where b = b] body)
    qed
  qed
  then show ?thesis
    unfolding servePut_def out_def [symmetric] using s l name cr
    by (auto intro!: wp_checkLocks)
qed

end

section \<open>Property\<close>

text \<open>
  C13. A partial \<open>PUT\<close> changes exactly the bytes of its range: the new file is the old one with the body
  in the place of the bytes the range names, a range that starts at the end appends, and any
  other request (a range past the end, a body that is too large, too short or cut, a missing
  resource, a collection) is refused with 416, 413, 400, 409 or 405 and changes nothing.
\<close>

theorem put_range_patches:
  assumes "positional d fsinv view opn handle" and "h_fs h = d" and "accepted h r name" and "rq_method r = ''PUT''"
    and "name \<noteq> ''/''" and "rq_header r ''Content-Range'' \<noteq> []"
    and "parseContentRange (rq_header r ''Content-Range'') = Some cr"
    and "fsinv (w_fs w)" and "\<not> w_mu w" and "ls_inv (lw_table (w_lk w))" and "permitted r name (w_lk w)"
    and "\<And>b. view (w_fs w) name = Some (FileNode b) \<Longrightarrow> int (length b) + h_maxBody h < 2 ^ 63"
    and "0 < h_maxBody h"
  shows "yields fsinv view (ServeHTTP h r) w (range_spec (h_maxBody h) r cr name (view (w_fs w))) (locks_at (w_lk w))"
  unfolding accepted_serves(1) [OF assms(3,4)]
  by (rule positional.range_put [OF assms(1,2) accepted_canonical [OF assms(3)] assms(5-)])

theorem put_range_patches_witness:
  "yields mem_inv mem_view (ServeHTTP (mem_handler True demo_std 5)
       (demo_request ''PUT'' ''/d/a'' [(''Content-Range'', ''bytes 1-2/*'')] ''EL''))
     (demo_world demo_mem) (StatusNoContent, (mem_view demo_mem)(''/d/a'' \<mapsto> FileNode ''hELlo'')) (locks_at demo_lw)"
proof -
  have p: "canonical ''/d/a''" "resource [] ''/d/a'' = Some ''/d/a''"
    "parseContentRange ''bytes 1-2/*'' = Some \<lparr>cr_start = 1, cr_end = 2\<rparr>"
    "patch 1 ''EL'' ''hello'' = ''hELlo''" by code_simp+
  show ?thesis
    using put_range_patches [where d = "mem_driver True" and fsinv = mem_inv and view = mem_view
        and h = "mem_handler True demo_std 5"
        and r = "demo_request ''PUT'' ''/d/a'' [(''Content-Range'', ''bytes 1-2/*'')] ''EL''"
        and name = "''/d/a''" and w = "demo_world demo_mem" and cr = "\<lparr>cr_start = 1, cr_end = 2\<rparr>"
        and opn = mem_OpenFile and handle = mem_handle]
      mem_files.positional_axioms demo_accepted [OF p(2), of True 5] demo_mem_inv demo_permitted [OF p(1)] p(3,4)
    by (simp add: range_spec_def demo_view header_get_def defaultMaxBody_def cr_length_def)
qed

end
