(* ===== verification/Listing.thy ===== *)
theory Listing
  imports PartialPut
begin

text \<open>
  What \<open>PROPFIND\<close> answers: \<open>prop_value\<close> is the value of a property as a function of the resource,
  the capacity and the live locks, \<open>prop_row\<close> the row of a resource, and the multistatus has one
  row for the resource and, at depth one, one for each member.
\<close>

section \<open>Properties as values\<close>

definition active_lock :: "('s, 'f) handler \<Rightarrow> (path \<Rightarrow> lockInfo option) \<Rightarrow> path \<Rightarrow> bytes" where
  "active_lock h t p =
     (case t p of None \<Rightarrow> [] | Some l \<Rightarrow> activeLockXML l (href (h_prefix h) (lk_path l) False))"

text \<open>The live properties and their values; \<open>sp\<close> is the capacity, \<open>t\<close> the live locks.\<close>

definition prop_names :: "64 word \<times> 64 word \<Rightarrow> resourceInfo \<Rightarrow> string list" where
  "prop_names sp i = base_names @
     (if \<not> ri_isDir i then [''getcontentlength'']
      else if fst sp > 0 then [''quota-available-bytes'', ''quota-used-bytes''] else [])"

definition prop_text ::
  "('s, 'f) handler \<Rightarrow> 64 word \<times> 64 word \<Rightarrow> (path \<Rightarrow> lockInfo option) \<Rightarrow> resourceInfo \<Rightarrow> string \<Rightarrow> bytes" where
  \<open>prop_text h sp t i n =
     (if n = ''resourcetype'' then (if ri_isDir i then ''<collection xmlns="DAV:"/>'' else [])
      else if n = ''displayname'' then textValue (ri_name i)
      else if n = ''getlastmodified'' then textValue (http_time (ri_modTime i))
      else if n = ''creationdate'' then textValue (rfc3339 (ri_modTime i))
      else if n = ''getetag'' then textValue (ri_etag i)
      else if n = ''supportedlock'' then supportedLockXML
      else if n = ''lockdiscovery'' then active_lock h t (ri_path i)
      else if n = ''getcontentlength'' then textValue (format_nat (unat (ri_size i)))
      else if n = ''getcontenttype'' then textValue (contentTypeOf (h_std h) i)
      else textValue (format_nat (unat (quota_value n sp))))\<close>

definition prop_value ::
  "('s, 'f) handler \<Rightarrow> 64 word \<times> 64 word \<Rightarrow> (path \<Rightarrow> lockInfo option) \<Rightarrow> resourceInfo \<Rightarrow> xml_name \<Rightarrow>
   xml_property option" where
  "prop_value h sp t i n =
     (if fst n = davNS \<and> snd n \<in> set (prop_names sp i) then Some (prop_dav (snd n) (prop_text h sp t i (snd n)))
      else None)"

definition prop_row ::
  "('s, 'f) handler \<Rightarrow> 64 word \<times> 64 word \<Rightarrow> (path \<Rightarrow> lockInfo option) \<Rightarrow> propfindRequest \<Rightarrow> resourceInfo \<Rightarrow>
   response" where
  "prop_row h sp t req i = propstat_row (hrefOf h (ri_path i) (ri_isDir i))
     (if pf_propname req then [newPropstat StatusOK (map (\<lambda>n. prop_dav n []) (prop_names sp i))]
      else if pf_allprop req then
        [newPropstat StatusOK (map (\<lambda>n. prop_dav n (prop_text h sp t i n)) (prop_names sp i))]
      else (let found = [n \<leftarrow> pf_names req. prop_value h sp t i n \<noteq> None];
                missing = [n \<leftarrow> pf_names req. prop_value h sp t i n = None]
            in (if found = [] then []
                else [newPropstat StatusOK (map (\<lambda>n. prop_dav (snd n) (prop_text h sp t i (snd n))) found)]) @
               (if missing = [] then []
                else [newPropstat StatusNotFound (map (\<lambda>n. \<lparr>pr_name = n, pr_inner = []\<rparr>) missing)])))"

text \<open>The capacity is that of the handler, or a callback that keeps answering the same.\<close>

definition steady :: "('s, 'f) handler \<Rightarrow> 64 word \<times> 64 word \<Rightarrow> bool" where
  "steady h sp \<longleftrightarrow>
     (case h_capacity h of None \<Rightarrow> sp = (h_total h, h_avail h) | Some f \<Rightarrow> f = State_Monad.return sp)"

section \<open>The code computes them\<close>

text \<open>The same driver state, mutex and live locks; an expired lock may have been swept away.\<close>

definition alike :: "'s world \<Rightarrow> 's world \<Rightarrow> bool" where
  "alike w w' \<longleftrightarrow> w_fs w' = w_fs w \<and> w_mu w' = w_mu w \<and> ls_inv (lw_table (w_lk w')) \<and>
     locks_at (w_lk w') = locks_at (w_lk w)"

lemma alike_refl: "ls_inv (lw_table (w_lk w)) \<Longrightarrow> alike w w"
  and alike_trans: "alike w w' \<Longrightarrow> alike w' w'' \<Longrightarrow> alike w w''"
  and alike_inv: "alike w w' \<Longrightarrow> ls_inv (lw_table (w_lk w'))"
  by (simp_all add: alike_def)

lemma wp_ls:
  "wp (ls_call m k) w Q \<longleftrightarrow> (case run_state m (w_lk w) of (x, l) \<Rightarrow> wp (k x) (w\<lparr>w_lk := l\<rparr>) Q)"
  by (simp add: wp_def run_simps split: prod.splits)

lemma wp_discovery:
  assumes "ls_inv (lw_table (w_lk w))"
    and "\<And>w'. alike w w' \<Longrightarrow> wp (k (active_lock h (locks_at (w_lk w)) p)) w' Q"
  shows "wp (discoveryXML h p k) w Q"
proof -
  let ?l = "w_lk w"
  let ?t = "sweep (lw_now ?l) (lw_table ?l)"
  let ?w' = "w\<lparr>w_lk := ?l\<lparr>lw_table := ?t\<rparr>\<rparr>"
  have alike: "alike w ?w'"
    using assms(1) locks_at_sweep [OF assms(1)] by (simp add: alike_def ls_inv_sweep)
  have held: "held ?t = locks_at ?l" using assms(1) by (simp add: locks_at_def held_sweep ls_inv_linked)
  have find: "find_lock (lw_now ?l) p (lw_table ?l) = (map_of (byPath ?t) p, ?t)"
    by (simp add: find_lock_def Let_def)
  have "wp (k (active_lock h (locks_at ?l) p)) ?w' Q" by (rule assms(2) [OF alike])
  then show ?thesis
    by (cases "map_of (byPath ?t) p")
       (simp_all add: discoveryXML_def wp_ls lw_find_def lw_read_def find active_lock_def held [symmetric] held_def)
qed

lemma wp_space:
  assumes "steady h sp" and "wp (k sp) w Q"
  shows "wp (space h k) w Q"
  using assms by (auto simp: steady_def space_def wp_def run_simps split: option.splits)

lemma wp_propNames:
  assumes "steady h sp" and "wp (k (prop_names sp i)) w Q"
  shows "wp (propNames h i k) w Q"
  using assms by (auto simp: propNames_def prop_names_def intro!: wp_space [OF assms(1)] split: prod.splits)

lemma wp_propValue:
  assumes "steady h sp" and "ls_inv (lw_table (w_lk w))"
    and "\<And>w'. alike w w' \<Longrightarrow> wp (k (prop_value h sp (locks_at (w_lk w)) i n)) w' Q"
  shows "wp (propValue h i n k) w Q"
proof -
  note here = assms(3) [OF alike_refl [OF assms(2)]]
  note vals = propValue_def prop_value_def prop_names_def prop_text_def base_names_def Let_def
  consider (foreign) "fst n \<noteq> davNS" | (lock) "fst n = davNS" "snd n = ''lockdiscovery''"
    | (quota) "fst n = davNS" "snd n \<in> {''quota-available-bytes'', ''quota-used-bytes''}"
    | (other) "fst n = davNS" "snd n \<notin> {''lockdiscovery'', ''quota-available-bytes'', ''quota-used-bytes''}"
    by blast
  then show ?thesis
  proof cases
    case lock
    then show ?thesis using assms(3)
      by (auto simp: vals intro!: wp_discovery [OF assms(2)])
  next
    case quota
    then show ?thesis using here
      by (auto simp: vals word_gt_0 intro!: wp_space [OF assms(1)])
  qed (use here in \<open>auto simp: vals split: if_splits\<close>)
qed

lemma wp_all_props:
  assumes "steady h sp" and "ls_inv (lw_table (w_lk w))" and "set ns \<subseteq> set (prop_names sp i)"
    and "\<And>w'. alike w w' \<Longrightarrow>
      wp (k (map (\<lambda>n. prop_dav n (prop_text h sp (locks_at (w_lk w)) i n)) ns)) w' Q"
  shows "wp (all_props_loop h i ns k) w Q"
  using assms(2-4)
proof (induction ns arbitrary: w k)
  case Nil
  then show ?case by (simp add: alike_refl)
next
  case (Cons n ns)
  show ?case
    unfolding all_props_loop.simps
  proof (rule wp_propValue [OF assms(1) Cons.prems(1)])
    fix w' assume w': "alike w w'"
    then have same: "locks_at (w_lk w') = locks_at (w_lk w)" by (simp add: alike_def)
    have "prop_value h sp (locks_at (w_lk w)) i (davNS, n) =
        Some (prop_dav n (prop_text h sp (locks_at (w_lk w)) i n))"
      using Cons.prems(2) by (simp add: prop_value_def)
    then show "wp (all_props_loop h i ns (\<lambda>ps. k ((case prop_value h sp (locks_at (w_lk w)) i (davNS, n) of
        None \<Rightarrow> empty_property | Some p \<Rightarrow> p) # ps))) w' Q"
      using Cons.IH [OF alike_inv [OF w']] Cons.prems(2,3) alike_trans [OF w'] same by simp
  qed
qed

lemma wp_named:
  assumes "steady h sp" and "ls_inv (lw_table (w_lk w))"
    and "\<And>w'. alike w w' \<Longrightarrow>
      wp (k (map (\<lambda>n. prop_dav (snd n) (prop_text h sp (locks_at (w_lk w)) i (snd n)))
               [n \<leftarrow> ns. prop_value h sp (locks_at (w_lk w)) i n \<noteq> None],
             map (\<lambda>n. \<lparr>pr_name = n, pr_inner = []\<rparr>) [n \<leftarrow> ns. prop_value h sp (locks_at (w_lk w)) i n = None])) w' Q"
  shows "wp (namedProps h i ns k) w Q"
  using assms(2,3)
proof (induction ns arbitrary: w k)
  case Nil
  then show ?case by (simp add: alike_refl)
next
  case (Cons n ns)
  show ?case
    unfolding namedProps.simps
  proof (rule wp_propValue [OF assms(1) Cons.prems(1)], rule Cons.IH)
    fix w' assume "alike w w'"
    then show "ls_inv (lw_table (w_lk w'))" by (rule alike_inv)
  next
    fix w' w'' assume w': "alike w w'" and w'': "alike w' w''"
    have same: "locks_at (w_lk w') = locks_at (w_lk w)" using w' by (simp add: alike_def)
    show "wp (case (map (\<lambda>n. prop_dav (snd n) (prop_text h sp (locks_at (w_lk w')) i (snd n)))
               [n \<leftarrow> ns. prop_value h sp (locks_at (w_lk w')) i n \<noteq> None],
             map (\<lambda>n. \<lparr>pr_name = n, pr_inner = []\<rparr>) [n \<leftarrow> ns. prop_value h sp (locks_at (w_lk w')) i n = None]) of
        (found, missing) \<Rightarrow> (case prop_value h sp (locks_at (w_lk w)) i n of
          None \<Rightarrow> k (found, \<lparr>pr_name = n, pr_inner = []\<rparr> # missing)
        | Some p \<Rightarrow> k (p # found, missing))) w'' Q"
      using Cons.prems(2) [OF alike_trans [OF w' w'']]
      by (cases "prop_value h sp (locks_at (w_lk w)) i n") (auto simp: same prop_value_def split: if_splits)
  qed
qed

lemma wp_respond:
  assumes "steady h sp" and "ls_inv (lw_table (w_lk w))"
    and "\<And>w'. alike w w' \<Longrightarrow> wp (k (prop_row h sp (locks_at (w_lk w)) req i)) w' Q"
  shows "wp (respond h i req k) w Q"
  using assms(2,3)
  by (auto simp: respond_def prop_row_def Let_def allProps_def alike_refl
      intro!: wp_propNames [OF assms(1)] wp_all_props [OF assms(1)] wp_named [OF assms(1)])

section \<open>The rows of a listing\<close>

text \<open>What a row's resource must be: the file or directory the tree has at its path.\<close>

definition describes :: "tree \<Rightarrow> resourceInfo \<Rightarrow> bool" where
  "describes v i \<longleftrightarrow> v (ri_path i) \<noteq> None \<and> (ri_isDir i \<longleftrightarrow> v (ri_path i) = Some DirNode) \<and>
     (\<forall>b. v (ri_path i) = Some (FileNode b) \<longrightarrow> ri_size i = of_nat (length b))"

context filesystem
begin

lemma wp_info_full:
  assumes h: "h_fs h = d" and "fsinv (w_fs w)" and "view (w_fs w) p = Some nd"
    and "\<And>i s. ri_path i = p \<Longrightarrow> describes (view (w_fs w)) i \<Longrightarrow> fsinv s \<Longrightarrow> view s = view (w_fs w) \<Longrightarrow>
      wp (k (Inr i)) (w\<lparr>w_fs := s\<rparr>) Q"
  shows "wp (fs_call (info h p) k) w Q"
proof -
  have c: "canonical p" using tree_okD(1) [OF view_ok [OF assms(2)]] assms(3) by simp
  obtain r s where r: "run_state (drv_Stat d p) (w_fs w) = (r, s)" by fastforce
  from Stat [OF assms(2) c r] assms(3) obtain st where st: "r = Inr (Some st)"
    "st_mode st AND sIFMT = sIFDIR \<longleftrightarrow> nd = DirNode" "\<And>b. nd = FileNode b \<Longrightarrow> st_size st = of_nat (length b)"
    and s: "fsinv s" "view s = view (w_fs w)"
    by (auto simp: stat_agrees_def)
  have "p = ''/'' \<Longrightarrow> nd = DirNode" using tree_root [OF view_ok [OF assms(2)]] assms(3) by simp
  then have "describes (view (w_fs w)) (infoFromStat h p st)"
    using st assms(3) by (auto simp: describes_def infoFromStat_isDir)
  then show ?thesis using assms(4) [of "infoFromStat h p st" s] s r st(1) by (simp add: wp_fs run_info h)
qed

lemma wp_member_rows:
  assumes h: "h_fs h = d" and st: "steady h sp" and v: "set ns \<subseteq> members v p \<union> {''.'', ''..''}"
    and w: "fsinv (w_fs w)" "view (w_fs w) = v" "ls_inv (lw_table (w_lk w))"
    and k: "\<And>is w'. map ri_path is = map (join p) [n \<leftarrow> ns. \<not> dot n] \<Longrightarrow> \<forall>i \<in> set is. describes v i \<Longrightarrow>
      fsinv (w_fs w') \<Longrightarrow> view (w_fs w') = v \<Longrightarrow> w_mu w' = w_mu w \<Longrightarrow> ls_inv (lw_table (w_lk w')) \<Longrightarrow>
      locks_at (w_lk w') = locks_at (w_lk w) \<Longrightarrow>
      wp (k (map (prop_row h sp (locks_at (w_lk w)) req) is)) w' Q"
  shows "wp (member_rows h p req ns k) w Q"
  using v w k
proof (induction ns arbitrary: w k)
  case Nil
  then show ?case using Nil.prems(5) [of "[]" w] by simp
next
  case (Cons n ns)
  show ?case
  proof (cases "dot n")
    case True
    then show ?thesis using Cons.IH [of w k] Cons.prems by (simp add: dot_def)
  next
    case False
    then obtain nd where nd: "view (w_fs w) (join p n) = Some nd"
      using Cons.prems(1,3) by (auto simp: members_def dot_def)
    show ?thesis
      using False unfolding member_rows.simps dot_def [symmetric] if_not_P [OF False]
    proof (intro wp_info_full [OF h Cons.prems(2) nd], unfold sum.case)
      fix i s assume i: "ri_path i = join p n" "describes (view (w_fs w)) i" and s: "fsinv s" "view s = view (w_fs w)"
      show "wp (respond h i req (\<lambda>row. member_rows h p req ns (\<lambda>rows. k (row # rows)))) (w\<lparr>w_fs := s\<rparr>) Q"
      proof (rule wp_respond [OF st])
        show "ls_inv (lw_table (w_lk (w\<lparr>w_fs := s\<rparr>)))" using Cons.prems(4) by simp
        fix w' assume w': "alike (w\<lparr>w_fs := s\<rparr>) w'"
        show "wp (member_rows h p req ns (\<lambda>rows. k (prop_row h sp (locks_at (w_lk (w\<lparr>w_fs := s\<rparr>))) req i # rows))) w' Q"
        proof (rule Cons.IH)
          fix "is" and w'' :: "'s world" assume "map ri_path is = map (join p) [n \<leftarrow> ns. \<not> dot n]" "\<forall>i \<in> set is. describes v i"
            "fsinv (w_fs w'')" "view (w_fs w'') = v" "w_mu w'' = w_mu w'" "ls_inv (lw_table (w_lk w''))"
            "locks_at (w_lk w'') = locks_at (w_lk w')"
          then show "wp (k (prop_row h sp (locks_at (w_lk (w\<lparr>w_fs := s\<rparr>))) req i #
              map (prop_row h sp (locks_at (w_lk w')) req) is)) w'' Q"
            using Cons.prems(5) [of "i # is" w''] w' i Cons.prems(3) False by (simp add: alike_def)
        qed (use Cons.prems w' s in \<open>simp_all add: alike_def\<close>)
      qed
    qed
  qed
qed


lemma wp_ListDir:
  assumes "fsinv (w_fs w)" and "view (w_fs w) p = Some DirNode"
    and "\<And>ns s. distinct ns \<Longrightarrow> members (view (w_fs w)) p \<subseteq> set ns \<Longrightarrow>
      set ns \<subseteq> members (view (w_fs w)) p \<union> {''.'', ''..''} \<Longrightarrow> fsinv s \<Longrightarrow> view s = view (w_fs w) \<Longrightarrow>
      wp (k (Inr ns)) (w\<lparr>w_fs := s\<rparr>) Q"
  shows "wp (fs_call (drv_ListDir d p) k) w Q"
proof -
  obtain l s where l: "run_state (drv_ListDir d p) (w_fs w) = (l, s)" by fastforce
  from ListDir [OF assms(1,2) l] show ?thesis
    using assms(3) by (auto simp: listing_agrees_def wp_fs l)
qed

end

text \<open>The answer of a listing of \<open>name\<close> in the tree \<open>v\<close>: the resource first, then its members.\<close>

definition listing :: "tree \<Rightarrow> path \<Rightarrow> bool \<Rightarrow> (resourceInfo \<Rightarrow> response) \<Rightarrow> http_response \<Rightarrow> bool" where
  "listing v name deep row resp \<longleftrightarrow>
     (\<exists>self is. rs_body resp = Multistatus (row self # map row is) \<and> ri_path self = name \<and>
        (\<forall>i \<in> set (self # is). describes v i) \<and> distinct (map ri_path is) \<and>
        set (map ri_path is) = (if deep \<and> v name = Some DirNode then join name ` members v name else {}))"

lemma listingI:
  assumes "rs_body resp = Multistatus (row self # map row is)" and "ri_path self = name" and "describes v self"
    and "\<forall>i \<in> set is. describes v i" and "distinct (map ri_path is)"
    and "set (map ri_path is) = (if deep \<and> v name = Some DirNode then join name ` members v name else {})"
  shows "listing v name deep row resp"
  unfolding listing_def by (rule exI [of _ self], rule exI [of _ "is"]) (use assms in simp)

lemma join_inj:
  assumes "canonical p" and "good_comp a" and "good_comp b" and "join p a = join p b"
  shows "a = b"
  using arg_cong [OF assms(4), of comps] by (simp add: comps_join assms(1-3))

lemma listing_members:
  assumes "canonical name" and "distinct ns" and "members v name \<subseteq> set ns"
    and "set ns \<subseteq> members v name \<union> {''.'', ''..''}"
  shows "distinct (map (join name) [n \<leftarrow> ns. \<not> dot n])"
    and "join name ` set [n \<leftarrow> ns. \<not> dot n] = join name ` members v name"
proof -
  have s: "set [n \<leftarrow> ns. \<not> dot n] = members v name"
    using assms(3,4) good_not_dot by (auto simp: members_def dot_def)
  have "inj_on (join name) (members v name)"
    using join_inj [OF assms(1)] by (auto simp: inj_on_def members_def)
  then show "distinct (map (join name) [n \<leftarrow> ns. \<not> dot n])"
    using assms(2) s by (auto simp: distinct_map)
  show "join name ` set [n \<leftarrow> ns. \<not> dot n] = join name ` members v name" by (simp only: s)
qed

abbreviation listed_as ::
  "('s \<Rightarrow> bool) \<Rightarrow> ('s \<Rightarrow> tree) \<Rightarrow> tree \<Rightarrow> (path \<Rightarrow> lockInfo option) \<Rightarrow> path \<Rightarrow> bool \<Rightarrow>
   (resourceInfo \<Rightarrow> response) \<Rightarrow> http_response \<Rightarrow> 's world \<Rightarrow> bool" where
  "listed_as fsinv view v t name deep row \<equiv> \<lambda>resp w.
     outcome fsinv view (StatusMulti, v) t resp w \<and> listing v name deep row resp"

context filesystem
begin

lemma wp_multistatus:
  assumes "fsinv (w_fs w)" and "view (w_fs w) = v" and "ls_inv (lw_table (w_lk w))" and "locks_at (w_lk w) = t"
    and "ri_path self = name" and "describes v self" and "\<forall>i \<in> set is. describes v i" and "distinct (map ri_path is)"
    and "set (map ri_path is) = (if deep \<and> v name = Some DirNode then join name ` members v name else {})"
  shows "wp (Unlock (Done (writeMultistatus ws (row self # map row is)))) w (listed_as fsinv view v t name deep row)"
proof -
  have "listing v name deep row (writeMultistatus ws (row self # map row is))"
    by (rule listingI [OF _ assms(5-9)]) (simp add: writeMultistatus_def)
  then show ?thesis using assms(1-4) by (simp add: wp_simps writeMultistatus_def)
qed

lemma wp_members:
  assumes h: "h_fs h = d" and name: "canonical name" and sp: "steady h sp"
    and w: "fsinv (w_fs w)" "view (w_fs w) = v" "ls_inv (lw_table (w_lk w))" "locks_at (w_lk w) = t"
    and self: "ri_path self = name" "describes v self" and dir: "v name = Some DirNode" "deep"
    and ns: "distinct ns" "members v name \<subseteq> set ns" "set ns \<subseteq> members v name \<union> {''.'', ''..''}"
  shows "wp (member_rows h name req ns (\<lambda>rows. Unlock (Done (writeMultistatus ws (prop_row h sp t req self # rows))))) w
    (listed_as fsinv view v t name deep (prop_row h sp t req))"
proof (rule wp_member_rows [OF h sp ns(3) w(1-3)], unfold w(4))
  fix "is" and w' :: "'s world"
  assume rows: "map ri_path is = map (join name) [n \<leftarrow> ns. \<not> dot n]" "\<forall>i \<in> set is. describes v i"
    and w': "fsinv (w_fs w')" "view (w_fs w') = v" "ls_inv (lw_table (w_lk w'))" "locks_at (w_lk w') = t"
  note m = listing_members [OF name ns]
  have "set (map ri_path is) = join name ` members v name" using m(2) by (simp only: rows(1) set_map)
  then show "wp (Unlock (Done (writeMultistatus ws (prop_row h sp t req self # map (prop_row h sp t req) is)))) w'
      (listed_as fsinv view v t name deep (prop_row h sp t req))"
    using m(1) dir by (intro wp_multistatus [OF w' self rows(2)]) (simp_all only: rows(1) if_P simp_thms)
qed

lemma listed:
  assumes h: "h_fs h = d" and name: "canonical name" and sp: "steady h sp"
    and dp: "parseDepth (rq_header r ''Depth'') = Some dp" "dp \<noteq> depthInfinity"
    and req: "parsePropfind h r = Some req"
    and s: "fsinv (w_fs w)" "\<not> w_mu w" "ls_inv (lw_table (w_lk w))"
    and there: "view (w_fs w) name = Some nd"
  shows "wp (servePropfind h ws r name) w (\<lambda>resp w'.
    outcome fsinv view (StatusMulti, view (w_fs w)) (locks_at (w_lk w)) resp w' \<and>
    listing (view (w_fs w)) name (dp = depthOne) (prop_row h sp (locks_at (w_lk w)) req) resp)"
    (is "wp _ _ ?Q")
proof -
  let ?v = "view (w_fs w)" and ?row = "prop_row h sp (locks_at (w_lk w)) req"
  show ?thesis
    unfolding servePropfind_def dp(1) req option.case if_not_P [OF dp(2)] wp_Lock [OF s(2)]
  proof (rule wp_info_full [OF h], simp add: s(1), simp add: there, unfold sum.case, rule wp_respond [OF sp])
    fix self s' assume self: "ri_path self = name" "describes (view (w_fs (w\<lparr>w_mu := True\<rparr>))) self"
      and s': "fsinv s'" "view s' = view (w_fs (w\<lparr>w_mu := True\<rparr>))"
    show "ls_inv (lw_table (w_lk (w\<lparr>w_mu := True, w_fs := s'\<rparr>)))" using s(3) by simp
    fix w' assume "alike (w\<lparr>w_mu := True, w_fs := s'\<rparr>) w'"
    then have w': "fsinv (w_fs w')" "view (w_fs w') = ?v" "ls_inv (lw_table (w_lk w'))"
      "locks_at (w_lk w') = locks_at (w_lk w)" using s' by (simp_all add: alike_def)
    have dir: "ri_isDir self \<longleftrightarrow> ?v name = Some DirNode" using self by (simp add: describes_def)
    have lk: "locks_at (w_lk (w\<lparr>w_mu := True, w_fs := s'\<rparr>)) = locks_at (w_lk w)" by simp
    show "wp (if dp = depthOne \<and> ri_isDir self
        then fs_call (drv_ListDir (h_fs h) name) (\<lambda>entries. case entries of
            Inl err \<Rightarrow> Unlock (Done (http_error ws (statusFor err StatusInternalServerError)
              (''webdav: '' @ err_text err)))
          | Inr names \<Rightarrow> member_rows h name req names (\<lambda>rows.
              Unlock (Done (writeMultistatus ws
                (prop_row h sp (locks_at (w_lk (w\<lparr>w_mu := True, w_fs := s'\<rparr>))) req self # rows)))))
        else Unlock (Done (writeMultistatus ws
          [prop_row h sp (locks_at (w_lk (w\<lparr>w_mu := True, w_fs := s'\<rparr>))) req self]))) w' ?Q"
    proof (cases "dp = depthOne \<and> ri_isDir self")
      case True
      then have here: "?v name = Some DirNode" "dp = depthOne" using dir by simp_all
      show ?thesis
        unfolding if_P [OF True] h lk
      proof (rule wp_ListDir [OF w'(1)], unfold w'(2) sum.case)
        show "?v name = Some DirNode" by (rule here(1))
        fix ns and t :: 's
        assume "distinct ns" "members ?v name \<subseteq> set ns" "set ns \<subseteq> members ?v name \<union> {''.'', ''..''}"
          "fsinv t" "view t = ?v"
        then show "wp (member_rows h name req ns (\<lambda>rows. Unlock (Done (writeMultistatus ws (?row self # rows)))))
            (w'\<lparr>w_fs := t\<rparr>) ?Q"
          by (intro wp_members [OF h name sp]) (use w' self here in simp_all)
      qed
    next
      case False
      have "wp (Unlock (Done (writeMultistatus ws (?row self # map ?row [])))) w' ?Q"
        by (rule wp_multistatus [OF w' self(1)]) (use self dir False in auto)
      then show ?thesis unfolding lk if_not_P [OF False] by (simp only: list.map)
    qed
  qed
qed

end

section \<open>Property\<close>

text \<open>
  C14. \<open>PROPFIND\<close> of an existing resource, at depth 0 or 1, is answered 207 with one row for the
  resource and, at depth 1, exactly one for each member of a collection, each carrying the
  properties asked for (the ones it has with their values, the others under 404), the live lock
  of its path among them; nothing changes.
\<close>

theorem propfind_lists:
  assumes "filesystem d fsinv view" and "h_fs h = d" and "authorise h [] r = None"
    and "resource (h_prefix h) (rq_path r) = Some name" and "rq_method r = ''PROPFIND''"
    and "parseDepth (rq_header r ''Depth'') = Some dp" and "dp \<noteq> depthInfinity"
    and "parsePropfind h r = Some req" and "steady h sp"
    and "fsinv (w_fs w)" and "\<not> w_mu w" and "ls_inv (lw_table (w_lk w))" and "view (w_fs w) name = Some nd"
  shows "wp (ServeHTTP h r) w (\<lambda>resp w'.
    outcome fsinv view (StatusMulti, view (w_fs w)) (locks_at (w_lk w)) resp w' \<and>
    listing (view (w_fs w)) name (dp = depthOne) (prop_row h sp (locks_at (w_lk w)) req) resp)"
proof -
  have "ServeHTTP h r = servePropfind h (setDAV h []) r name"
    using assms(3-5) by (simp add: ServeHTTP_def dispatch_def Let_def)
  then show ?thesis
    using filesystem.listed [OF assms(1,2) resource_SomeD(1) [OF assms(4)] assms(9,6-8,10-13)] by simp
qed

theorem propfind_lists_witness:
  "wp (ServeHTTP (mem_handler False (demo_std\<lparr>std_xml := \<lambda>b e. ([], e)\<rparr>) 5)
       (demo_request ''PROPFIND'' ''/d'' [(''Depth'', ''1'')] [])) (demo_world demo_mem)
     (\<lambda>resp w'. rs_status resp = StatusMulti \<and> listing (mem_view demo_mem) ''/d'' True
        (prop_row (mem_handler False (demo_std\<lparr>std_xml := \<lambda>b e. ([], e)\<rparr>) 5) (0, 0) (locks_at demo_lw)
          (empty_propfind\<lparr>pf_allprop := True\<rparr>)) resp)"
proof -
  let ?g = "demo_std\<lparr>std_xml := \<lambda>b e. ([], e)\<rparr>"
  let ?h = "mem_handler False ?g 5" and ?r = "demo_request ''PROPFIND'' ''/d'' [(''Depth'', ''1'')] []"
  have p: "resource [] ''/d'' = Some ''/d''" "parseDepth ''1'' = Some depthOne" by code_simp+
  have "authorise ?h [] ?r = None" "h_prefix ?h = []" "steady ?h (0, 0)" "h_std ?h = ?g"
    by (simp_all add: mem_handler_def base_handler_def authorise_def steady_def)
  moreover have "parsePropfind ?h ?r = Some (empty_propfind\<lparr>pf_allprop := True\<rparr>)"
    by (simp add: parsePropfind_def xml_input_def mem_handler_def base_handler_def parse_propfind_loop.simps
        maxPropfindBody_def)
  moreover have "rq_path ?r = ''/d''" by (simp add: demo_request_def)
  ultimately have "wp (ServeHTTP ?h ?r) (demo_world demo_mem) (\<lambda>resp w'.
      outcome mem_inv mem_view (StatusMulti, mem_view demo_mem) (locks_at demo_lw) resp w' \<and>
      listing (mem_view demo_mem) ''/d'' True (prop_row ?h (0, 0) (locks_at demo_lw)
        (empty_propfind\<lparr>pf_allprop := True\<rparr>)) resp)"
    using propfind_lists [where d = "mem_driver False" and fsinv = mem_inv and view = mem_view and h = ?h and r = ?r
        and name = "''/d''" and dp = depthOne and req = "empty_propfind\<lparr>pf_allprop := True\<rparr>" and sp = "(0, 0)"
        and w = "demo_world demo_mem" and nd = DirNode]
      mem.filesystem_axioms [of False] p demo_mem_inv
    by (simp add: demo_view header_get_def depthOne_def depthInfinity_def)
  then show ?thesis by (auto simp: wp_def outcome_def)
qed

end
