(* ===== verification/LockSpecs.thy ===== *)
theory LockSpecs
  imports Listing
begin

text \<open>
  \<open>LOCK\<close> and \<open>UNLOCK\<close> on the tree and on the live locks.
\<close>

section \<open>LOCK\<close>

text \<open>
  What a request for a new lock leads to: the status, the new live locks, and the token granted.
\<close>

definition lock_spec ::
  "lock_world \<Rightarrow> path \<Rightarrow> int \<Rightarrow> bytes \<Rightarrow> nanos \<Rightarrow> bool \<Rightarrow> nat \<times> (path \<Rightarrow> lockInfo option) \<times> token option" where
  "lock_spec l p dp ow t created =
     (let now = lw_now l; locks = locks_at l
      in if \<exists>q k. locks q = Some k \<and> blocks p dp k then (StatusLocked, locks, None)
         else if maxLocks \<le> card (dom locks) then (StatusInternalServerError, locks, None)
         else (case newToken (lw_rand l 0) of
             Inl _ \<Rightarrow> (StatusInternalServerError, locks, None)
           | Inr tok \<Rightarrow> (if created then StatusCreated else StatusOK,
               live now (locks(p \<mapsto> new_lock now tok p dp ow t)), Some tok)))"

definition locked_as :: "nat \<times> (path \<Rightarrow> lockInfo option) \<times> token option \<Rightarrow> http_response \<Rightarrow> 's world \<Rightarrow> bool" where
  "locked_as spec resp w \<longleftrightarrow>
     (case spec of (status, locks, tok) \<Rightarrow> rs_status resp = status \<and> locks_at (w_lk w) = locks \<and>
        (\<forall>t. tok = Some t \<longrightarrow> header_get (rs_headers resp) ''Lock-Token'' = ''<'' @ t @ ''>''))"

text \<open>The order of the checks: a refusal for another reason means that no lock stands in the way.\<close>

lemma create_order:
  assumes inv: "ls_inv ls" and p: "canonical p" and c: "create now rnd p dp ow t ls = (Inl e, ls')" "e \<noteq> ErrLocked"
  shows "live now (held ls) q = Some l \<Longrightarrow> \<not> blocks p dp l"
    and "e = ErrRand x \<Longrightarrow> \<not> maxLocks \<le> card (dom (live now (held ls)))"
proof -
  note si = ls_inv_sweep [OF inv, of now]
  have h: "live now (held ls) = held (sweep now ls)" by (simp add: held_sweep ls_inv_linked [OF inv])
  have "conflict (sweep now ls) p dp = None" using c by (auto simp: create_def Let_def split: if_splits)
  then show "live now (held ls) q = Some l \<Longrightarrow> \<not> blocks p dp l"
    using conflict_NoneD [OF p si] by (simp add: h)
  show "e = ErrRand x \<Longrightarrow> \<not> maxLocks \<le> card (dom (live now (held ls)))"
    using c by (auto simp: create_def Let_def h held_card ls_inv_linked [OF si] split: if_splits sum.splits)
qed

lemma wp_lock_create:
  assumes ok: "lw_ok (w_lk w)" and p: "canonical p" "dp \<in> {depthZero, depthInfinity}"
    and k: "\<And>resp w'. w_fs w' = w_fs w \<Longrightarrow> w_mu w' = w_mu w \<Longrightarrow> lw_ok (w_lk w') \<Longrightarrow>
      lw_now (w_lk w') = lw_now (w_lk w) \<Longrightarrow> locked_as (lock_spec (w_lk w) p dp ow t created) resp w' \<Longrightarrow> Q resp w'"
  shows "wp (lock_create h ws p dp ow t created) w Q"
proof -
  let ?l = "w_lk w"
  obtain res ls' where c: "create (lw_now ?l) (lw_rand ?l 0) p dp ow t (lw_table ?l) = (res, ls')" by fastforce
  have inv: "ls_inv (lw_table ?l)" and fr: "fresh_rnd (lw_table ?l) (lw_rand ?l 0)"
    using ok unfolding lw_ok_def tokens_ahead_def by blast+
  note v = create_verdict [OF inv p fr c, folded locks_at_def]
  obtain l' where l': "run_state (lw_create p dp ow t) ?l = (res, l')" "lw_table l' = ls'" "lw_now l' = lw_now ?l"
    by (simp add: lw_create_def c)
  have ok': "lw_ok l'" using lw_ok_create [OF ok p, of ow t] by (simp add: l')
  let ?w' = "w\<lparr>w_lk := l'\<rparr>"
  have same: "held ls' = locks_at ?l \<Longrightarrow> locks_at l' = locks_at ?l"
    by (simp add: locks_at_def l'(2,3))
  show ?thesis
  proof (cases res)
    case (Inl e)
    have "locked_as (lock_spec ?l p dp ow t created) (writeLockError ws e) ?w'"
      using v same create_order [OF inv p(1) c [unfolded Inl], folded locks_at_def] unfolding Inl
      by (cases e) (auto simp: locked_as_def lock_spec_def Let_def)
    then show ?thesis using k [of ?w'] ok' l'
      by (simp add: lock_create_def wp_ls Inl wp_Done)
  next
    case (Inr r)
    then obtain tok where tok: "newToken (lw_rand ?l 0) = Inr tok" "deref ls' r = new_lock (lw_now ?l) tok p dp ow t"
      "held ls' = (locks_at ?l)(p \<mapsto> deref ls' r)" and free: "\<forall>q k. locks_at ?l q = Some k \<longrightarrow> \<not> blocks p dp k"
      "\<not> maxLocks \<le> card (dom (locks_at ?l))" using v by auto
    have "locked_as (lock_spec ?l p dp ow t created)
        (lock_response h ws (deref ls' r) (if created then StatusCreated else StatusOK)) ?w'"
      using tok free by (auto simp: locked_as_def lock_spec_def Let_def lock_response_def respond_with_def
          locks_at_def [of l'] l' new_lock_def)
    then show ?thesis using k [of ?w'] ok' l'
      by (simp add: lock_create_def writeLockResponse_def wp_ls Inr lw_read_def wp_Done)
  qed
qed

context filesystem
begin

lemma locked:
  assumes h: "h_fs h = d" and name: "canonical name"
    and dp: "parseDepth (rq_header r ''Depth'') = Some dp" "dp \<noteq> depthOne"
    and req: "parseLock h r = Some req" "\<not> lr_refresh req"
    and s: "fsinv (w_fs w)" "\<not> w_mu w" "lw_ok (w_lk w)"
    and place: "view (w_fs w) name \<noteq> None \<or> view (w_fs w) (parentOf name) = Some DirNode"
  shows "wp (serveLock h ws r name) w (\<lambda>resp w'.
    fsinv (w_fs w') \<and> \<not> w_mu w' \<and> lw_ok (w_lk w') \<and> lw_now (w_lk w') = lw_now (w_lk w) \<and>
    view (w_fs w') = (if view (w_fs w) name = None then (view (w_fs w))(name \<mapsto> FileNode []) else view (w_fs w)) \<and>
    locked_as (lock_spec (w_lk w) name dp (lr_owner req) (parseTimeout (rq_header r ''Timeout''))
      (view (w_fs w) name = None)) resp w')"
proof -
  have d: "dp \<in> {depthZero, depthInfinity}" using parseDepth_cases [OF dp(1)] dp(2) by auto
  have root: "view (w_fs w) name = None \<Longrightarrow> name \<noteq> ''/''" using tree_root [OF view_ok [OF s(1)]] by auto
  show ?thesis
    unfolding serveLock_def dp(1) req(1) option.case if_not_P [OF dp(2)] Let_def if_not_P [OF req(2)]
      wp_Lock [OF s(2)] h
  proof (rule wp_Stat, simp add: s(1), rule name)
    fix st and s' :: 's
    assume st: "isl st \<longleftrightarrow> view (w_fs (w\<lparr>w_mu := True\<rparr>)) name = None" "\<And>e. st = Inl e \<Longrightarrow> notFound e"
      and s': "fsinv s'" "view s' = view (w_fs (w\<lparr>w_mu := True\<rparr>))"
    then show "wp (case st of
         Inl err \<Rightarrow> if \<not> notFound err
           then Unlock (Done (http_error ws (statusFor err StatusInternalServerError) (''webdav: '' @ err_text err)))
           else fs_call (drv_WriteFile d name [] 420) (\<lambda>e. case e of
               None \<Rightarrow> Unlock (lock_create h ws name dp (lr_owner req) (parseTimeout (rq_header r ''Timeout'')) True)
             | Some e \<Rightarrow> Unlock (Done (http_error ws (statusFor e StatusInternalServerError) (''webdav: '' @ err_text e))))
       | Inr _ \<Rightarrow> Unlock (lock_create h ws name dp (lr_owner req) (parseTimeout (rq_header r ''Timeout'')) False))
       (w\<lparr>w_mu := True, w_fs := s'\<rparr>)
       (\<lambda>resp w'. fsinv (w_fs w') \<and> \<not> w_mu w' \<and> lw_ok (w_lk w') \<and> lw_now (w_lk w') = lw_now (w_lk w) \<and>
          view (w_fs w') = (if view (w_fs w) name = None then (view (w_fs w))(name \<mapsto> FileNode []) else view (w_fs w)) \<and>
          locked_as (lock_spec (w_lk w) name dp (lr_owner req) (parseTimeout (rq_header r ''Timeout''))
            (view (w_fs w) name = None)) resp w')"
      using s(3) name d place root
      by (cases st) (auto simp: wp_Unlock intro!: wp_WriteFile wp_lock_create)
  qed
qed

end

section \<open>UNLOCK\<close>

lemma trim_bracketed: "trim_space (''<'' @ t @ ''>'') = ''<'' @ t @ ''>''"
proof -
  have ends: "\<forall>u \<in> set unicode_spaces. hd u \<noteq> CHR ''<'' \<and> last u \<noteq> CHR ''>''" by code_simp
  have "find (has_prefix (''<'' @ t @ ''>'')) unicode_spaces = None"
    using ends unicode_spaces_not_Nil
    by (fastforce simp: find_None_iff has_prefix_iff append_eq_Cons_conv Cons_eq_append_conv)
  moreover have "find (has_suffix (''<'' @ t @ ''>'')) unicode_spaces = None"
  proof -
    have "u \<notin> set unicode_spaces" if "has_suffix (''<'' @ t @ ''>'') u" for u
    proof
      assume u: "u \<in> set unicode_spaces"
      obtain x where "''<'' @ t @ ''>'' = x @ u" using \<open>has_suffix _ u\<close> by (auto simp: has_suffix_iff)
      then have "last (x @ u) = CHR ''>''" by (metis last_snoc append_assoc)
      then show False using u ends unicode_spaces_not_Nil [OF u] by auto
    qed
    then show ?thesis by (auto simp: find_None_iff)
  qed
  ultimately show ?thesis by (simp add: trim_space_def trim_left.simps trim_right.simps)
qed

text \<open>The answer to an \<open>UNLOCK\<close> with a token, and the live locks after it.\<close>

definition unlock_spec :: "path \<Rightarrow> token \<Rightarrow> (path \<Rightarrow> lockInfo option) \<Rightarrow> nat \<times> (path \<Rightarrow> lockInfo option)" where
  "unlock_spec p t locks =
     (case locks p of
        Some l \<Rightarrow> if lk_token l = t then (StatusNoContent, locks(p := None)) else (StatusConflict, locks)
      | None \<Rightarrow> (StatusConflict, locks))"

lemma unlocked:
  assumes i: "ls_inv (lw_table (w_lk w))" and t: "trim_space (rq_header r ''Lock-Token'') = ''<'' @ t @ ''>''"
  shows "wp (serveUnlock h ws r name) w (\<lambda>resp w'.
    w_fs w' = w_fs w \<and> w_mu w' = w_mu w \<and> ls_inv (lw_table (w_lk w')) \<and>
    (rs_status resp, locks_at (w_lk w')) = unlock_spec name t (locks_at (w_lk w)))"
proof -
  let ?l = "w_lk w"
  obtain e tab where u: "unlock (lw_now ?l) name t (lw_table ?l) = (e, tab)" by fastforce
  have shape: "has_prefix (''<'' @ t @ ''>'') ''<''" "has_suffix (''<'' @ t @ ''>'') ''>''"
    "butlast (tl (''<'' @ t @ ''>'')) = t"
    by (auto simp: has_prefix_iff has_suffix_iff)
  have inv: "ls_inv tab" using unlock_inv [OF i, of "lw_now ?l" name t] by (simp add: u)
  have locks: "locks_at (?l\<lparr>lw_table := tab\<rparr>) = live (lw_now ?l) (held tab)" by (simp add: locks_at_def)
  have "rs_status (case e of Some e \<Rightarrow> writeLockError ws e | None \<Rightarrow> respond_with ws StatusNoContent []) =
      fst (unlock_spec name t (locks_at ?l)) \<and> live (lw_now ?l) (held tab) = snd (unlock_spec name t (locks_at ?l))"
    using unlock_cases [OF i, of "lw_now ?l" name t]
  proof (elim disjE exE conjE)
    fix l assume "live (lw_now ?l) (held (lw_table ?l)) name = Some l" "lk_token l = t"
      "fst (unlock (lw_now ?l) name t (lw_table ?l)) = None"
      "held (snd (unlock (lw_now ?l) name t (lw_table ?l))) = (live (lw_now ?l) (held (lw_table ?l)))(name := None)"
    moreover have "live n ((live n x)(p := None)) = (live n x)(p := None)" for n x and p :: path
      by (rule ext) (simp add: live_def split: option.splits)
    ultimately show ?thesis by (simp add: u unlock_spec_def locks_at_def)
  next
    assume "\<nexists>l. live (lw_now ?l) (held (lw_table ?l)) name = Some l \<and> lk_token l = t"
      "unlock (lw_now ?l) name t (lw_table ?l) = (Some ErrNoSuchLock, sweep (lw_now ?l) (lw_table ?l))"
    then show ?thesis using held_sweep [OF ls_inv_linked [OF i]]
      by (auto simp: u unlock_spec_def locks_at_def split: option.split)
  qed
  then show ?thesis
    using shape inv unfolding serveUnlock_def t Let_def
    by (cases e) (auto simp: wp_ls wp_Done lw_unlock_def u locks prod_eq_iff)
qed

section \<open>Properties\<close>

text \<open>
  C18. A \<open>LOCK\<close> for a new lock is answered as \<open>lock_spec\<close> says: 423 when a live lock meets its scope, 500
  when the table is full or no token can be drawn, else 200 or 201 with the fresh token in
  \<open>Lock-Token\<close> and exactly that lock added. A missing resource is created empty first, whatever the
  answer is: also a \<open>LOCK\<close> refused with 423 leaves the new file behind.
\<close>

theorem lock_locks:
  assumes "filesystem d fsinv view" and "h_fs h = d" and "accepted h r name" and "rq_method r = ''LOCK''"
    and "parseDepth (rq_header r ''Depth'') = Some dp" and "dp \<noteq> depthOne"
    and "parseLock h r = Some req" and "\<not> lr_refresh req"
    and "fsinv (w_fs w)" and "\<not> w_mu w" and "lw_ok (w_lk w)"
    and "view (w_fs w) name \<noteq> None \<or> view (w_fs w) (parentOf name) = Some DirNode"
  shows "wp (ServeHTTP h r) w (\<lambda>resp w'.
    fsinv (w_fs w') \<and> \<not> w_mu w' \<and> lw_ok (w_lk w') \<and> lw_now (w_lk w') = lw_now (w_lk w) \<and>
    view (w_fs w') = (if view (w_fs w) name = None then (view (w_fs w))(name \<mapsto> FileNode []) else view (w_fs w)) \<and>
    locked_as (lock_spec (w_lk w) name dp (lr_owner req) (parseTimeout (rq_header r ''Timeout''))
      (view (w_fs w) name = None)) resp w')"
  unfolding accepted_serves(6) [OF assms(3,4)]
  by (rule filesystem.locked [OF assms(1,2) accepted_canonical [OF assms(3)] assms(5-)])

lemma demo_parseLock:
  "parseLock (mem_handler opens demo_std n) (demo_request m p hs ''lockinfo'') =
     Some \<lparr>lr_refresh = False, lr_owner = []\<rparr>"
  by (simp add: parseLock_def xml_input_def mem_handler_def base_handler_def demo_request_def demo_std_def
      parse_lock_loop.simps maxPropfindBody_def davNS_def)

lemma demo_lock_free: "locks_at demo_lw = Map.empty"
  by (rule ext) (simp add: locks_at_def demo_lw_def live_def held_def empty_locks_def)

lemma demo_granted:
  "fst (lock_spec demo_lw p dp ow t created) = (if created then StatusCreated else StatusOK)"
proof -
  obtain b where "lw_rand demo_lw 0 = Inr b" by (simp add: demo_lw_def demo_random_def)
  then show ?thesis by (simp add: lock_spec_def demo_lock_free newToken_def maxLocks_def Let_def)
qed

lemma demo_locked_status:
  "locked_as (lock_spec demo_lw p dp ow t created) resp w \<Longrightarrow>
     rs_status resp = (if created then StatusCreated else StatusOK)"
  using demo_granted [of p dp ow t created] by (cases "lock_spec demo_lw p dp ow t created") (simp add: locked_as_def)

theorem lock_locks_witness:
  "wp (ServeHTTP (mem_handler False demo_std 5) (demo_request ''LOCK'' ''/d/b'' [] ''lockinfo'')) (demo_world demo_mem)
     (\<lambda>resp w'. rs_status resp = StatusCreated \<and> mem_view (w_fs w') ''/d/b'' = Some (FileNode []))"
proof -
  let ?h = "mem_handler False demo_std 5" and ?r = "demo_request ''LOCK'' ''/d/b'' [] ''lockinfo''"
  have p: "resource [] ''/d/b'' = Some ''/d/b''" "parentOf ''/d/b'' = ''/d''" "parseDepth [] = Some depthInfinity"
    by code_simp+
  have "wp (ServeHTTP ?h ?r) (demo_world demo_mem) (\<lambda>resp w'.
      mem_inv (w_fs w') \<and> \<not> w_mu w' \<and> lw_ok (w_lk w') \<and> lw_now (w_lk w') = lw_now demo_lw \<and>
      mem_view (w_fs w') = (mem_view demo_mem)(''/d/b'' \<mapsto> FileNode []) \<and>
      locked_as (lock_spec demo_lw ''/d/b'' depthInfinity [] (parseTimeout []) True) resp w')"
    using lock_locks [where d = "mem_driver False" and fsinv = mem_inv and view = mem_view and h = ?h and r = ?r
        and name = "''/d/b''" and dp = depthInfinity and req = "\<lparr>lr_refresh = False, lr_owner = []\<rparr>"
        and w = "demo_world demo_mem"]
      mem.filesystem_axioms [of False] demo_accepted [OF p(1), of False 5] demo_mem_inv demo_parseLock demo_lw_ok p(2,3)
    by (simp add: demo_view header_get_def depthOne_def depthInfinity_def)
  then show ?thesis
    by (rule wp_mono) (auto dest: demo_locked_status)
qed

text \<open>
  C20. \<open>UNLOCK\<close> takes away exactly the live lock held on that path under that token (204), and refuses
  any other token or path with 409, changing no live lock; the tree is not touched.
\<close>

theorem unlock_unlocks:
  assumes "accepted h r name" and "rq_method r = ''UNLOCK''"
    and "trim_space (rq_header r ''Lock-Token'') = ''<'' @ t @ ''>''" and "ls_inv (lw_table (w_lk w))"
  shows "wp (ServeHTTP h r) w (\<lambda>resp w'.
    w_fs w' = w_fs w \<and> w_mu w' = w_mu w \<and> ls_inv (lw_table (w_lk w')) \<and>
    (rs_status resp, locks_at (w_lk w')) = unlock_spec name t (locks_at (w_lk w)))"
  unfolding accepted_serves(7) [OF assms(1,2)] by (rule unlocked [OF assms(4,3)])

theorem unlock_unlocks_witness:
  "wp (ServeHTTP (mem_handler False demo_std 5) (demo_request ''UNLOCK'' ''/d'' [(''Lock-Token'', ''<x>'')] []))
     (demo_world demo_mem) (\<lambda>resp w'. rs_status resp = StatusConflict)"
proof -
  have p: "resource [] ''/d'' = Some ''/d''" by code_simp
  show ?thesis
    using unlock_unlocks [where t = "''x''" and w = "demo_world demo_mem",
        OF demo_accepted [OF p, of False 5 "''UNLOCK''" "[(''Lock-Token'', ''<x>'')]" "[]"]]
      trim_bracketed [of "''x''"]
    by (auto simp: header_get_def unlock_spec_def demo_lock_free wp_def)
qed

text \<open>
  C21. A round trip: the token that a granted \<open>LOCK\<close> hands out in \<open>Lock-Token\<close>, sent back as it is in an
  \<open>UNLOCK\<close> of the same path before the lock expires, is accepted, and the live locks are again
  what they were before.
\<close>

theorem lock_unlock_roundtrip:
  assumes "filesystem d fsinv view" and "h_fs h = d" and "accepted h r name" and "rq_method r = ''LOCK''"
    and "parseDepth (rq_header r ''Depth'') = Some dp" and "dp \<noteq> depthOne"
    and "parseLock h r = Some req" and "\<not> lr_refresh req" and "0 \<le> parseTimeout (rq_header r ''Timeout'')"
    and "fsinv (w_fs w)" and "\<not> w_mu w" and "lw_ok (w_lk w)"
    and "view (w_fs w) name \<noteq> None \<or> view (w_fs w) (parentOf name) = Some DirNode"
    and "run_proc (ServeHTTP h r) w = (Some resp, w1)" and "rs_status resp \<in> {StatusOK, StatusCreated}"
    and "accepted h r2 name" and "rq_method r2 = ''UNLOCK''"
    and "rq_header r2 ''Lock-Token'' = header_get (rs_headers resp) ''Lock-Token''"
  shows "wp (ServeHTTP h r2) w1 (\<lambda>resp2 w2. rs_status resp2 = StatusNoContent \<and> w_fs w2 = w_fs w1 \<and>
    locks_at (w_lk w2) = locks_at (w_lk w))"
proof -
  let ?t = "parseTimeout (rq_header r ''Timeout'')" and ?locks = "locks_at (w_lk w)"
  let ?spec = "lock_spec (w_lk w) name dp (lr_owner req) ?t (view (w_fs w) name = None)"
  have "wp (serveLock h (setDAV h []) r name) w (\<lambda>resp w'. lw_ok (w_lk w') \<and> locked_as ?spec resp w')"
    by (rule wp_mono [OF filesystem.locked [OF assms(1,2) accepted_canonical [OF assms(3)] assms(5-8,10-13)]])
       blast
  then have ok: "lw_ok (w_lk w1)" and spec: "locked_as ?spec resp w1"
    using assms(14) by (auto simp: wp_def accepted_serves(6) [OF assms(3,4)])
  obtain tok where free: "\<And>q k. ?locks q = Some k \<Longrightarrow> \<not> blocks name dp k"
    and l1: "locks_at (w_lk w1) = live (lw_now (w_lk w))
      (?locks(name \<mapsto> new_lock (lw_now (w_lk w)) tok name dp (lr_owner req) ?t))"
    and hdr: "header_get (rs_headers resp) ''Lock-Token'' = ''<'' @ tok @ ''>''"
    using spec assms(15)
    by (auto simp: locked_as_def lock_spec_def Let_def status_defs split: if_splits sum.splits)
  have inv: "ls_inv (lw_table (w_lk w))" using assms(12) by (simp add: lw_ok_def)
  have "?locks name = None"
  proof (cases "?locks name")
    case (Some k)
    then have "lk_path k = name"
      using exclusiveD(2) [OF ls_inv_exclusive [OF inv]] by (auto simp: locks_at_def live_Some)
    then show ?thesis using free [OF Some] by (simp add: blocks_def)
  qed
  then have "unlock_spec name tok (locks_at (w_lk w1)) = (StatusNoContent, ?locks)"
    using assms(9) unfolding l1
    by (auto simp: unlock_spec_def live_def expired_def new_lock_def locks_at_def fun_eq_iff split: option.splits)
  moreover have "trim_space (rq_header r2 ''Lock-Token'') = ''<'' @ tok @ ''>''"
    using assms(18) hdr trim_bracketed [of tok] by simp
  ultimately show ?thesis
    using unlocked [of w1 r2 tok h "setDAV h []" name] ok
    by (auto simp: accepted_serves(7) [OF assms(16,17)] lw_ok_def wp_def)
qed

theorem lock_unlock_roundtrip_witness:
  "\<exists>resp w1. run_proc (ServeHTTP (mem_handler False demo_std 5) (demo_request ''LOCK'' ''/d/a'' [] ''lockinfo''))
       (demo_world demo_mem) = (Some resp, w1) \<and>
     wp (ServeHTTP (mem_handler False demo_std 5) (demo_request ''UNLOCK'' ''/d/a''
         [(''Lock-Token'', header_get (rs_headers resp) ''Lock-Token'')] [])) w1
       (\<lambda>resp2 w2. rs_status resp2 = StatusNoContent \<and> w_fs w2 = w_fs w1 \<and> locks_at (w_lk w2) = Map.empty)"
proof -
  let ?h = "mem_handler False demo_std 5" and ?r = "demo_request ''LOCK'' ''/d/a'' [] ''lockinfo''"
  let ?r2 = "\<lambda>resp. demo_request ''UNLOCK'' ''/d/a'' [(''Lock-Token'', header_get (rs_headers resp) ''Lock-Token'')] []"
  have p: "resource [] ''/d/a'' = Some ''/d/a''" "canonical ''/d/a''" "parseDepth [] = Some depthInfinity"
    "0 \<le> parseTimeout []" by code_simp+
  note acc = demo_accepted [OF p(1), of False 5]
  have "wp (serveLock ?h (setDAV ?h []) ?r ''/d/a'') (demo_world demo_mem) (\<lambda>resp w'. rs_status resp = StatusOK)"
    by (rule wp_mono [OF mem.locked [where h = ?h and r = ?r and name = "''/d/a''" and dp = depthInfinity
          and req = "\<lparr>lr_refresh = False, lr_owner = []\<rparr>" and w = "demo_world demo_mem"]])
       (use p demo_mem_inv demo_parseLock demo_lw_ok
         in \<open>auto simp: demo_view header_get_def depthOne_def depthInfinity_def dest: demo_locked_status\<close>)
  then obtain resp w1 where run: "run_proc (ServeHTTP ?h ?r) (demo_world demo_mem) = (Some resp, w1)"
    and ok: "rs_status resp = StatusOK"
    using accepted_serves(6) [OF acc [of "''LOCK''" "[]" "''lockinfo''"]] by (auto simp: wp_def)
  have "wp (ServeHTTP ?h (?r2 resp)) w1
      (\<lambda>resp2 w2. rs_status resp2 = StatusNoContent \<and> w_fs w2 = w_fs w1 \<and> locks_at (w_lk w2) = locks_at demo_lw)"
    using lock_unlock_roundtrip [where d = "mem_driver False" and fsinv = mem_inv and view = mem_view and h = ?h
        and r = ?r and name = "''/d/a''" and dp = depthInfinity and req = "\<lparr>lr_refresh = False, lr_owner = []\<rparr>"
        and w = "demo_world demo_mem" and resp = resp and ?w1.0 = w1 and ?r2.0 = "?r2 resp"]
      mem.filesystem_axioms [of False] acc demo_mem_inv demo_parseLock demo_lw_ok p run ok
    by (simp add: demo_view header_get_def depthOne_def depthInfinity_def)
  then show ?thesis using run unfolding demo_lock_free by blast
qed

section \<open>Refreshing\<close>

text \<open>
  A \<open>LOCK\<close> without a body renews the live lock on that very path whose token is submitted: its
  timeout and its expiry, nothing else of it, and no other lock.
\<close>

definition renewed :: "int \<Rightarrow> nanos \<Rightarrow> lockInfo \<Rightarrow> lockInfo" where
  "renewed now t l = l\<lparr>lk_timeout := t, lk_expiry := now + t\<rparr>"

definition refresh_spec ::
  "int \<Rightarrow> path \<Rightarrow> token list \<Rightarrow> nanos \<Rightarrow> (path \<Rightarrow> lockInfo option) \<Rightarrow> nat \<times> (path \<Rightarrow> lockInfo option) \<times> token option" where
  "refresh_spec now p tokens t locks =
     (case locks p of
        None \<Rightarrow> (StatusPreconditionFailed, locks, None)
      | Some l \<Rightarrow>
          if lk_token l \<in> set tokens
          then (StatusOK, live now (locks(p \<mapsto> renewed now t l)), Some (lk_token l))
          else (StatusPreconditionFailed, locks, None))"

lemma refreshed:
  assumes inv: "ls_inv (lw_table (w_lk w))" and dp: "parseDepth (rq_header r ''Depth'') = Some dp" "dp \<noteq> depthOne"
    and req: "parseLock h r = Some req" "lr_refresh req"
  shows "wp (serveLock h ws r name) w (\<lambda>resp w'. w_fs w' = w_fs w \<and> w_mu w' = w_mu w \<and> ls_inv (lw_table (w_lk w')) \<and>
    locked_as (refresh_spec (lw_now (w_lk w)) name (submittedTokens (rq_header r ''If''))
      (parseTimeout (rq_header r ''Timeout'')) (locks_at (w_lk w))) resp w')"
proof -
  let ?l = "w_lk w" and ?ts = "submittedTokens (rq_header r ''If'')" and ?t = "parseTimeout (rq_header r ''Timeout'')"
  note run = serveLock_def [of h ws r name] dp(1) req(1) if_not_P [OF dp(2)] Let_def if_P [OF req(2)] option.case
  show ?thesis
  proof (cases rule: refresh_cases [OF inv, of "lw_now ?l" name ?ts ?t])
    case 1
    have "locks_at (?l\<lparr>lw_table := sweep (lw_now ?l) (lw_table ?l)\<rparr>) = locks_at ?l"
      by (rule locks_at_sweep [OF inv])
    then show ?thesis unfolding run using 1 ls_inv_sweep [OF inv]
      by (auto simp: wp_ls wp_Done lw_refresh_def locked_as_def refresh_spec_def locks_at_def split: option.split)
  next
    case (2 k l tab)
    then have "locks_at ?l name = Some l" by (simp add: locks_at_def)
    then show ?thesis unfolding run using 2
      by (auto simp: wp_ls wp_Done lw_refresh_def lw_read_def writeLockResponse_def lock_response_def respond_with_def
          locked_as_def refresh_spec_def renewed_def locks_at_def)
  qed
qed

text \<open>
  C19. A \<open>LOCK\<close> without a body is answered as \<open>refresh_spec\<close> says: 200 with the token of the lock it
  renewed, or 412 with every live lock as it was when no live lock on that path was submitted. The
  tree is not touched.
\<close>

theorem lock_refreshes:
  assumes "accepted h r name" and "rq_method r = ''LOCK''"
    and "parseDepth (rq_header r ''Depth'') = Some dp" and "dp \<noteq> depthOne"
    and "parseLock h r = Some req" and "lr_refresh req" and "ls_inv (lw_table (w_lk w))"
  shows "wp (ServeHTTP h r) w (\<lambda>resp w'. w_fs w' = w_fs w \<and> w_mu w' = w_mu w \<and> ls_inv (lw_table (w_lk w')) \<and>
    locked_as (refresh_spec (lw_now (w_lk w)) name (submittedTokens (rq_header r ''If''))
      (parseTimeout (rq_header r ''Timeout'')) (locks_at (w_lk w))) resp w')"
  unfolding accepted_serves(6) [OF assms(1,2)] by (rule refreshed [OF assms(7,3-6)])

definition bodyless_handler :: "(memFS, nat) handler" where
  "bodyless_handler = mem_handler False (demo_std\<lparr>std_xml := \<lambda>b e. ([], e)\<rparr>) 5"

definition demo_locked :: lockSystem where
  "demo_locked = snd (create 0 (Inr ''x'') ''/d'' depthInfinity [] second empty_locks)"

definition demo_token :: token where "demo_token = ''opaquelocktoken:78''"

lemma demo_locked_at:
  "map_option lk_token (live 1 (held demo_locked) ''/d'') = Some demo_token"
  "submittedTokens (''(<'' @ demo_token @ ''>)'') = [demo_token]"
  by code_simp+

theorem lock_refreshes_witness:
  "wp (ServeHTTP bodyless_handler (demo_request ''LOCK'' ''/d'' [(''If'', ''(<'' @ demo_token @ ''>)'')] []))
     (demo_world demo_mem\<lparr>w_lk := demo_lw\<lparr>lw_table := demo_locked, lw_now := 1\<rparr>\<rparr>)
     (\<lambda>resp w'. rs_status resp = StatusOK)"
proof -
  let ?r = "demo_request ''LOCK'' ''/d'' [(''If'', ''(<'' @ demo_token @ ''>)'')] []"
  let ?w = "demo_world demo_mem\<lparr>w_lk := demo_lw\<lparr>lw_table := demo_locked, lw_now := 1\<rparr>\<rparr>"
  have p: "resource [] ''/d'' = Some ''/d''" "parseDepth [] = Some depthInfinity" "canonical ''/d''"
    "depthInfinity \<noteq> depthOne" "submittedTokens [] = []" by code_simp+
  have req: "parseLock bodyless_handler ?r = Some \<lparr>lr_refresh = True, lr_owner = []\<rparr>"
    by (simp add: parseLock_def xml_input_def bodyless_handler_def mem_handler_def base_handler_def demo_request_def
        parse_lock_loop.simps maxPropfindBody_def)
  have acc: "accepted bodyless_handler ?r ''/d''"
    using p(1) by (simp add: accepted_def bodyless_handler_def mem_handler_def base_handler_def authorise_def demo_request_def)
  have inv: "ls_inv demo_locked"
    unfolding demo_locked_def
    by (rule create_inv [OF ls_inv_empty p(3)]) (simp_all add: fresh_rnd_def empty_locks_def newToken_def)
  obtain l where l: "live 1 (held demo_locked) ''/d'' = Some l" "lk_token l = demo_token"
    using demo_locked_at(1) by auto
  have "wp (ServeHTTP bodyless_handler ?r) ?w (\<lambda>resp w'. locked_as (refresh_spec 1 ''/d'' [demo_token]
      (parseTimeout []) (live 1 (held demo_locked))) resp w')"
    by (rule wp_mono [OF lock_refreshes [OF acc _ _ _ req, of depthInfinity ?w]])
      (use p(2,4) inv demo_locked_at(2) in \<open>simp_all add: header_get_def locks_at_def demo_lw_def\<close>)
  then show ?thesis
    by (rule wp_mono) (simp add: refresh_spec_def l locked_as_def)
qed

end
