(* ===== verification/Answers.thy ===== *)
theory Answers
  imports WriteSpecs
begin

text \<open>
  Termination of a request that runs alone. A program without a dead end (\<open>straight\<close>) always runs to
  an answer; the programs of \<open>DELETE\<close>, \<open>MOVE\<close> and \<open>COPY\<close> have one dead end, a recursion deeper
  than the fuel, and the driver's laws show that it is not reached.
\<close>

section \<open>Programs without a dead end\<close>

primrec straight :: "'s proc \<Rightarrow> bool \<Rightarrow> bool" where
  "straight (Done r) has \<longleftrightarrow> \<not> has"
| "straight Diverge has \<longleftrightarrow> False"
| "straight (Lock p) has \<longleftrightarrow> \<not> has \<and> straight p True"
| "straight (Unlock p) has \<longleftrightarrow> straight p False"
| "straight (Fs m) has \<longleftrightarrow> (\<forall>f \<in> set_state (map_state straight m). f has)"
| "straight (Ls m) has \<longleftrightarrow> (\<forall>f \<in> set_state (map_state straight m). f has)"
| "straight (Call m) has \<longleftrightarrow> (\<forall>f \<in> set_state (map_state straight m). f has)"

lemma straight_Fs [simp]: "straight (Fs m) has \<longleftrightarrow> all_results (\<lambda>p. straight p has) m"
  and straight_Ls [simp]: "straight (Ls l) has \<longleftrightarrow> all_results (\<lambda>p. straight p has) l"
  and straight_Call [simp]: "straight (Call m) has \<longleftrightarrow> all_results (\<lambda>p. straight p has) m"
  by (simp_all add: set_state_all)

declare straight.simps(5-7) [simp del]

abbreviation answers_from :: "'s proc \<Rightarrow> 's world \<Rightarrow> bool" where
  "answers_from p w \<equiv> wp p w (\<lambda>_ w'. \<not> w_mu w')"

lemma straight_answers: "straight p (w_mu w) \<Longrightarrow> answers_from p w"
proof (induction p arbitrary: w)
  case (Fs m)
  obtain p s where m: "run_state m (w_fs w) = (p, s)" by fastforce
  then have "p \<in> set_state m" by (auto simp: set_state_iff)
  moreover have "straight p (w_mu w)" using Fs.prems satD [OF _ _ m, of "\<lambda>_. True" "\<lambda>p. straight p (w_mu w)"] by simp
  ultimately show ?case using Fs.IH [of p "w\<lparr>w_fs := s\<rparr>"] m by (simp add: wp_def run_Fs)
next
  case (Ls m)
  obtain p l where m: "run_state m (w_lk w) = (p, l)" by fastforce
  then have "p \<in> set_state m" by (auto simp: set_state_iff)
  moreover have "straight p (w_mu w)" using Ls.prems satD [OF _ _ m, of "\<lambda>_. True" "\<lambda>p. straight p (w_mu w)"] by simp
  ultimately show ?case using Ls.IH [of p "w\<lparr>w_lk := l\<rparr>"] m by (simp add: wp_def run_Ls)
next
  case (Call m)
  obtain p s where m: "run_state m (w_fs w) = (p, s)" by fastforce
  then have "p \<in> set_state m" by (auto simp: set_state_iff)
  moreover have "straight p (w_mu w)" using Call.prems satD [OF _ _ m, of "\<lambda>_. True" "\<lambda>p. straight p (w_mu w)"] by simp
  ultimately show ?case using Call.IH [of p "w\<lparr>w_fs := s\<rparr>"] m by (simp add: wp_def run_Call)
qed (auto simp: wp_simps)

lemma straight_fs: "(\<And>x. straight (k x) has) \<Longrightarrow> straight (fs_call m k) has"
  and straight_ls: "(\<And>x. straight (k' x) has) \<Longrightarrow> straight (ls_call l k') has"
  and straight_cap: "(\<And>x. straight (k x) has) \<Longrightarrow> straight (cap_call m k) has"
  by (simp_all add: fs_call_def ls_call_def cap_call_def sat_map all_results_True)

named_theorems straights "rules for programs without a dead end"

lemmas [straights] = straight_fs straight_ls straight_cap

lemma straight_checkLocks [straights]: "(\<And>x. straight (k x) has) \<Longrightarrow> straight (checkLocks r p k) has"
  unfolding checkLocks_def by (rule straight_ls)

lemma straight_discoveryXML [straights]: "(\<And>x. straight (k x) has) \<Longrightarrow> straight (discoveryXML h p k) has"
  unfolding discoveryXML_def by (auto intro!: straights split: option.split)

lemma straight_space [straights]: "(\<And>x. straight (k x) has) \<Longrightarrow> straight (space h k) has"
  unfolding space_def by (auto intro!: straights split: option.split)

lemma straight_propNames [straights]: "(\<And>x. straight (k x) has) \<Longrightarrow> straight (propNames h i k) has"
  unfolding propNames_def by (auto intro!: straights)

lemma straight_propValue [straights]: "(\<And>x. straight (k x) has) \<Longrightarrow> straight (propValue h i n k) has"
  unfolding propValue_def Let_def by (auto intro!: straights)

lemma straight_all_props_loop [straights]:
  "(\<And>x. straight (k x) has) \<Longrightarrow> straight (all_props_loop h i ns k) has"
  by (induction ns arbitrary: k) (auto intro!: straights)

lemma straight_namedProps [straights]: "(\<And>x. straight (k x) has) \<Longrightarrow> straight (namedProps h i ns k) has"
  by (induction ns arbitrary: k) (auto intro!: straights split: option.split)

lemma straight_respond [straights]: "(\<And>x. straight (k x) has) \<Longrightarrow> straight (respond h i req k) has"
  unfolding respond_def Let_def allProps_def by (auto intro!: straights)

lemma straight_member_rows [straights]:
  "(\<And>x. straight (k x) has) \<Longrightarrow> straight (member_rows h name req ns k) has"
  by (induction ns arbitrary: k) (auto intro!: straights split: sum.split)

lemma straight_servePropfind: "straight (servePropfind h w r name) False"
  unfolding servePropfind_def by (auto intro!: straights split: option.split sum.split)

lemma straight_serveProppatch: "straight (serveProppatch h w r name) False"
  unfolding serveProppatch_def by (auto intro!: straights split: option.split sum.split)

lemma straight_closeFile [straights]: "straight k False \<Longrightarrow> straight (closeFile h f k) False"
  unfolding closeFile_def by (auto intro!: straights)

lemma straight_servePutRange [straights]: "straight (servePutRange h w r name cr) False"
  unfolding servePutRange_def putRange_body_def putRange_write_def Let_def
  by (auto intro!: straights split: sum.split writable_error.split read_error.split option.split)

lemma straight_servePut: "straight (servePut h w r name) False"
  unfolding servePut_def put_write_def
  by (auto intro!: straights split: option.split sum.split read_error.split)

lemma straight_serveMkcol: "straight (serveMkcol h w r name) False"
  unfolding serveMkcol_def by (auto intro!: straights split: option.split sum.split)

lemma straight_serveLock: "straight (serveLock h w r name) False"
  unfolding serveLock_def lock_create_def writeLockResponse_def Let_def
  by (auto intro!: straights split: option.split sum.split)

lemma straight_serveUnlock: "straight (serveUnlock h w r name) False"
  unfolding serveUnlock_def Let_def by (auto intro!: straights split: option.split)

lemma straight_serveIndex [straights]: "straight (serveIndex h w r name) True"
  unfolding serveIndex_def by (auto simp: Let_def intro!: straights split: sum.split)


lemma straight_reads:
  assumes "\<And>off n k. (\<And>x. straight (k x) False) \<Longrightarrow> straight (rd off n k) False" and "\<And>resp. straight (fin resp) False"
  shows "straight (serve_reads rd fin io) False"
  by (induction io) (auto intro!: assms)

lemma straight_serveGet: "straight (serveGet h w r name) False"
  unfolding serveGet_def serve_content_def Let_def close_after_def
  by (auto simp: memory_read_def locked_read_def host_read_def intro!: straights straight_reads
      split: sum.split content.split)

section \<open>Every request is answered\<close>

lemma returns_checkLocks:
  assumes "\<And>x w'. w_fs w' = w_fs w \<Longrightarrow> w_mu w' = w_mu w \<Longrightarrow> answers_from (k x) w'"
  shows "answers_from (checkLocks r p k) w"
  using assms by (auto simp: checkLocks_def wp_def run_simps split: prod.splits)

lemma answers_release:
  assumes "\<And>w'. w_fs w' = w_fs w \<Longrightarrow> w_mu w' = w_mu w \<Longrightarrow> answers_from (k ()) w'"
  shows "answers_from (ls_call (lw_release p) k) w"
  using assms by (auto simp: wp_def run_simps split: prod.splits)

lemma answers_Rename:
  assumes "\<And>x w'. w_mu w' = w_mu w \<Longrightarrow> answers_from (k x) w'"
  shows "answers_from (fs_call (drv_Rename d p q) k) w"
  using assms by (auto simp: wp_fs split: prod.splits)

context filesystem
begin

lemma answers_delete:
  assumes h: "h_fs h = d" and "canonical name" and "fsinv (w_fs w)" and "\<not> w_mu w"
    and "fits (h_fuel h) name (view (w_fs w))"
  shows "answers_from (serveDelete h ws r name) w"
proof (cases "view (w_fs w) name")
  case None
  then show ?thesis
    using assms unfolding serveDelete_def
    by (auto simp: wp_simps told_None intro!: returns_checkLocks wp_info [OF h] split: option.split)
next
  case (Some nd)
  then show ?thesis
    using assms unfolding serveDelete_def
    by (auto simp: wp_simps told_Some intro!: returns_checkLocks wp_info [OF h] wp_remove [OF h, where p = name]
        answers_release split: option.split)
qed

lemma answers_prepare:
  assumes h: "h_fs h = d" and c: "canonical dst" and s: "fsinv (w_fs w)" "w_mu w"
    and f: "fits (h_fuel h) dst (view (w_fs w))"
    and granted: "\<And>code w'. dst \<noteq> src \<Longrightarrow> \<not> strictlyUnder src dst \<Longrightarrow> fsinv (w_fs w') \<Longrightarrow> w_mu w' \<Longrightarrow>
      view (w_fs w') = cut_tree dst (view (w_fs w)) \<Longrightarrow> view (w_fs w') (parentOf dst) = Some DirNode \<Longrightarrow>
      answers_from (k code) w'"
  shows "answers_from (prepareDestination h ws r src dst k) w"
proof -
  note p = canonical_parentOf [OF c]
  have absent: "cut_tree dst (view (w_fs w)) = view (w_fs w)" if "view (w_fs w) dst = None"
    using absent_below [OF view_ok [OF s(1)] that c] by (auto simp: cut_tree_def fun_eq_iff)
  consider (refused) "dst = src \<or> dst = ''/'' \<or> strictlyUnder src dst \<or> overwrite (rq_header r ''Overwrite'') = None"
    | (orphan) o' where "dst \<noteq> src" "dst \<noteq> ''/''" "\<not> strictlyUnder src dst" "overwrite (rq_header r ''Overwrite'') = Some o'"
        "view (w_fs w) (parentOf dst) \<noteq> Some DirNode"
    | (free) o' where "dst \<noteq> src" "dst \<noteq> ''/''" "\<not> strictlyUnder src dst" "overwrite (rq_header r ''Overwrite'') = Some o'"
        "view (w_fs w) (parentOf dst) = Some DirNode" "view (w_fs w) dst = None"
    | (taken) o' nd where "dst \<noteq> src" "dst \<noteq> ''/''" "\<not> strictlyUnder src dst" "overwrite (rq_header r ''Overwrite'') = Some o'"
        "view (w_fs w) (parentOf dst) = Some DirNode" "view (w_fs w) dst = Some nd"
    by (metis not_Some_eq)
  then show ?thesis
  proof cases
    case refused
    then show ?thesis by (auto simp: prepareDestination_def wp_simps)
  next
    case orphan
    then show ?thesis using s p
      by (auto simp: prepareDestination_def wp_simps told_def intro!: wp_info [OF h] split: option.splits)
  next
    case free
    then show ?thesis
      using granted s p c absent
      by (auto simp: prepareDestination_def wp_simps told_None told_Some intro!: wp_info [OF h])
  next
    case taken
    then show ?thesis
      using granted s p c f cut_parent [OF c taken(2)]
      by (auto simp: prepareDestination_def wp_simps told_Some
          intro!: wp_info [OF h] wp_remove [OF h, where p = dst] answers_release)
  qed
qed

lemma answers_move:
  assumes h: "h_fs h = d" and "canonical name" and dst: "destination h r = Inr dst" "canonical dst"
    and "fsinv (w_fs w)" "\<not> w_mu w" and "fits (h_fuel h) dst (view (w_fs w))"
  shows "answers_from (serveMove h ws r name) w"
  unfolding serveMove_def dst(1)
  using assms
  by (auto simp: wp_simps intro!: returns_checkLocks wp_info [OF h] answers_prepare [OF h] answers_Rename answers_release
      split: option.split sum.split)

end

context precise
begin

lemma answers_copy:
  assumes h: "h_fs h = d" and files: "copies_files fsinv view h" and name: "canonical name"
    and dst: "destination h r = Inr dst" "canonical dst" and s: "fsinv (w_fs w)" "\<not> w_mu w"
    and f: "fits (h_fuel h) dst (view (w_fs w))" "fits (h_fuel h) name (view (w_fs w))"
  shows "answers_from (serveCopy h ws r name) w"
proof -
  let ?v = "view (w_fs w)"
  have copy: "answers_from (fs_call (copyTree (h_fuel h) h i dst deep) (\<lambda>res. case res of
        None \<Rightarrow> Diverge
      | Some failures \<Rightarrow> if failures \<noteq> [] then Unlock (Done (e failures)) else Unlock (Done y))) w'"
    if i: "told (?v name) name (Inr i)" and g: "dst \<noteq> name" "\<not> strictlyUnder name dst" and w': "fsinv (w_fs w')"
      "view (w_fs w') = cut_tree dst ?v" "view (w_fs w') (parentOf dst) = Some DirNode"
    for i w' deep e y
  proof (cases "strictlyUnder dst name")
    case True
    have there: "?v name \<noteq> None" and p: "ri_path i = name" using i by (auto simp: told_def split: option.splits)
    note a = above_source [OF True view_ok [OF s(1)] there dst(2)]
    have "h_fuel h \<noteq> 0" using f(2) there by (auto simp: fits_def intro!: notI)
    then show ?thesis
      using a g(1) w' name dst(2) p by (intro wp_copy_absent [OF h w'(1)]) (auto simp: wp_simps cut_tree_def)
  next
    case False
    show ?thesis
    proof (rule wp_copy [OF h files w'(1), where p = name and q = dst])
      show "apart name dst" using g False by (auto simp: apart_def strictlyUnder_def)
      show "told (view (w_fs w') name) name (Inr i)" "view (w_fs w') dst = None"
        using i g False w'(2) dst(2) by (auto simp: cut_tree_def strictlyUnder_def under_refl)
      show "fits (h_fuel h) name (view (w_fs w'))"
        by (rule fits_submap [OF f(2)]) (simp add: w'(2) cut_tree_def split: if_splits)
    qed (use w' dst(2) in \<open>simp_all add: wp_simps\<close>)
  qed
  show ?thesis
    unfolding serveCopy_def dst(1)
    using assms copy
    by (auto simp: wp_simps intro!: returns_checkLocks wp_info [OF h] answers_prepare [OF h]
        split: option.split sum.split)
qed

end

lemma fits_root:
  assumes "fits n ''/'' v"
  shows "fits n p v"
proof -
  have "comps ''/'' = []" by code_simp
  then show ?thesis using assms by (auto simp: fits_def under_def intro: trans_less_add2)
qed

text \<open>
  C17. Every request is answered: alone with a driver that obeys the laws and a tree no deeper than
  the recursion may go, any request at all, well-formed or not, runs to an answer and leaves
  \<open>fsmu\<close> free; a \<open>COPY\<close> onto an ancestor of its source, which walks what it has just removed, too.
\<close>

theorem every_request_is_answered:
  assumes "precise d fsinv view" and "h_fs h = d" and "copies_files fsinv view h"
    and "fsinv (w_fs w)" and "\<not> w_mu w" and "fits (h_fuel h) ''/'' (view (w_fs w))"
  shows "\<exists>resp w'. run_proc (ServeHTTP h r) w = (Some resp, w') \<and> \<not> w_mu w'"
proof -
  note fs = precise.axioms(1) [OF assms(1)]
  have f: "fits (h_fuel h) p (view (w_fs w))" for p
    by (rule fits_root [OF assms(6)])
  have "answers_from (dispatch h ws r name) w" if name: "resource (h_prefix h) (rq_path r) = Some name" for ws name
  proof -
    have c: "canonical name" using resource_SomeD(1) [OF name] .
    have "answers_from (mutate h ws r name serveDelete) w"
      using filesystem.answers_delete [OF fs assms(2) c assms(4,5) f] assms(5) by (simp add: mutate_def wp_simps)
    moreover have "answers_from (mutate h ws r name serveMove) w"
    proof (cases "destination h r")
      case (Inr dst)
      then show ?thesis
        using filesystem.answers_move [OF fs assms(2) c Inr canonical_destination [OF Inr] assms(4,5) f] assms(5)
        by (simp add: mutate_def wp_simps)
    qed (use assms(5) in \<open>simp add: mutate_def serveMove_def wp_simps\<close>)
    moreover have "answers_from (mutate h ws r name serveCopy) w"
    proof (cases "destination h r")
      case (Inr dst)
      then show ?thesis
        using precise.answers_copy [OF assms(1-3) c Inr canonical_destination [OF Inr] assms(4,5) f f] assms(5)
        by (simp add: mutate_def wp_simps)
    qed (use assms(5) in \<open>simp add: mutate_def serveCopy_def wp_simps\<close>)
    moreover have "straight (serveGet h ws r name) False" "straight (servePropfind h ws r name) False"
      "straight (mutate h ws r name servePut) False" "straight (mutate h ws r name serveMkcol) False"
      "straight (mutate h ws r name serveProppatch) False" "straight (mutate h ws r name serveLock) False"
      "straight (mutate h ws r name serveUnlock) False"
      by (simp_all add: mutate_def straight_serveGet straight_servePropfind straight_servePut straight_serveMkcol
          straight_serveProppatch straight_serveLock straight_serveUnlock)
    ultimately show ?thesis
      using assms(5) by (auto simp: dispatch_def Let_def wp_simps intro!: straight_answers)
  qed
  then have "answers_from (ServeHTTP h r) w"
    using assms(5) by (auto simp: ServeHTTP_def wp_simps split: option.split)
  then show ?thesis by (auto simp: wp_def)
qed


theorem every_request_is_answered_witness:
  "\<exists>resp w'. run_proc (ServeHTTP (mem_handler True demo_std 5)
      (demo_request ''COPY'' ''/d/a'' [(''Destination'', ''/d'')] [])) (demo_world demo_mem) = (Some resp, w') \<and> \<not> w_mu w'"
proof -
  have files: "copies_files mem_inv mem_view (mem_handler True demo_std 5)"
    by (rule mem_files.copies_opened) simp
  show ?thesis
    using every_request_is_answered [where d = "mem_driver True" and h = "mem_handler True demo_std 5" and fsinv = mem_inv
        and view = mem_view and w = "demo_world demo_mem" and r = "demo_request ''COPY'' ''/d/a'' [(''Destination'', ''/d'')] []"]
      mem_precise.precise_axioms [of True] files demo_mem_inv demo_fits by simp
qed

end
