(* ===== verification/Recursion.thy ===== *)
theory Recursion
  imports Answers
begin

text \<open>
  The walks of \<open>DELETE\<close>, \<open>MOVE\<close> and \<open>COPY\<close> end without any law on what the driver's calls do, when its
  directories nest less deep than the recursion may go: whatever state they find it in, and however
  other requests change it in between.
\<close>

section \<open>Drivers whose directories nest no deeper\<close>

text \<open>
  Whatever state it is in, the driver lists names, not paths, and reports no directory at a path of \<open>n\<close>
  or more components, as a file system with a limit on the length of a path does.
\<close>

definition no_directory :: "go_error + fstat option \<Rightarrow> bool" where
  "no_directory r \<longleftrightarrow> (\<forall>st. r = Inr (Some st) \<longrightarrow> st_mode st AND sIFMT \<noteq> sIFDIR)"

definition nests_below :: "('s, 'f) driver \<Rightarrow> nat \<Rightarrow> bool" where
  "nests_below d n \<longleftrightarrow>
     (\<forall>p. canonical p \<longrightarrow> all_results good_listing (drv_ListDir d p)) \<and>
     (\<forall>p. canonical p \<and> n \<le> length (comps p) \<longrightarrow> all_results no_directory (drv_Stat d p))"

definition shallow :: "('s, 'f) handler \<Rightarrow> bool" where
  "shallow h \<longleftrightarrow> (\<exists>n. 0 < n \<and> n < h_fuel h \<and> nests_below (h_fs h) n)"

text \<open>What \<open>info\<close> then says of a path, and the fuel that is enough for the tree there.\<close>

definition told_shallow :: "nat \<Rightarrow> path \<Rightarrow> go_error + resourceInfo \<Rightarrow> bool" where
  "told_shallow n p ri \<longleftrightarrow> (\<forall>i. ri = Inr i \<longrightarrow> ri_path i = p \<and> (ri_isDir i \<longrightarrow> length (comps p) < n))"

definition enough :: "nat \<Rightarrow> nat \<Rightarrow> resourceInfo \<Rightarrow> bool" where
  "enough n m i \<longleftrightarrow> canonical (ri_path i) \<and> 0 < m \<and>
     (ri_isDir i \<longrightarrow> length (comps (ri_path i)) < n \<and> n < m + length (comps (ri_path i)))"

abbreviation returns :: "('s, 'a option) state \<Rightarrow> bool" where
  "returns m \<equiv> all_results (\<lambda>x. x \<noteq> None) m"

lemma info_shallow:
  assumes "nests_below (h_fs h) n" and "0 < n" and "canonical p"
  shows "all_results (told_shallow n p) (info h p)"
proof (cases "n \<le> length (comps p)")
  case True
  then have "p \<noteq> ''/''" using assms(2) comps_eq_Nil [OF assms(3)] by auto
  moreover have "all_results no_directory (drv_Stat (h_fs h) p)" using assms(1,3) True by (simp add: nests_below_def)
  ultimately show ?thesis
    by (auto simp: sat_def run_info told_shallow_def no_directory_def infoFromStat_isDir split: prod.splits sum.splits option.splits)
next
  case False
  then show ?thesis by (auto simp: sat_def run_info told_shallow_def split: prod.splits sum.splits option.splits)
qed

lemma enough_member:
  assumes "enough n (Suc m) i" and "ri_isDir i" and "good_comp nm" and "told_shallow n (join (ri_path i) nm) (Inr c)"
  shows "enough n m c"
  using assms canonical_join [of "ri_path i" nm] comps_join [of "ri_path i" nm]
  by (auto simp: enough_def told_shallow_def)

lemma returns_each_member:
  assumes "\<And>e. e \<in> set es \<Longrightarrow> \<not> dot e \<Longrightarrow> returns (f e)"
  shows "returns (each_member f es)"
  using assms
proof (induction es)
  case (Cons e es)
  show ?case
  proof (cases "dot e")
    case True
    then show ?thesis using Cons by (simp add: dot_def)
  next
    case False
    have "returns (f e)" using Cons.prems False by simp
    moreover have "returns (each_member f es)" using Cons.IH Cons.prems by simp
    ultimately show ?thesis
      using False by (auto simp: dot_def intro!: sat_return elim!: sat_bind split: option.split)
  qed
qed (simp add: sat_return)

lemma returns_listing:
  assumes "nests_below d n" and "canonical p" and "\<And>e. returns (k (Inl e))"
    and "\<And>ns. (\<And>nm. nm \<in> set ns \<Longrightarrow> \<not> dot nm \<Longrightarrow> good_comp nm) \<Longrightarrow> returns (k (Inr ns))"
  shows "returns (State_Monad.bind (drv_ListDir d p) k)"
proof (rule sat_bind)
  show "all_results good_listing (drv_ListDir d p)" using assms(1,2) by (simp add: nests_below_def)
  fix l assume "good_listing l"
  then show "returns (k l)"
    using assms(3,4) by (cases l) (auto simp: good_listing_def dot_def)
qed

lemma returns_member:
  assumes "nests_below (h_fs h) n" and "0 < n" and "enough n (Suc m) i" and "ri_isDir i" and "good_comp nm"
    and "\<And>c. enough n m c \<Longrightarrow> returns (k c)"
  shows "returns (do {
    child \<leftarrow> info h (join (ri_path i) nm);
    case child of Inl err \<Rightarrow> State_Monad.return (Some (e err)) | Inr c \<Rightarrow> k c })"
proof (rule sat_bind)
  have "canonical (ri_path i)" using assms(3) by (simp add: enough_def)
  then show "all_results (told_shallow n (join (ri_path i) nm)) (info h (join (ri_path i) nm))"
    by (rule info_shallow [OF assms(1,2) canonical_join [OF _ assms(5)]])
  fix child assume "told_shallow n (join (ri_path i) nm) child"
  then show "returns (case child of Inl err \<Rightarrow> State_Monad.return (Some (e err)) | Inr c \<Rightarrow> k c)"
    using assms(6) enough_member [OF assms(3-5)] by (cases child) (auto intro: sat_return)
qed

lemma returns_any: "(\<And>x. returns (k x)) \<Longrightarrow> returns (State_Monad.bind m k)"
  by (rule sat_bind [OF all_results_True]) auto

lemma returns_removeTree:
  assumes "nests_below (h_fs h) n" and "0 < n"
  shows "enough n m i \<Longrightarrow> returns (removeTree m h i)"
proof (induction m arbitrary: i)
  case 0
  then show ?case by (simp add: enough_def)
next
  case (Suc m)
  have c: "canonical (ri_path i)" using Suc.prems by (simp add: enough_def)
  show ?case
  proof (cases "ri_isDir i")
    case True
    have members: "returns (each_member (remove_member m h (ri_path i)) ns)"
      if "\<And>nm. nm \<in> set ns \<Longrightarrow> \<not> dot nm \<Longrightarrow> good_comp nm" for ns
      by (rule returns_each_member, rule returns_member [OF assms Suc.prems True that]) (assumption+, rule Suc.IH)
    have rest: "returns (if failures \<noteq> Some [] then State_Monad.return failures else State_Monad.bind
        (drv_DeleteDir (h_fs h) (ri_path i)) (\<lambda>e. State_Monad.return (Some (g e))))" if "failures \<noteq> None" for failures g
      using that by (cases "failures = Some []") (simp_all add: sat_return returns_any del: not_None_eq)
    show ?thesis
      unfolding removeTree.simps using True
      by (simp del: not_None_eq, intro returns_listing [OF assms(1) c])
        (simp_all add: sat_return sat_bind [OF members rest] del: not_None_eq)
  next
    case False
    then show ?thesis by (simp add: sat_return returns_any del: not_None_eq)
  qed
qed

lemma returns_copyTree:
  assumes "nests_below (h_fs h) n" and "0 < n"
  shows "enough n m i \<Longrightarrow> returns (copyTree m h i dst deep)"
proof (induction m arbitrary: i dst deep)
  case 0
  then show ?case by (simp add: enough_def)
next
  case (Suc m)
  have c: "canonical (ri_path i)" using Suc.prems by (simp add: enough_def)
  show ?case
  proof (cases "ri_isDir i")
    case True
    have members: "returns (each_member (copy_member m h (ri_path i) dst) ns)"
      if "\<And>nm. nm \<in> set ns \<Longrightarrow> \<not> dot nm \<Longrightarrow> good_comp nm" for ns
      by (rule returns_each_member, rule returns_member [OF assms Suc.prems True that]) (assumption+, rule Suc.IH)
    have listed: "returns (State_Monad.bind (drv_ListDir (h_fs h) (ri_path i)) (\<lambda>entries. case entries of
        Inl err \<Rightarrow> State_Monad.return (Some (g err))
      | Inr names \<Rightarrow> each_member (copy_member m h (ri_path i) dst) names))" for g
      by (rule returns_listing [OF assms(1) c]) (simp_all add: sat_return members del: not_None_eq)
    show ?thesis
      by (simp only: copyTree.simps True not_True_eq_False if_False, rule returns_any)
        (simp add: sat_return listed del: not_None_eq split: option.split)
  next
    case False
    then show ?thesis by (simp add: sat_return returns_any del: not_None_eq)
  qed
qed

section \<open>The handlers that recurse\<close>

lemma straight_fs_sat:
  "all_results A m \<Longrightarrow> (\<And>x. A x \<Longrightarrow> straight (k x) has) \<Longrightarrow> straight (fs_call m k) has"
  by (auto simp: fs_call_def sat_map intro: sat_mono)

lemma straight_info:
  assumes "nests_below (h_fs h) n" and "0 < n" and "n < h_fuel h" and "canonical p"
    and "\<And>err. straight (k (Inl err)) has" and "\<And>i. enough n (h_fuel h) i \<Longrightarrow> straight (k (Inr i)) has"
  shows "straight (fs_call (info h p) k) has"
proof (rule straight_fs_sat [OF info_shallow [OF assms(1,2,4)]])
  fix ri assume "told_shallow n p ri"
  then show "straight (k ri) has"
    using assms(3-6) by (cases ri) (auto simp: told_shallow_def enough_def)
qed

lemma straight_remove_call:
  assumes "nests_below (h_fs h) n" and "0 < n" and "enough n (h_fuel h) i" and "\<And>x. straight (k x) has"
  shows "straight (remove_call h i k) has"
  unfolding remove_call_def
  by (rule straight_fs_sat [OF returns_removeTree [OF assms(1-3)]]) (use assms(4) in auto)

lemma straight_copy_call:
  assumes "nests_below (h_fs h) n" and "0 < n" and "enough n (h_fuel h) i" and "\<And>x. straight (k (Some x)) has"
  shows "straight (fs_call (copyTree (h_fuel h) h i dst deep) k) has"
  by (rule straight_fs_sat [OF returns_copyTree [OF assms(1-3)]]) (use assms(4) in auto)

lemma straight_serveDelete:
  assumes "nests_below (h_fs h) n" and "0 < n" and "n < h_fuel h" and "canonical name"
  shows "straight (serveDelete h w r name) False"
  unfolding serveDelete_def
  by (auto intro!: straight_checkLocks straight_info [OF assms] straight_remove_call [OF assms(1,2)] straight_ls
      split: option.split)

lemma straight_prepareDestination:
  assumes "nests_below (h_fs h) n" and "0 < n" and "n < h_fuel h" and "canonical dst" and "\<And>x. straight (k x) True"
  shows "straight (prepareDestination h w r src dst k) True"
  unfolding prepareDestination_def
  by (auto intro!: straight_info [OF assms(1-3)] straight_remove_call [OF assms(1,2)] straight_ls assms(4,5)
      canonical_parentOf split: option.split)

lemma straight_serveMove:
  assumes "nests_below (h_fs h) n" and "0 < n" and "n < h_fuel h"
  shows "straight (serveMove h w r name) False"
proof (cases "destination h r")
  case (Inr dst)
  show ?thesis
    unfolding serveMove_def Inr
    by (auto intro!: straights straight_prepareDestination [OF assms canonical_destination [OF Inr]]
        split: option.split sum.split)
qed (simp add: serveMove_def)

lemma straight_serveCopy:
  assumes "nests_below (h_fs h) n" and "0 < n" and "n < h_fuel h" and "canonical name"
  shows "straight (serveCopy h w r name) False"
proof (cases "destination h r")
  case (Inr dst)
  show ?thesis
    unfolding serveCopy_def Inr
    by (auto intro!: straight_checkLocks straight_info [OF assms] straight_copy_call [OF assms(1,2)]
        straight_prepareDestination [OF assms(1-3) canonical_destination [OF Inr]] split: option.split)
qed (simp add: serveCopy_def)

text \<open>Only \<open>DELETE\<close>, \<open>MOVE\<close> and \<open>COPY\<close> recurse; any other request has no dead end on any driver.\<close>

lemma straight_ServeHTTP:
  assumes "shallow h \<or> rq_method r \<notin> {''DELETE'', ''MOVE'', ''COPY''}"
  shows "straight (ServeHTTP h r) False"
proof -
  have "straight (dispatch h w r name) False" if name: "resource (h_prefix h) (rq_path r) = Some name" for w name
  proof -
    have c: "canonical name" by (rule resource_SomeD(1) [OF name])
    have "straight (serveDelete h w r name) False \<and> straight (serveMove h w r name) False \<and>
        straight (serveCopy h w r name) False" if "shallow h"
      using that straight_serveDelete straight_serveMove straight_serveCopy c unfolding shallow_def by metis
    then show ?thesis
      using assms unfolding dispatch_def Let_def mutate_def
      by (auto intro!: straight_serveGet straight_servePropfind straight_servePut straight_serveMkcol
          straight_serveProppatch straight_serveLock straight_serveUnlock)
  qed
  then show ?thesis unfolding ServeHTTP_def by (auto split: option.split)
qed

end
