(* ===== verification/Progress.thy ===== *)
theory Progress
  imports Recursion Concurrency
begin

text \<open>
  Liveness of the server as a whole. No request can act for ever, whatever the others do and the
  driver answers: each action leaves a smaller program (\<open>resumes\<close> is well-founded). So once requests
  stop arriving, every scheduler that does not stop for good while a request could act brings every
  request to its answer.
\<close>

section \<open>Every action brings a request closer to its answer\<close>

inductive resumes :: "'s proc \<Rightarrow> 's proc \<Rightarrow> bool" where
  "resumes p (Lock p)"
| "resumes p (Unlock p)"
| "run_state m s = (p, s') \<Longrightarrow> resumes p (Fs m)"
| "run_state l t = (p, t') \<Longrightarrow> resumes p (Ls l)"
| "run_state m s = (p, s') \<Longrightarrow> resumes p (Call m)"

inductive_simps resumes_iffs [simp]:
  "resumes p (Done r)" "resumes p Diverge" "resumes p (Lock q)" "resumes p (Unlock q)"
  "resumes p (Fs m)" "resumes p (Ls l)" "resumes p (Call m)"

lemma accp_resumes: "Wellfounded.accp resumes p"
  by (induction p; rule accp.accI; auto simp: set_state_iff)

lemma resumes_result [intro]: "run_state m s = (p, s') \<Longrightarrow> \<exists>s s'. run_state m s = (p, s')"
  by blast

abbreviation advances :: "(bool \<times> 's proc) rel" where
  "advances \<equiv> inv_image {(q, p). resumes q p} snd"

lemma wf_advances: "wf (listrel1 (advances :: (bool \<times> 's proc) rel))"
proof -
  have "wf {(q, p :: 's proc). resumes q p}"
    using accp_wfpI [of resumes] accp_resumes by (auto simp: wfp_def)
  then show ?thesis by (simp add: wf_inv_image)
qed

lemma listrel1_update: "i < length xs \<Longrightarrow> (y, xs ! i) \<in> r \<Longrightarrow> (xs[i := y], xs) \<in> listrel1 r"
  by (auto simp: listrel1_iff_update intro!: exI [of _ "xs ! i"] exI [of _ i])

lemma act_advances: "act i c = Some c' \<Longrightarrow> (snd c', snd c) \<in> listrel1 advances"
  unfolding act_def
  by (auto split: prod.splits if_splits proc.splits intro!: listrel1_update simp: not_le) (blast intro: resumes_result)+

lemma step_advances:
  "pool_step (\<lambda>_. False) c c' \<Longrightarrow> snd c' = snd c \<or> (snd c', snd c) \<in> listrel1 advances"
  by (erule pool_step.cases) (auto intro!: listrel1_update)

lemma wf_settles:
  assumes "wf r" and "\<And>i. g (Suc i) = g i \<or> (g (Suc i), g i) \<in> r"
  shows "\<exists>n. \<forall>i \<ge> n. g i = g n"
proof -
  obtain n where n: "\<And>y. (y, g n) \<in> r \<Longrightarrow> y \<notin> range g"
    using wfE_min [OF assms(1), of "g 0" "range g"] by auto
  have "g i = g n" if "i \<ge> n" for i
    using that
  proof (induction rule: dec_induct)
    case (step i)
    then show ?case using assms(2) [of i] n [of "g (Suc i)"] by auto
  qed simp
  then show ?thesis by blast
qed

section \<open>Schedulers\<close>

text \<open>
  A run of the server from \<open>f 0\<close> on, without new requests: the clock may tick at any time, and as long
  as some request can act, one will.
\<close>

definition scheduled :: "(nat \<Rightarrow> 's pool) \<Rightarrow> bool" where
  "scheduled f \<longleftrightarrow>
     (\<forall>i. pool_step (\<lambda>_. False) (f i) (f (Suc i))) \<and>
     (\<forall>i. (\<exists>j. act j (f i) \<noteq> None) \<longrightarrow> (\<exists>k \<ge> i. \<exists>j. act j (f k) = Some (f (Suc k))))"

text \<open>The scheduler that always lets the first request act that can.\<close>

definition greedy :: "'s pool \<Rightarrow> 's pool" where
  "greedy c = (case List.find (\<lambda>i. act i c \<noteq> None) [0..<length (snd c)] of
     None \<Rightarrow> c
   | Some i \<Rightarrow> (case act i c of None \<Rightarrow> c | Some c' \<Rightarrow> c'))"

lemma act_index: "act i c = Some c' \<Longrightarrow> i < length (snd c)"
  by (auto simp: act_def split: prod.splits if_splits)

lemma greedy_cases:
  obtains (idle) "greedy c = c" "\<And>j. act j c = None" | (acts) j where "act j c = Some (greedy c)"
proof (cases "List.find (\<lambda>i. act i c \<noteq> None) [0..<length (snd c)]")
  case None
  then have "act j c = None" for j using act_index [of j c] by (cases "act j c") (auto simp: find_None_iff)
  then show ?thesis using idle None by (simp add: greedy_def)
next
  case (Some i)
  then obtain c' where "act i c = Some c'" by (auto simp: find_Some_iff)
  then show ?thesis using acts [of i] Some by (simp add: greedy_def)
qed

lemma idle_tick: "pool_step arrives c c"
proof -
  obtain w ts where c: "c = (w, ts)" by fastforce
  have "pool_step arrives (w, ts) (w\<lparr>w_lk := (w_lk w)\<lparr>lw_now := lw_now (w_lk w)\<rparr>\<rparr>, ts)" by (rule act_tick) simp
  then show ?thesis by (simp add: c)
qed

lemma greedy_step: "pool_step (\<lambda>_. False) c (greedy c)"
  by (cases rule: greedy_cases [of c]) (auto intro: act_step idle_tick)

lemma greedy_acts: "act j c \<noteq> None \<Longrightarrow> \<exists>j. act j c = Some (greedy c)"
  by (cases rule: greedy_cases [of c]) auto

lemma scheduled_greedy: "scheduled (\<lambda>i. (greedy ^^ i) c)"
  unfolding scheduled_def
proof (intro conjI allI impI)
  fix i
  show "pool_step (\<lambda>_. False) ((greedy ^^ i) c) ((greedy ^^ Suc i) c)" by (simp add: greedy_step)
  assume "\<exists>j. act j ((greedy ^^ i) c) \<noteq> None"
  then obtain j where "act j ((greedy ^^ i) c) \<noteq> None" ..
  then show "\<exists>k \<ge> i. \<exists>j. act j ((greedy ^^ k) c) = Some ((greedy ^^ Suc k) c)"
    using greedy_acts [of j "(greedy ^^ i) c"] by (intro exI [of _ i]) simp
qed

section \<open>Every request is answered in the end\<close>

lemma scheduled_reach:
  assumes "pool_reach arrives w0 (f 0)" and "scheduled f"
  shows "pool_reach arrives w0 (f i)"
proof (induction i)
  case (Suc i)
  have "pool_step (\<lambda>_. False) (f i) (f (Suc i))" using assms(2) by (simp add: scheduled_def)
  then have "pool_step arrives (f i) (f (Suc i))"
    by (cases rule: pool_step.cases) (auto intro: pool_step.intros)
  then show ?case by (rule reach_step [OF Suc])
qed (rule assms(1))

lemma scheduled_settles:
  assumes "pool_reach arrives w0 (f 0)" and "\<not> w_mu w0" and "\<And>p. arrives p \<Longrightarrow> orderly late p False"
    and "scheduled f"
  shows "\<exists>n. (\<forall>i \<ge> n. snd (f i) = snd (f n)) \<and>
    ((\<forall>t \<in> set (snd (f n)). finished (snd t)) \<or> (\<exists>t \<in> set (snd (f n)). snd t = Diverge))"
proof -
  have steps: "pool_step (\<lambda>_. False) (f i) (f (Suc i))" for i using assms(4) by (simp add: scheduled_def)
  have "(snd \<circ> f) (Suc i) = (snd \<circ> f) i \<or> ((snd \<circ> f) (Suc i), (snd \<circ> f) i) \<in> listrel1 advances" for i
    using step_advances [OF steps [of i]] by simp
  then obtain n where n: "\<And>i. i \<ge> n \<Longrightarrow> snd (f i) = snd (f n)"
    using wf_settles [OF wf_advances, of "snd \<circ> f"] by (metis comp_apply)
  have quiet: "act j (f n) = None" for j
  proof (rule ccontr)
    assume "act j (f n) \<noteq> None"
    then obtain k j where k: "k \<ge> n" "act j (f k) = Some (f (Suc k))"
      using assms(4) unfolding scheduled_def by blast
    then show False using act_advances [OF k(2)] n [of k] n [of "Suc k"] wf_not_refl [OF wf_advances] by auto
  qed
  note reach = scheduled_reach [OF assms(1,4)]
  obtain w ts where f: "f n = (w, ts)" by fastforce
  have d: "pool_orderly late (w, ts)" using pool_reach_orderly [OF reach assms(2,3), of n] f by simp
  have still: "\<not> enabled w (snd (ts ! i))" if "i < length ts" for i
    using quiet [of i] that f by (cases "snd (ts ! i)") (auto simp: act_def enabled_def split: prod.splits if_splits)
  have "(\<forall>t \<in> set ts. finished (snd t)) \<or> (\<exists>t \<in> set ts. snd t = Diverge)"
    using pool_progress [OF d] still by blast
  then show ?thesis using n reach [of n] f by (intro exI [of _ n]) auto
qed

text \<open>A program without a dead end keeps that whatever it is answered.\<close>

lemma straight_resumes: "straight p has \<Longrightarrow> resumes q p \<Longrightarrow> \<exists>has. straight q has"
  by (cases p) (auto dest: sat_results)

lemma step_resumes:
  "pool_step arrives c c' \<Longrightarrow> t \<in> set (snd c') \<Longrightarrow>
     t \<in> set (snd c) \<or> arrives (snd t) \<or> (\<exists>u \<in> set (snd c). resumes (snd t) (snd u))"
  by (erule pool_step.cases) (auto dest!: set_update intro!: bexI [OF _ nth_mem])

lemma pool_reach_resumes:
  assumes "pool_reach arrives w0 c" and "\<And>p. arrives p \<Longrightarrow> J p" and "\<And>p q. J p \<Longrightarrow> resumes q p \<Longrightarrow> J q"
  shows "\<forall>t \<in> set (snd c). J (snd t)"
  using assms(1)
proof induction
  case (reach_step c c')
  then show ?case using step_resumes [OF reach_step(2)] assms(2,3) by metis
qed simp

text \<open>So no request runs out of stack whose recursion, if it has one, is bounded.\<close>

abbreviation bounded_request :: "('s, 'f) handler \<Rightarrow> 's proc \<Rightarrow> bool" where
  "bounded_request h p \<equiv> \<exists>r. p = ServeHTTP h r \<and> (shallow h \<or> rq_method r \<notin> {''DELETE'', ''MOVE'', ''COPY''})"

lemma no_dead_end:
  assumes "pool_reach (bounded_request h) w0 c" and "t \<in> set (snd c)"
  shows "snd t \<noteq> Diverge"
proof -
  have "\<forall>t \<in> set (snd c). \<exists>has. straight (snd t) has"
    by (rule pool_reach_resumes [OF assms(1), where J = "\<lambda>p. \<exists>has. straight p has"])
       (use straight_ServeHTTP straight_resumes in blast)+
  then show ?thesis using assms(2) by force
qed

text \<open>
  C26. Every request is answered in the end: when no more requests arrive, then, whatever order the
  scheduler lets the others act in, whatever the driver answers and however the clock moves, there is
  a moment from which on nothing changes any more and every request has been answered. \<open>DELETE\<close>,
  \<open>MOVE\<close> and \<open>COPY\<close> walk down the directories the driver reports, so where they arrive the driver must
  not report directories that nest without end (\<open>shallow\<close>); for all the others any driver will do.
\<close>

theorem requests_are_answered:
  assumes "pool_reach (bounded_request h) w0 (f 0)" and "\<not> w_mu w0" and "scheduled f"
  shows "\<exists>n. (\<forall>i \<ge> n. snd (f i) = snd (f n)) \<and> (\<forall>t \<in> set (snd (f n)). finished (snd t))"
proof -
  have "snd t \<noteq> Diverge" if "t \<in> set (snd (f n))" for t n
    by (rule no_dead_end [OF scheduled_reach [OF assms(1,3)] that])
  then show ?thesis
    using scheduled_settles [where arrives = "bounded_request h" and late = "late_close h", OF assms(1,2) _ assms(3)]
      orderly_ServeHTTP by blast
qed

text \<open>The file system of the examples with a limit on the length of a path.\<close>

definition limited_driver :: "nat \<Rightarrow> (memFS, nat) driver" where
  "limited_driver n = (mem_driver True)\<lparr>
     drv_Stat := \<lambda>p. if n \<le> length (comps p) then State_Monad.return (Inl (plain_error ''file name too long''))
       else mem_Stat p,
     drv_ListDir := \<lambda>p. map_state (map_sum id (filter (\<lambda>e. dot e \<or> good_comp e))) (mem_ListDir p)\<rparr>"

lemma limited_nests: "nests_below (limited_driver n) n"
  by (auto simp: nests_below_def limited_driver_def no_directory_def good_listing_def dot_def sat_def run_map_state
      map_sum_def split: prod.splits sum.splits)

theorem requests_are_answered_witness:
  "\<exists>n. \<forall>t \<in> set (snd ((greedy ^^ n) (at_once ((mem_handler True demo_std 5)\<lparr>h_fs := limited_driver 4\<rparr>)
      [demo_request ''DELETE'' ''/d'' [] [], demo_request ''GET'' ''/d/a'' [] []]))). finished (snd t)"
proof -
  let ?h = "(mem_handler True demo_std 5)\<lparr>h_fs := limited_driver 4\<rparr>"
  let ?rs = "[demo_request ''DELETE'' ''/d'' [] [], demo_request ''GET'' ''/d/a'' [] []]"
  have "shallow ?h" unfolding shallow_def by (rule exI [of _ 4]) (simp add: limited_nests)
  then have reach: "pool_reach (bounded_request ?h) (demo_world demo_mem) (at_once ?h ?rs)"
    by (intro turns_from [where order = "[]"]) auto
  show ?thesis
    using requests_are_answered [of ?h "demo_world demo_mem" "\<lambda>i. (greedy ^^ i) (at_once ?h ?rs)"]
      reach scheduled_greedy [of "at_once ?h ?rs"] by auto
qed

end
