(* ===== verification/Failures.thy ===== *)
theory Failures
  imports WriteSpecs
begin

text \<open>
  What a client is told when a driver fails in the middle of a \<open>DELETE\<close>, over every driver that a
  \<open>session\<close> can have, faulty ones included.
\<close>

section \<open>A removal that fails\<close>

text \<open>The rows a removal reports: each is a failure of a resource at or below the one removed.\<close>

definition reported :: "('s, 'f) handler \<Rightarrow> path \<Rightarrow> response \<Rightarrow> bool" where
  "reported h base row \<longleftrightarrow> (\<exists>p coll e. canonical p \<and> under base p \<and> row = failed h p coll e)"

abbreviation all_reported :: "('s, 'f) handler \<Rightarrow> path \<Rightarrow> response list option \<Rightarrow> bool" where
  "all_reported h base res \<equiv> \<forall>rows. res = Some rows \<longrightarrow> (\<forall>row \<in> set rows. reported h base row)"

lemma sat_each_member:
  assumes "\<And>e. e \<in> set es \<Longrightarrow> e \<noteq> ''.'' \<Longrightarrow> e \<noteq> ''..'' \<Longrightarrow> sat P (all_reported h base) (f e)"
  shows "sat P (all_reported h base) (each_member f es)"
  using assms
proof (induction es)
  case (Cons e es)
  show ?case
  proof (cases "e = ''.'' \<or> e = ''..''")
    case False
    have rest: "sat P (all_reported h base) (each_member f es)" using Cons by auto
    show ?thesis
      using False
      by (auto intro!: sat_bind [OF Cons.prems [of e]] sat_bind [OF rest] sat_return split: option.split)
  qed (use Cons in auto)
qed (simp add: sat_return)

context writer
begin

lemma removeTree_reports: "canonical (ri_path i) \<Longrightarrow> sat P (all_reported h (ri_path i)) (removeTree n h i)"
proof (induction n arbitrary: i)
  case (Suc n)
  let ?p = "ri_path i"
  have here: "reported h ?p (failed h ?p coll e)" for coll e
    using Suc.prems under_refl unfolding reported_def by blast
  define f where "f nm = do {
      child \<leftarrow> info h (join ?p nm);
      case child of
        Inl err \<Rightarrow> State_Monad.return (Some [failed h (join ?p nm) False err])
      | Inr c \<Rightarrow> removeTree n h c }" for nm
  have member: "sat P (all_reported h ?p) (f nm)" if nm: "good_comp nm" for nm
    unfolding f_def
  proof (rule sat_bind [OF sat_info])
    show c: "canonical (join ?p nm)" by (rule canonical_join [OF Suc.prems nm])
    have below: "reported h (join ?p nm) row \<Longrightarrow> reported h ?p row" for row
      unfolding reported_def using tree.le_trans [OF Suc.prems c _ under_join] by blast
    fix ri :: "go_error + resourceInfo" assume ri: "\<forall>j. ri = Inr j \<longrightarrow> ri_path j = join ?p nm"
    show "sat P (all_reported h ?p) (case ri of
        Inl err \<Rightarrow> State_Monad.return (Some [failed h (join ?p nm) False err])
      | Inr c \<Rightarrow> removeTree n h c)"
    proof (cases ri)
      case (Inl e)
      have "reported h ?p (failed h (join ?p nm) False e)"
        using c under_join unfolding reported_def by blast
      then show ?thesis using Inl by (simp add: sat_return)
    next
      case (Inr j)
      then have "ri_path j = join ?p nm" using ri by simp
      then have "sat P (all_reported h (join ?p nm)) (removeTree n h j)" using Suc.IH [of j] c by simp
      then show ?thesis using Inr below by (auto intro: sat_mono)
    qed
  qed
  show ?case
  proof (cases "ri_isDir i")
    case False
    then show ?thesis
      using here by (auto intro!: sat_bind [OF DeleteFile [OF Suc.prems]] sat_return split: option.split)
  next
    case True
    have "sat P (all_reported h ?p) (do {
        failures \<leftarrow> each_member f ns;
        if failures \<noteq> Some [] then State_Monad.return failures
        else do {
          e \<leftarrow> drv_DeleteDir (h_fs h) ?p;
          State_Monad.return (Some (case e of None \<Rightarrow> [] | Some err \<Rightarrow> [failed h ?p True err]))
        }})" if "\<forall>nm \<in> set ns. nm = ''.'' \<or> nm = ''..'' \<or> good_comp nm" for ns
    proof (rule sat_bind [OF sat_each_member])
      show "sat P (all_reported h ?p) (f e)" if "e \<in> set ns" "e \<noteq> ''.''" "e \<noteq> ''..''" for e
        using member that \<open>\<forall>nm \<in> set ns. _ nm\<close> by blast
      fix failures assume "all_reported h ?p failures"
      then show "sat P (all_reported h ?p) (if failures \<noteq> Some [] then State_Monad.return failures
        else do {
          e \<leftarrow> drv_DeleteDir (h_fs h) ?p;
          State_Monad.return (Some (case e of None \<Rightarrow> [] | Some err \<Rightarrow> [failed h ?p True err]))
        })"
        using here by (auto intro!: sat_bind [OF DeleteDir [OF Suc.prems]] sat_return split: option.split)
    qed
    then show ?thesis
      unfolding removeTree.simps f_def [abs_def, symmetric] using True here
      by (auto simp: good_listing_def intro!: sat_bind [OF ListDir [OF Suc.prems]] sat_return split: sum.splits)
  qed
qed (simp add: sat_return)

end

context session
begin

lemma delete_reported:
  assumes name: "canonical name" and "P (w_fs w)" and inv: "ls_inv (lw_table (w_lk w))"
    and run: "run_proc (serveDelete h ws r name) w = (Some resp, w')" and multi: "rs_status resp = StatusMulti"
  shows "locks_at (w_lk w') = locks_at (w_lk w) \<and>
    (\<exists>rows. rs_body resp = Multistatus rows \<and> rows \<noteq> [] \<and> (\<forall>row \<in> set rows. reported h name row))"
proof -
  let ?l = "w_lk w"
  obtain res tab where c: "confirm (lw_now ?l) name (submittedTokens (rq_header r ''If'')) (lw_table ?l) = (res, tab)"
    by fastforce
  have tab: "tab = sweep (lw_now ?l) (lw_table ?l)"
    using confirm_state [of "lw_now ?l" name "submittedTokens (rq_header r ''If'')" "lw_table ?l"] c by simp
  have locks: "locks_at (?l\<lparr>lw_table := tab\<rparr>) = locks_at ?l" using locks_at_sweep [OF inv] by (simp add: tab)
  obtain ri s where i: "run_state (info h name) (w_fs w) = (ri, s)" by fastforce
  have s: "P s" "\<forall>j. ri = Inr j \<longrightarrow> ri_path j = name" using satD [OF sat_info [OF name] assms(2) i] by auto
  show ?thesis
  proof (cases "name \<noteq> ''/'' \<and> res = None \<and> \<not> w_mu w \<and> \<not> isl ri")
    case True
    then obtain j where j: "ri = Inr j" "ri_path j = name" using s(2) by (cases ri) auto
    obtain rows s' where d: "run_state (removeTree (h_fuel h) h j) s = (rows, s')" by fastforce
    have rows: "all_reported h name rows" using satD [OF removeTree_reports [of j] s(1) d] j name by simp
    then show ?thesis
      using run multi True j d c i locks
      by (auto simp: serveDelete_def run_simps remove_call_def writeMultistatus_def respond_with_def status_defs
          split: option.splits if_splits prod.splits)
  next
    case False
    have "statusFor e StatusInternalServerError \<noteq> 207" for e
      using statusFor_proper(2) [of e] by (simp add: status_defs)
    then show ?thesis
      using False run multi c i
      by (cases ri) (auto simp: serveDelete_def run_simps http_error_def status_defs writeLockError_def
          split: option.splits if_splits lock_error.splits)
  qed
qed

end


text \<open>
  C23. A \<open>DELETE\<close> that fails part of the way (207) says what is left: whatever the driver does, as long
  as its listings are names, every row of the answer names a resource at or below the path with
  the status of its failure, there is at least one, and no live lock is dropped: what is still
  there is still locked.
\<close>

theorem failed_delete_reports:
  assumes "session h P Q" and "accepted h r name" and "rq_method r = ''DELETE''"
    and "P (w_fs w)" and "ls_inv (lw_table (w_lk w))"
    and "run_proc (ServeHTTP h r) w = (Some resp, w')" and "rs_status resp = StatusMulti"
  shows "locks_at (w_lk w') = locks_at (w_lk w) \<and>
    (\<exists>rows. rs_body resp = Multistatus rows \<and> rows \<noteq> [] \<and> (\<forall>row \<in> set rows. reported h name row))"
  by (rule session.delete_reported [OF assms(1) accepted_canonical [OF assms(2)] assms(4,5)
        assms(6) [unfolded accepted_serves(3) [OF assms(2,3)]] assms(7)])

definition faulty_mem :: memFS where
  "faulty_mem = demo_mem\<lparr>mf_fail := [(''DeleteFile:/d/a'', plain_error ''media error'')]\<rparr>"

theorem failed_delete_reports_witness:
  "case run_proc (ServeHTTP (mem_handler False demo_std 5) (demo_request ''DELETE'' ''/d'' [] [])) (demo_world faulty_mem) of
     (res, w') \<Rightarrow> locks_at (w_lk w') = locks_at demo_lw \<and>
       (\<exists>resp row rows. res = Some resp \<and> rs_body resp = Multistatus (row # rows) \<and>
         reported (mem_handler False demo_std 5 :: (memFS, nat) handler) ''/d'' row)"
proof -
  let ?h = "mem_handler False demo_std 5 :: (memFS, nat) handler" and ?r = "demo_request ''DELETE'' ''/d'' [] []"
  obtain res w' where run: "run_proc (ServeHTTP ?h ?r) (demo_world faulty_mem) = (res, w')" by fastforce
  have "map_option rs_status (fst (run_proc (ServeHTTP ?h ?r) (demo_world faulty_mem))) = Some StatusMulti" by code_simp
  then obtain resp where resp: "res = Some resp" "rs_status resp = StatusMulti" using run by auto
  have keys: "mem_keys_ok faulty_mem" using demo_keys by (simp add: mem_keys_ok_def faulty_mem_def)
  have p: "resource [] ''/d'' = Some ''/d''" by code_simp
  have "locks_at (w_lk w') = locks_at demo_lw \<and>
      (\<exists>rows. rs_body resp = Multistatus rows \<and> rows \<noteq> [] \<and> (\<forall>row \<in> set rows. reported ?h ''/d'' row))"
    using failed_delete_reports [OF mem_server.session_axioms demo_accepted [OF p, of False 5 "''DELETE''" "[]" "[]"] _ _ _
        run [unfolded resp(1)] resp(2)] keys by simp
  then obtain rows where "rs_body resp = Multistatus rows" "rows \<noteq> []" "\<forall>row \<in> set rows. reported ?h ''/d'' row"
    "locks_at (w_lk w') = locks_at demo_lw" by blast
  then show ?thesis using resp(1) run by (cases rows) auto
qed

end
