(* ===== verification/Bodies.thy ===== *)
theory Bodies
  imports Effects
begin

text \<open>
  The bodies of \<open>PROPFIND\<close> and \<open>PROPPATCH\<close>: the loops over the decoder's tokens against a reading of the
  document as a tree; and what a \<open>PROPPATCH\<close> is answered.
\<close>

section \<open>Documents\<close>

text \<open>A document as a tree, and the tokens a decoder gives of it; text and comments may surround the root.\<close>

datatype xml_tree = Elem xml_name "(xml_name \<times> string) list" "xml_tree list" | Leaf xml_token

fun is_noise :: "xml_token \<Rightarrow> bool" where
  "is_noise (CharData b) = True"
| "is_noise OtherToken = True"
| "is_noise _ = False"

primrec tokens_of :: "xml_tree \<Rightarrow> xml_token list" where
  "tokens_of (Elem n a ch) = StartElement n a # concat (map tokens_of ch) @ [EndElement n]"
| "tokens_of (Leaf t) = [t]"

primrec well_formed :: "xml_tree \<Rightarrow> bool" where
  "well_formed (Elem n a ch) \<longleftrightarrow> list_all well_formed ch"
| "well_formed (Leaf t) \<longleftrightarrow> is_noise t"

abbreviation forest :: "xml_tree list \<Rightarrow> xml_token list" where
  "forest ch \<equiv> concat (map tokens_of ch)"

lemma skip_noise: "is_noise t \<Longrightarrow> skip d (t # ts) = skip d ts"
  by (cases t) auto

lemma skip_tree: "well_formed t \<Longrightarrow> skip d (tokens_of t @ ts) = skip d ts"
proof (induction t arbitrary: d ts)
  case (Elem n a ch)
  have "skip d' (forest ch @ us) = skip d' us" for d' us
    using Elem by (induction ch arbitrary: us) auto
  then show ?case by simp
qed (simp add: skip_noise)

lemma skip_forest: "list_all well_formed ch \<Longrightarrow> skip d (forest ch @ ts) = skip d ts"
  by (induction ch) (simp_all add: skip_tree)

lemma skip_element: "list_all well_formed ch \<Longrightarrow> skip 0 (forest ch @ EndElement n # ts) = Some ts"
  by (simp add: skip_forest)

text \<open>The names of the elements in a list.\<close>

definition element_names :: "xml_tree list \<Rightarrow> xml_name list" where
  "element_names ch = concat (map (\<lambda>t. case t of Elem n _ _ \<Rightarrow> [n] | Leaf _ \<Rightarrow> []) ch)"

lemma element_names_simps [simp]:
  "element_names [] = []" "element_names (Elem n a ts # ch) = n # element_names ch"
  "element_names (Leaf t # ch) = element_names ch"
  by (simp_all add: element_names_def)

section \<open>PROPFIND\<close>

definition propfind_child :: "propfindRequest \<Rightarrow> xml_tree \<Rightarrow> propfindRequest" where
  "propfind_child req t =
     (case t of
        Leaf _ \<Rightarrow> req
      | Elem n _ ch \<Rightarrow>
          if n = (davNS, ''prop'') then req\<lparr>pf_names := pf_names req @ element_names ch\<rparr>
          else if n = (davNS, ''include'') then req\<lparr>pf_include := pf_include req @ element_names ch\<rparr>
          else if fst n = davNS then request_kind (snd n) req else req)"

definition propfind_document :: "xml_tree \<Rightarrow> propfindRequest option" where
  "propfind_document t =
     (case t of
        Elem n _ ch \<Rightarrow>
          (let req = foldl propfind_child empty_propfind ch
           in if n \<noteq> (davNS, ''propfind'') \<or> \<not> pf_allprop req \<and> \<not> pf_propname req \<and> pf_names req = []
              then None else Some req)
      | Leaf _ \<Rightarrow> Some (empty_propfind\<lparr>pf_allprop := True\<rparr>))"

lemma propfind_noise:
  "is_noise t \<Longrightarrow> parse_propfind_loop p i s req (t # ts) = parse_propfind_loop p i s req ts"
  by (cases t) (simp_all add: parse_propfind_loop.simps [of _ _ _ _ "_ # _"])

lemma propfind_noises:
  "list_all is_noise us \<Longrightarrow> parse_propfind_loop p i s req (us @ ts) = parse_propfind_loop p i s req ts"
  by (induction us) (simp_all add: propfind_noise)

lemma propfind_prop:
  "list_all well_formed ch \<Longrightarrow>
   parse_propfind_loop True False True req (forest ch @ EndElement (davNS, ''prop'') # ts) =
   parse_propfind_loop False False True (req\<lparr>pf_names := pf_names req @ element_names ch\<rparr>) ts"
proof (induction ch arbitrary: req)
  case Nil
  then show ?case by (simp add: parse_propfind_loop.simps [of _ _ _ _ "_ # _"])
next
  case (Cons c ch)
  then show ?case
    by (cases c) (simp_all add: propfind_noise skip_element
        parse_propfind_loop.simps [of _ _ _ _ "StartElement _ _ # _"])
qed

lemma propfind_include:
  "list_all well_formed ch \<Longrightarrow>
   parse_propfind_loop False True True req (forest ch @ EndElement (davNS, ''include'') # ts) =
   parse_propfind_loop False False True (req\<lparr>pf_include := pf_include req @ element_names ch\<rparr>) ts"
proof (induction ch arbitrary: req)
  case Nil
  then show ?case by (simp add: parse_propfind_loop.simps [of _ _ _ _ "_ # _"])
next
  case (Cons c ch)
  then show ?case
    by (cases c) (simp_all add: propfind_noise skip_element
        parse_propfind_loop.simps [of _ _ _ _ "StartElement _ _ # _"])
qed

lemma propfind_children:
  "list_all well_formed ch \<Longrightarrow>
   parse_propfind_loop False False True req (forest ch @ ts) =
   parse_propfind_loop False False True (foldl propfind_child req ch) ts"
proof (induction ch arbitrary: req)
  case (Cons c ch)
  show ?case
  proof (cases c)
    case (Leaf t)
    then show ?thesis using Cons by (simp add: propfind_noise propfind_child_def)
  next
    case (Elem n a es)
    obtain x y where n: "n = (x, y)" by (cases n)
    have es: "list_all well_formed es" using Cons.prems Elem by simp
    consider "n = (davNS, ''prop'')" | "n = (davNS, ''include'')" | "n \<noteq> (davNS, ''prop'')" "n \<noteq> (davNS, ''include'')"
      by blast
    then have "parse_propfind_loop False False True req (tokens_of c @ us) =
        parse_propfind_loop False False True (propfind_child req c) us" for us
    proof cases
      case 1
      then show ?thesis
        using propfind_prop [OF es] by (simp add: Elem propfind_child_def parse_propfind_loop.simps [of _ _ _ _ "StartElement _ _ # _"])
    next
      case 2
      then show ?thesis
        using propfind_include [OF es] by (simp add: Elem propfind_child_def parse_propfind_loop.simps [of _ _ _ _ "StartElement _ _ # _"])
    next
      case 3
      then show ?thesis
        using skip_element [OF es] n
        by (auto simp: Elem propfind_child_def parse_propfind_loop.simps [of _ _ _ _ "StartElement _ _ # _"])
    qed
    then show ?thesis using Cons by simp
  qed
qed simp

lemma parsePropfind_document:
  assumes "well_formed t" and "list_all is_noise us" and "list_all is_noise vs"
    and "xml_input h r = (us @ tokens_of t @ vs, None)"
  shows "parsePropfind h r = propfind_document t"
proof (cases t)
  case (Leaf x)
  then have "list_all is_noise (us @ x # vs)" using assms by simp
  from propfind_noises [OF this, of False False False empty_propfind "[]"] show ?thesis
    using assms(4) Leaf by (simp add: parsePropfind_def propfind_document_def parse_propfind_loop.simps [of _ _ _ _ "[]"])
next
  case (Elem n a ch)
  have ch: "list_all well_formed ch" using assms(1) Elem by simp
  have "parse_propfind_loop False False True q (EndElement (davNS, ''propfind'') # vs) = Some (True, q)" for q
    using propfind_noises [OF assms(3), of False False True q "[]"]
    by (simp add: parse_propfind_loop.simps [of _ _ _ _ "EndElement _ # _"] parse_propfind_loop.simps [of _ _ _ _ "[]"])
  then show ?thesis
    using propfind_children [OF ch] assms(4) Elem
    by (cases n) (auto simp: parsePropfind_def propfind_document_def propfind_noises [OF assms(2)] Let_def
        parse_propfind_loop.simps [of _ _ _ _ "StartElement _ _ # _"])
qed

section \<open>PROPPATCH\<close>

primrec patch_names :: "xml_tree \<Rightarrow> xml_name list" where
  "patch_names (Elem n a ch) =
     (if n = (davNS, ''prop'') then element_names ch
      else if n = (davNS, ''set'') \<or> n = (davNS, ''remove'') then concat (map patch_names ch) else [])"
| "patch_names (Leaf t) = []"

definition proppatch_document :: "xml_tree \<Rightarrow> xml_name list option" where
  "proppatch_document t =
     (case t of
        Elem n _ ch \<Rightarrow> if n = (davNS, ''propertyupdate'') then Some (concat (map patch_names ch)) else None
      | Leaf _ \<Rightarrow> None)"

lemma proppatch_noise:
  "is_noise t \<Longrightarrow> parse_proppatch_loop p s ns (t # ts) = parse_proppatch_loop p s ns ts"
  by (cases t) (simp_all add: parse_proppatch_loop.simps [of _ _ _ "_ # _"])

lemma proppatch_noises:
  "list_all is_noise us \<Longrightarrow> parse_proppatch_loop p s ns (us @ ts) = parse_proppatch_loop p s ns ts"
  by (induction us) (simp_all add: proppatch_noise)

lemma proppatch_prop:
  "list_all well_formed ch \<Longrightarrow>
   parse_proppatch_loop True True ns (forest ch @ EndElement (davNS, ''prop'') # ts) =
   parse_proppatch_loop False True (ns @ element_names ch) ts"
proof (induction ch arbitrary: ns)
  case Nil
  then show ?case by (simp add: parse_proppatch_loop.simps [of _ _ _ "_ # _"])
next
  case (Cons c ch)
  then show ?case
    by (cases c) (simp_all add: proppatch_noise skip_element
        parse_proppatch_loop.simps [of _ _ _ "StartElement _ _ # _"])
qed

lemma proppatch_child:
  "well_formed t \<Longrightarrow>
   parse_proppatch_loop False True ns (tokens_of t @ ts) = parse_proppatch_loop False True (ns @ patch_names t) ts"
proof (induction t arbitrary: ns ts)
  case (Leaf x)
  then show ?case by (simp add: proppatch_noise)
next
  case (Elem n a es)
  have es: "list_all well_formed es" using Elem.prems by simp
  have sub: "parse_proppatch_loop False True ns (forest es @ us) =
      parse_proppatch_loop False True (ns @ concat (map patch_names es)) us" for ns us
    using Elem.IH es by (induction es arbitrary: ns) auto
  consider "n = (davNS, ''prop'')" | "n = (davNS, ''set'') \<or> n = (davNS, ''remove'')"
    | "n \<noteq> (davNS, ''prop'')" "n \<noteq> (davNS, ''set'')" "n \<noteq> (davNS, ''remove'')" by blast
  then show ?case
  proof cases
    case 1
    then show ?thesis using proppatch_prop [OF es]
      by (simp add: parse_proppatch_loop.simps [of _ _ _ "StartElement _ _ # _"])
  next
    case 2
    then show ?thesis using sub
      by (auto simp: parse_proppatch_loop.simps [of _ _ _ "StartElement _ _ # _"]
          parse_proppatch_loop.simps [of _ _ _ "EndElement _ # _"])
  next
    case 3
    then show ?thesis using skip_element [OF es]
      by (cases n) (auto simp: parse_proppatch_loop.simps [of _ _ _ "StartElement _ _ # _"])
  qed
qed

lemma proppatch_children:
  "list_all well_formed ch \<Longrightarrow>
   parse_proppatch_loop False True ns (forest ch @ ts) =
   parse_proppatch_loop False True (ns @ concat (map patch_names ch)) ts"
  by (induction ch arbitrary: ns) (simp_all add: proppatch_child)

lemma parseProppatch_document:
  assumes "well_formed t" and "list_all is_noise us" and "list_all is_noise vs"
    and "xml_input h r = (us @ tokens_of t @ vs, None)"
  shows "parseProppatch h r = proppatch_document t"
proof (cases t)
  case (Leaf x)
  then have "list_all is_noise (us @ x # vs)" using assms by simp
  from proppatch_noises [OF this, of False False "[]" "[]"] show ?thesis
    using assms(4) Leaf by (simp add: parseProppatch_def proppatch_document_def parse_proppatch_loop.simps [of _ _ _ "[]"])
next
  case (Elem n a ch)
  have ch: "list_all well_formed ch" using assms(1) Elem by simp
  have "parse_proppatch_loop False True q (EndElement (davNS, ''propertyupdate'') # vs) = Some (True, q)" for q
    using proppatch_noises [OF assms(3), of False True q "[]"]
    by (simp add: parse_proppatch_loop.simps [of _ _ _ "EndElement _ # _"] parse_proppatch_loop.simps [of _ _ _ "[]"])
  then show ?thesis
    using proppatch_children [OF ch] assms(4) Elem
    by (cases n) (auto simp: parseProppatch_def proppatch_document_def proppatch_noises [OF assms(2)]
        parse_proppatch_loop.simps [of _ _ _ "StartElement _ _ # _"])
qed

section \<open>Properties\<close>

text \<open>
  C24. The token loops of \<open>PROPFIND\<close> and \<open>PROPPATCH\<close> read a body as the document it is: the names are those
  of the elements directly inside \<open>prop\<close> and \<open>include\<close>, in order, and never of anything nested deeper;
  the request types are the root's children; a body without a root means all properties for
  \<open>PROPFIND\<close> and is malformed for \<open>PROPPATCH\<close>.
\<close>

theorem bodies_are_documents:
  assumes "well_formed t" and "list_all is_noise us" and "list_all is_noise vs"
    and "xml_input h r = (us @ tokens_of t @ vs, None)"
  shows "parsePropfind h r = propfind_document t \<and> parseProppatch h r = proppatch_document t"
  using parsePropfind_document [OF assms] parseProppatch_document [OF assms] by blast

definition nested_document :: xml_tree where
  "nested_document =
     Elem (davNS, ''propfind'') [] [Leaf (CharData '' ''), Elem (davNS, ''prop'') []
       [Elem (davNS, ''foo'') [] [Elem (davNS, ''prop'') [] [Elem (davNS, ''bar'') [] []]], Leaf OtherToken,
        Elem (''urn:x'', ''b'') [] []]]"

theorem bodies_are_documents_witness:
  "parsePropfind (mem_handler False (demo_std\<lparr>std_xml := \<lambda>b e. (OtherToken # tokens_of nested_document, e)\<rparr>) 5)
     (demo_request ''PROPFIND'' ''/'' [] []) =
   Some (empty_propfind\<lparr>pf_names := [(davNS, ''foo''), (''urn:x'', ''b'')]\<rparr>)"
proof -
  let ?h = "mem_handler False (demo_std\<lparr>std_xml := \<lambda>b e. (OtherToken # tokens_of nested_document, e)\<rparr>) 5"
  have "xml_input ?h (demo_request ''PROPFIND'' ''/'' [] []) = ([OtherToken] @ tokens_of nested_document @ [], None)"
    by (simp add: xml_input_def mem_handler_def base_handler_def demo_request_def maxPropfindBody_def)
  moreover have "propfind_document nested_document = Some (empty_propfind\<lparr>pf_names := [(davNS, ''foo''), (''urn:x'', ''b'')]\<rparr>)"
    by (simp add: propfind_document_def nested_document_def propfind_child_def empty_propfind_def)
  moreover have "well_formed nested_document" by (simp add: nested_document_def)
  ultimately show ?thesis
    using bodies_are_documents [of nested_document "[OtherToken]" "[]" ?h "demo_request ''PROPFIND'' ''/'' [] []"] by simp
qed

context filesystem
begin

lemma proppatched:
  assumes h: "h_fs h = d" and name: "canonical name" and p: "parseProppatch h r = Some names"
    and s: "fsinv (w_fs w)" "\<not> w_mu w" and l: "ls_inv (lw_table (w_lk w))" "permitted r name (w_lk w)"
    and v: "view (w_fs w) name = Some nd"
  shows "wp (serveProppatch h ws r name) w (\<lambda>resp w'.
    outcome fsinv view (StatusMulti, view (w_fs w)) (locks_at (w_lk w)) resp w' \<and>
    rs_body resp = Multistatus [propstat_row (hrefOf h name (nd = DirNode))
      [newPropstat StatusForbidden (map (\<lambda>n. \<lparr>pr_name = n, pr_inner = []\<rparr>) names)]])"
  using s l name v unfolding serveProppatch_def
  by (auto simp: wp_simps p told_Some writeMultistatus_def respond_with_def intro!: wp_checkLocks wp_info [OF h])

end

text \<open>
  C25. \<open>PROPPATCH\<close> stores nothing and says so: every property it would set or remove is answered 403 in
  the one row of a 207, in the order of the request, and neither the tree nor a live lock changes.
\<close>

theorem proppatch_refuses:
  assumes "filesystem d fsinv view" and "h_fs h = d" and "accepted h r name" and "rq_method r = ''PROPPATCH''"
    and "parseProppatch h r = Some names" and "fsinv (w_fs w)" and "\<not> w_mu w"
    and "ls_inv (lw_table (w_lk w))" and "permitted r name (w_lk w)" and "view (w_fs w) name = Some nd"
  shows "wp (ServeHTTP h r) w (\<lambda>resp w'.
    outcome fsinv view (StatusMulti, view (w_fs w)) (locks_at (w_lk w)) resp w' \<and>
    rs_body resp = Multistatus [propstat_row (hrefOf h name (nd = DirNode))
      [newPropstat StatusForbidden (map (\<lambda>n. \<lparr>pr_name = n, pr_inner = []\<rparr>) names)]])"
proof -
  have "ServeHTTP h r = serveProppatch h (setDAV h []) r name"
    using assms(3,4) by (simp add: accepted_def ServeHTTP_def dispatch_def mutate_def Let_def)
  then show ?thesis
    using filesystem.proppatched [OF assms(1,2) accepted_canonical [OF assms(3)] assms(5-)] by simp
qed

theorem proppatch_refuses_witness:
  "wp (ServeHTTP (mem_handler False (demo_std\<lparr>std_xml := \<lambda>b e. (tokens_of (Elem (davNS, ''propertyupdate'') []
          [Elem (davNS, ''set'') [] [Elem (davNS, ''prop'') [] [Elem (''urn:x'', ''b'') [] []]]]), e)\<rparr>) 5)
      (demo_request ''PROPPATCH'' ''/d/a'' [] [])) (demo_world demo_mem)
     (\<lambda>resp w'. rs_body resp = Multistatus [propstat_row ''/d/a''
        [newPropstat StatusForbidden [\<lparr>pr_name = (''urn:x'', ''b''), pr_inner = []\<rparr>]]])"
proof -
  let ?t = "Elem (davNS, ''propertyupdate'') [] [Elem (davNS, ''set'') [] [Elem (davNS, ''prop'') [] [Elem (''urn:x'', ''b'') [] []]]]"
  let ?g = "demo_std\<lparr>std_xml := \<lambda>b e. (tokens_of ?t, e)\<rparr>"
  let ?h = "mem_handler False ?g 5" and ?r = "demo_request ''PROPPATCH'' ''/d/a'' [] []"
  have p: "resource [] ''/d/a'' = Some ''/d/a''" "canonical ''/d/a''" "href [] ''/d/a'' False = ''/d/a''" by code_simp+
  have acc: "accepted ?h ?r ''/d/a''"
    using p(1) by (simp add: accepted_def mem_handler_def base_handler_def authorise_def demo_request_def)
  have "xml_input ?h ?r = ([] @ tokens_of ?t @ [], None)"
    by (simp add: xml_input_def mem_handler_def base_handler_def demo_request_def maxPropfindBody_def)
  then have "parseProppatch ?h ?r = proppatch_document ?t" by (intro parseProppatch_document) auto
  then have n: "parseProppatch ?h ?r = Some [(''urn:x'', ''b'')]" by (simp add: proppatch_document_def davNS_def)
  have "h_prefix ?h = []" by (simp add: mem_handler_def base_handler_def)
  then show ?thesis
    using proppatch_refuses [where d = "mem_driver False" and fsinv = mem_inv and view = mem_view and w = "demo_world demo_mem",
        OF mem.filesystem_axioms [of False] _ acc _ n] demo_mem_inv demo_permitted [OF p(2)] p(3)
    by (auto simp: demo_view intro: wp_mono)
qed

end
