(* ===== verification/GoFlag.thy ===== *)
theory GoFlag
  imports GoStrings
begin

text \<open>
  \<open>flag.FlagSet\<close> of the standard library with \<open>ContinueOnError\<close>, for string and bool flags: the
  flags in the order they are defined, each with its current value.
\<close>

datatype flag_value = FlagString string | FlagBool bool

type_synonym flags = "(string \<times> flag_value) list"

datatype flag_error =
    ErrHelp
  | BadFlagSyntax string
  | FlagNotDefined string
  | FlagNeedsArgument string
  | InvalidBoolean string string

text \<open>\<open>strconv.ParseBool\<close>.\<close>

definition parse_bool :: "string \<Rightarrow> bool option" where
  "parse_bool s =
     (if s \<in> set [''1'', ''t'', ''T'', ''TRUE'', ''true'', ''True''] then Some True
      else if s \<in> set [''0'', ''f'', ''F'', ''FALSE'', ''false'', ''False''] then Some False
      else None)"

definition set_flag :: "string \<Rightarrow> flag_value \<Rightarrow> flags \<Rightarrow> flags" where
  "set_flag n v fs = map (\<lambda>(k, u). (k, if k = n then v else u)) fs"

text \<open>
  \<open>Parse\<close>: the flags as far as they go, then the arguments that are left. A bool flag takes its
  value only after \<open>=\<close>, a string flag also from the next argument.
\<close>

definition flag_name :: "string \<Rightarrow> string" where
  "flag_name s = (if s ! 1 = CHR ''-'' then drop 2 s else drop 1 s)"

definition split_flag :: "string \<Rightarrow> string \<times> string option" where
  "split_flag n = (case cut n CHR ''='' of None \<Rightarrow> (n, None) | Some (k, v) \<Rightarrow> (k, Some v))"

datatype flag_step = Stop "string list" | Next flags "string list" | Refuse flag_error

text \<open>\<open>parseOne\<close>, from the point where the flag is known.\<close>

definition take_value :: "flags \<Rightarrow> string \<Rightarrow> flag_value \<Rightarrow> string option \<Rightarrow> string list \<Rightarrow> flag_step" where
  "take_value fs n u value args =
     (case (u, value) of
        (FlagBool _, None) \<Rightarrow> Next (set_flag n (FlagBool True) fs) args
      | (FlagBool _, Some v) \<Rightarrow>
          (case parse_bool v of
             None \<Rightarrow> Refuse (InvalidBoolean v n)
           | Some b \<Rightarrow> Next (set_flag n (FlagBool b) fs) args)
      | (FlagString _, Some v) \<Rightarrow> Next (set_flag n (FlagString v) fs) args
      | (FlagString _, None) \<Rightarrow>
          (case args of
             [] \<Rightarrow> Refuse (FlagNeedsArgument n)
           | v # args' \<Rightarrow> Next (set_flag n (FlagString v) fs) args'))"

definition parse_one :: "flags \<Rightarrow> string \<Rightarrow> string list \<Rightarrow> flag_step" where
  "parse_one fs s args =
     (if length s < 2 \<or> s ! 0 \<noteq> CHR ''-'' then Stop (s # args)
      else if s = ''--'' then Stop args
      else if flag_name s = [] \<or> flag_name s ! 0 \<in> {CHR ''-'', CHR ''=''} then Refuse (BadFlagSyntax s)
      else (case split_flag (flag_name s) of (n, value) \<Rightarrow>
        (case map_of fs n of
           None \<Rightarrow> Refuse (if n = ''help'' \<or> n = ''h'' then ErrHelp else FlagNotDefined n)
         | Some u \<Rightarrow> take_value fs n u value args)))"

lemma take_value_args: "take_value fs n u value args = Next gs rest \<Longrightarrow> length rest \<le> length args"
  by (auto simp: take_value_def split: flag_value.splits option.splits list.splits)

lemma parse_one_args: "parse_one fs s args = Next gs rest \<Longrightarrow> length rest \<le> length args"
  by (auto simp: parse_one_def dest: take_value_args split: if_splits prod.splits option.splits)

function parse_flags :: "flags \<Rightarrow> string list \<Rightarrow> flag_error + flags \<times> string list" where
  "parse_flags fs [] = Inr (fs, [])"
| "parse_flags fs (s # args) =
     (case parse_one fs s args of
        Stop rest \<Rightarrow> Inr (fs, rest)
      | Refuse e \<Rightarrow> Inl e
      | Next gs rest \<Rightarrow> parse_flags gs rest)"
  by pat_completeness auto
termination
  by (relation "measure (\<lambda>(fs, args). length args)") (auto dest: parse_one_args)

text \<open>A set of flags keeps its names and their kinds.\<close>

definition same_kind :: "flag_value \<Rightarrow> flag_value \<Rightarrow> bool" where
  "same_kind a b \<longleftrightarrow> (\<exists>s t. a = FlagString s \<and> b = FlagString t) \<or> (\<exists>p q. a = FlagBool p \<and> b = FlagBool q)"

lemma same_kind_simps [simp]: "same_kind (FlagString s) (FlagString t)" "same_kind (FlagBool p) (FlagBool q)"
  by (auto simp: same_kind_def)

definition flags_alike :: "flags \<Rightarrow> flags \<Rightarrow> bool" where
  "flags_alike fs gs \<longleftrightarrow> list_all2 (\<lambda>(a, u) (b, v). a = b \<and> same_kind u v) fs gs"

lemma flags_alike_refl: "flags_alike fs fs"
proof -
  have "same_kind u u" for u by (cases u) (simp_all add: same_kind_def)
  then show ?thesis by (auto simp: flags_alike_def intro!: list_all2_refl)
qed

lemma flags_alike_trans: "flags_alike fs gs \<Longrightarrow> flags_alike gs hs \<Longrightarrow> flags_alike fs hs"
  unfolding flags_alike_def
  by (erule (1) list_all2_trans [rotated]) (auto simp: same_kind_def)

lemma map_fst_set_flag [simp]: "map fst (set_flag n v fs) = map fst fs"
  by (induction fs) (auto simp: set_flag_def)

lemma flags_alike_set:
  assumes "distinct (map fst fs)" and "map_of fs n = Some u" and "same_kind u v"
  shows "flags_alike fs (set_flag n v fs)"
proof -
  have "same_kind w (if k = n then v else w)" if "(k, w) \<in> set fs" for k w
  proof (cases "k = n")
    case True
    then have "w = u" using eq_key_imp_eq_value [OF assms(1)] map_of_SomeD [OF assms(2)] that by blast
    then show ?thesis using assms(3) True by simp
  next
    case False
    then show ?thesis by (cases w) (simp_all add: same_kind_def)
  qed
  then show ?thesis
    by (auto simp: flags_alike_def set_flag_def list_all2_map2 list_all2_same)
qed

lemma map_of_set_flag:
  "map_of (set_flag n v fs) k = (if k = n then map_option (\<lambda>_. v) (map_of fs n) else map_of fs k)"
  by (induction fs) (auto simp: set_flag_def)

lemma take_value_alike:
  assumes "take_value fs n u value args = Next gs rest" and "distinct (map fst fs)" and "map_of fs n = Some u"
  shows "flags_alike fs gs \<and> map fst gs = map fst fs"
proof -
  obtain v where "gs = set_flag n v fs" "same_kind u v"
    using assms(1) by (auto simp: take_value_def same_kind_def split: flag_value.splits option.splits list.splits)
  then show ?thesis using flags_alike_set [OF assms(2,3)] by simp
qed

lemma parse_one_alike:
  "parse_one fs s args = Next gs rest \<Longrightarrow> distinct (map fst fs) \<Longrightarrow> flags_alike fs gs \<and> map fst gs = map fst fs"
  by (auto simp: parse_one_def split: if_splits prod.splits option.splits dest: take_value_alike)

lemma parse_flags_alike:
  "parse_flags fs args = Inr (gs, rest) \<Longrightarrow> distinct (map fst fs) \<Longrightarrow> flags_alike fs gs"
proof (induction fs args rule: parse_flags.induct)
  case (1 fs)
  then show ?case by (simp add: flags_alike_refl)
next
  case (2 fs s args)
  show ?case
  proof (cases "parse_one fs s args")
    case (Next fs' rest')
    then have "flags_alike fs fs'" "distinct (map fst fs')" "flags_alike fs' gs"
      using parse_one_alike [OF Next] 2 by auto
    then show ?thesis using flags_alike_trans by blast
  qed (use 2 flags_alike_refl in auto)
qed

end
