(* ===== verification/Demo.thy ===== *)
theory Demo
  imports GoFlag Server DriverLaws
begin

text \<open>
  \<open>fat32demo/demo/demo.go\<close>: the command that serves a disk image. The operating system, the
  \<open>fat32\<close> driver and the accept loop of \<open>net/http\<close> are parameters (\<open>host\<close>); what the command
  itself decides is which of them it calls, in which order, what it prints and its exit status.
\<close>

section \<open>The surroundings of the command\<close>

text \<open>
  What the command opens and closes, in order. \<open>Serve\<close> closes the listener it is given before it
  returns (\<open>net/http\<close>).
\<close>

datatype demo_event =
    FsOpened string
  | FsClosed
  | ListenerOpened string
  | ListenerClosed
  | Serving

record 's console =
  co_fs :: 's
  co_out :: string
  co_err :: string
  co_log :: "demo_event list"

text \<open>
  \<open>ho_stat\<close> is the size \<open>os.Stat\<close> reports, \<open>ho_listen\<close> the address a listener is bound to,
  \<open>ho_serve\<close> the error \<open>http.Server.Serve\<close> ends with after it served the handler,
  \<open>ho_quote\<close> is \<open>strconv.Quote\<close>; the rest is what \<open>webdav.New\<close> draws from its surroundings.
\<close>

record ('s, 'f) host =
  ho_stat :: "string \<Rightarrow> go_error + int"
  ho_open :: "string \<Rightarrow> ('s, go_error + ('s, 'f) driver) state"
  ho_close :: "('s, unit) state"
  ho_listen :: "string \<Rightarrow> go_error + string"
  ho_serve :: "('s, 'f) handler \<times> lockSystem \<Rightarrow> ('s, go_error) state"
  ho_quote :: "string \<Rightarrow> string"
  ho_std :: std
  ho_now :: int
  ho_fuel :: nat
  ho_random :: "go_error + bytes"

text \<open>The \<open>io.Writer\<close>s the command is run with, and \<open>io.Discard\<close>.\<close>

datatype writer = Stdout | Stderr | Discard

definition fprint :: "writer \<Rightarrow> string \<Rightarrow> 's console \<Rightarrow> 's console" where
  "fprint wr t c =
     (case wr of
        Stdout \<Rightarrow> c\<lparr>co_out := co_out c @ t\<rparr>
      | Stderr \<Rightarrow> c\<lparr>co_err := co_err c @ t\<rparr>
      | Discard \<Rightarrow> c)"

definition newline :: string where "newline = [CHR 10]"

definition log_event :: "demo_event \<Rightarrow> 's console \<Rightarrow> 's console" where
  "log_event e c = c\<lparr>co_log := co_log c @ [e]\<rparr>"

definition on_fs :: "('s, 'a) state \<Rightarrow> 's console \<Rightarrow> 'a \<times> 's console" where
  "on_fs m c = (case run_state m (co_fs c) of (x, s) \<Rightarrow> (x, c\<lparr>co_fs := s\<rparr>))"

definition close_fs :: "('s, 'f) host \<Rightarrow> 's console \<Rightarrow> 's console" where
  "close_fs ho c = log_event FsClosed (snd (on_fs (ho_close ho) c))"

section \<open>Setup\<close>

text \<open>\<open>newHandler\<close> is \<open>webdav.New\<close>; its errors as Go values.\<close>

fun new_error_value :: "new_error \<Rightarrow> go_error" where
  "new_error_value ErrNilFilesystem = plain_error ''webdav: nil filesystem''"
| "new_error_value ErrPrefix =
     plain_error ''webdav: prefix must be a clean absolute path with no trailing slash''"
| "new_error_value ErrNilVerifier = plain_error ''webdav: nil credential verifier''"
| "new_error_value (ErrRandom e) = e"

definition newHandler ::
  "('s, 'f) host \<Rightarrow> ('s, 'f) driver \<Rightarrow> 's handler_option list \<Rightarrow> go_error + ('s, 'f) handler \<times> lockSystem" where
  "newHandler ho d opts =
     map_sum new_error_value id (New (Some d) (ho_std ho) (ho_now ho) (ho_fuel ho) (ho_random ho) opts)"

definition banner_text :: "string \<Rightarrow> string \<Rightarrow> string" where
  "banner_text img a =
     ''serving '' @ img @ '' on http://'' @ a @ ''/'' @ newline @
     ''  curl:   curl -s http://'' @ a @ ''/'' @ newline @
     ''  Finder: Go > Connect to Server > http://'' @ a @ ''/'' @ newline @
     ''  mount:  sudo mount_webdav -S http://'' @ a @ ''/ /Volumes/img   (macOS, needs root)'' @ newline"

text \<open>
  \<open>Setup\<close> returns the handler, the filesystem and the listener it leaves open to its caller.
\<close>

definition Setup ::
  "('s, 'f) host \<Rightarrow> string \<Rightarrow> string \<Rightarrow> bool \<Rightarrow> writer \<Rightarrow> 's console \<Rightarrow>
   (go_error + (('s, 'f) handler \<times> lockSystem) \<times> ('s, 'f) driver \<times> string) \<times> 's console" where
  "Setup ho img addr readWrite out c =
     (case ho_stat ho img of
        Inl err \<Rightarrow> (Inl err, c)
      | Inr fsize \<Rightarrow>
     (case on_fs (ho_open ho img) c of
        (Inl err, c) \<Rightarrow> (Inl err, c)
      | (Inr d, c) \<Rightarrow>
     (let c = log_event (FsOpened img) c;
          opts = [WithCapacity (word_of_int fsize) 0] @ (if readWrite then [ReadWrite] else [])
      in case newHandler ho d opts of
        Inl err \<Rightarrow> (Inl err, close_fs ho c)
      | Inr h \<Rightarrow>
     (case ho_listen ho addr of
        Inl err \<Rightarrow> (Inl err, close_fs ho c)
      | Inr ln \<Rightarrow>
          (Inr (h, d, ln), fprint out (banner_text img ln) (log_event (ListenerOpened ln) c))))))"

section \<open>Digest and Main\<close>

definition Digest :: "('s, 'f) host \<Rightarrow> ('s, 'f) driver \<Rightarrow> path \<Rightarrow> 's console \<Rightarrow> (go_error + string) \<times> 's console" where
  "Digest ho d p c =
     (case on_fs (drv_ReadFile d p) c of
        (Inl err, c) \<Rightarrow> (Inl err, c)
      | (Inr b, c) \<Rightarrow> (Inr (hex_encode (std_sha256 (ho_std ho) b)), c))"

definition serveHTTP ::
  "('s, 'f) host \<Rightarrow> ('s, 'f) handler \<times> lockSystem \<Rightarrow> 's console \<Rightarrow> go_error \<times> 's console" where
  "serveHTTP ho h c =
     (case on_fs (ho_serve ho h) (log_event Serving c) of (err, c) \<Rightarrow> (err, log_event ListenerClosed c))"

definition demo_flags :: flags where
  "demo_flags =
     [(''image'', FlagString []), (''addr'', FlagString ''127.0.0.1:8080''), (''rw'', FlagBool False),
      (''digest'', FlagString [])]"

definition demo_usage :: string where
  \<open>demo_usage =
     ''Usage of fat32demo:'' @ newline @
     ''  -addr string'' @ newline @ ''    '' @ [CHR 9] @ ''listen address (default "127.0.0.1:8080")'' @ newline @
     ''  -digest string'' @ newline @ ''    '' @ [CHR 9] @
       ''print the driver'' @ [CHR 39] @ ''s SHA-256 of this path and exit'' @ newline @
     ''  -image string'' @ newline @ ''    '' @ [CHR 9] @ ''path to a FAT32 image'' @ newline @
     ''  -rw'' @ newline @ ''    '' @ [CHR 9] @ ''export read-write (default read-only)'' @ newline\<close>

text \<open>What \<open>Parse\<close> prints before it returns an error.\<close>

fun flag_message :: "('s, 'f) host \<Rightarrow> flag_error \<Rightarrow> string" where
  "flag_message ho ErrHelp = demo_usage"
| "flag_message ho (BadFlagSyntax s) = ''bad flag syntax: '' @ s @ newline @ demo_usage"
| "flag_message ho (FlagNotDefined n) = ''flag provided but not defined: -'' @ n @ newline @ demo_usage"
| "flag_message ho (FlagNeedsArgument n) = ''flag needs an argument: -'' @ n @ newline @ demo_usage"
| "flag_message ho (InvalidBoolean v n) =
     ''invalid boolean value '' @ ho_quote ho v @ '' for -'' @ n @ '': parse error'' @ newline @ demo_usage"

definition string_flag :: "flags \<Rightarrow> string \<Rightarrow> string" where
  "string_flag fs n = (case map_of fs n of Some (FlagString s) \<Rightarrow> s | _ \<Rightarrow> [])"

definition bool_flag :: "flags \<Rightarrow> string \<Rightarrow> bool" where
  "bool_flag fs n = (case map_of fs n of Some (FlagBool b) \<Rightarrow> b | _ \<Rightarrow> False)"

definition complain :: "go_error \<Rightarrow> 's console \<Rightarrow> 's console" where
  "complain err = fprint Stderr (''fat32demo: '' @ err_text err @ newline)"

text \<open>
  \<open>Main\<close> after its flags are parsed; the deferred \<open>Close\<close> of the filesystem comes last on every
  path after \<open>Setup\<close>.
\<close>

definition serve_image ::
  "('s, 'f) host \<Rightarrow> string \<Rightarrow> string \<Rightarrow> bool \<Rightarrow> string \<Rightarrow> 's console \<Rightarrow> nat \<times> 's console" where
  "serve_image ho img addr rw digest c =
     (case Setup ho img addr rw (if digest \<noteq> [] then Discard else Stdout) c of
        (Inl err, c) \<Rightarrow> (1, complain err c)
      | (Inr (h, d, ln), c) \<Rightarrow>
          if digest \<noteq> [] then
            (case Digest ho d digest (log_event ListenerClosed c) of
               (Inl err, c) \<Rightarrow> (1, close_fs ho (complain err c))
             | (Inr digits, c) \<Rightarrow> (0, close_fs ho (fprint Stdout (digits @ newline) c)))
          else
            (case serveHTTP ho h c of (err, c) \<Rightarrow> (1, close_fs ho (complain err c))))"

definition Main :: "('s, 'f) host \<Rightarrow> string list \<Rightarrow> 's console \<Rightarrow> nat \<times> 's console" where
  "Main ho args c =
     (case parse_flags demo_flags args of
        Inl err \<Rightarrow> (2, fprint Stderr (flag_message ho err) c)
      | Inr (fs, _) \<Rightarrow>
          serve_image ho (string_flag fs ''image'') (string_flag fs ''addr'') (bool_flag fs ''rw'')
            (string_flag fs ''digest'') c)"

text \<open>\<open>main.go\<close>: the process exits with what \<open>Main\<close> returns for its arguments after the program's name.\<close>

definition demo_main :: "('s, 'f) host \<Rightarrow> string list \<Rightarrow> 's console \<Rightarrow> nat \<times> 's console" where
  "demo_main ho os_args = Main ho (drop 1 os_args)"

end
