(* ===== verification/DemoSpecs.thy ===== *)
theory DemoSpecs
  imports Demo Effects
begin

text \<open>
  What the command of \<open>fat32demo\<close> guarantees: its flags are read as they are written, everything it
  opens is closed again, and the digest it prints is that of the driver's bytes.
\<close>

section \<open>Rendering flags\<close>

definition show_flag :: "string \<times> flag_value \<Rightarrow> string" where
  "show_flag f =
     (case f of
        (n, FlagString v) \<Rightarrow> ''-'' @ n @ ''='' @ v
      | (n, FlagBool b) \<Rightarrow> ''-'' @ n @ ''='' @ (if b then ''true'' else ''false''))"

definition flag_name_ok :: "string \<Rightarrow> bool" where
  "flag_name_ok n \<longleftrightarrow> n \<noteq> [] \<and> n ! 0 \<noteq> CHR ''-'' \<and> CHR ''='' \<notin> set n"

lemma parse_one_show:
  assumes "flag_name_ok n" and "map_of fs n = Some u" and "same_kind u v"
  shows "parse_one fs (show_flag (n, v)) args = Next (set_flag n v fs) args"
proof -
  have n: "n \<noteq> []" "n ! 0 \<noteq> CHR ''-''" "CHR ''='' \<notin> set n" using assms(1) by (simp_all add: flag_name_ok_def)
  then have first: "n ! 0 \<noteq> CHR ''=''" by (metis length_greater_0_conv nth_mem)
  define t where "t = (case v of FlagString s \<Rightarrow> s | FlagBool b \<Rightarrow> if b then ''true'' else ''false'')"
  have s: "show_flag (n, v) = CHR ''-'' # n @ CHR ''='' # t"
    by (simp add: show_flag_def t_def split: flag_value.split)
  have name: "flag_name (CHR ''-'' # n @ CHR ''='' # t) = n @ CHR ''='' # t"
    using n(1,2) by (simp add: flag_name_def nth_append)
  have "split_flag (n @ CHR ''='' # t) = (n, Some t)"
    using n(3) by (simp add: split_flag_def cut_append)
  moreover have "take_value fs n u (Some t) args = Next (set_flag n v fs) args"
    using assms(3) by (auto simp: take_value_def t_def same_kind_def parse_bool_def)
  moreover have "n @ CHR ''='' # t \<noteq> ''-''" using n(1) by (cases n) auto
  ultimately show ?thesis
    using n first assms(2) by (simp add: s parse_one_def name nth_append Cons_eq_append_conv)
qed

lemma parse_flags_show:
  assumes "distinct (map fst gs)"
    and "\<forall>(n, v) \<in> set gs. flag_name_ok n \<and> (\<exists>u. map_of fs n = Some u \<and> same_kind u v)"
  shows "parse_flags fs (map show_flag gs) = Inr (foldl (\<lambda>f (n, v). set_flag n v f) fs gs, [])"
  using assms
proof (induction gs arbitrary: fs)
  case (Cons g gs)
  obtain n v where g: "g = (n, v)" by (cases g)
  have "\<forall>(m, w) \<in> set gs. flag_name_ok m \<and> (\<exists>u. map_of (set_flag n v fs) m = Some u \<and> same_kind u w)"
  proof safe
    fix m w assume mw: "(m, w) \<in> set gs"
    then show "flag_name_ok m" using Cons.prems(2) by auto
    have "m \<noteq> n" using mw Cons.prems(1) g by (force simp: image_iff)
    then show "\<exists>u. map_of (set_flag n v fs) m = Some u \<and> same_kind u w"
      using mw Cons.prems(2) by (auto simp: map_of_set_flag)
  qed
  then show ?case using Cons.IH [of "set_flag n v fs"] Cons.prems g by (auto simp: parse_one_show)
qed simp

lemma foldl_set_flag:
  assumes "distinct (map fst gs)" and "list_all2 (\<lambda>a b. fst a = fst b) fs gs" 
  shows "foldl (\<lambda>f (n, v). set_flag n v f) fs gs = gs"
proof -
  have skip: "set_flag n v fs = fs" if "n \<notin> fst ` set fs" for n v and fs :: flags
    using that by (induction fs) (auto simp: set_flag_def)
  have cons: "foldl (\<lambda>f (n, v). set_flag n v f) ((k, u) # fs) gs = (k, u) # foldl (\<lambda>f (n, v). set_flag n v f) fs gs"
    if "k \<notin> fst ` set gs" for k u and fs gs :: flags
    using that by (induction gs arbitrary: fs) (auto simp: set_flag_def)
  show ?thesis
    using assms(2,1)
  proof (induction fs gs rule: list_all2_induct)
    case (Cons f fs g gs)
    obtain n u v where fg: "f = (n, u)" "g = (n, v)" using Cons(1) by (cases f; cases g) auto
    have "map fst fs = map fst gs" using Cons(2) by (induction rule: list_all2_induct) auto
    then have "n \<notin> fst ` set fs" using Cons.prems fg by (metis distinct.simps(2) fst_conv list.map(2) list.set_map)
    then have "set_flag n v (f # fs) = g # fs" using skip [of n fs v] fg by (simp add: set_flag_def)
    then show ?case using Cons cons [of n gs v fs] fg by simp
  qed simp
qed

text \<open>
  Command-line flags round trip: rendered as \<open>-name=value\<close>, the values of a set of flags are read back as
  they were, whatever the strings hold.
\<close>

theorem flags_roundtrip:
  assumes "flags_alike fs gs" and "distinct (map fst fs)" and "\<forall>f \<in> set fs. flag_name_ok (fst f)"
  shows "parse_flags fs (map show_flag gs) = Inr (gs, [])"
proof -
  have fst: "list_all2 (\<lambda>a b. fst a = fst b) fs gs"
    using assms(1) unfolding flags_alike_def by (rule list_all2_mono) auto
  then have names: "map fst fs = map fst gs" by (induction rule: list_all2_induct) auto
  have "\<forall>(n, v) \<in> set gs. flag_name_ok n \<and> (\<exists>u. map_of fs n = Some u \<and> same_kind u v)"
  proof safe
    fix n v assume nv: "(n, v) \<in> set gs"
    then obtain u where "(n, u) \<in> set fs" "same_kind u v"
      using assms(1) by (auto simp: flags_alike_def list_all2_conv_all_nth in_set_conv_nth split_beta)
        (metis fst_conv nth_mem snd_conv surjective_pairing)
    then show "flag_name_ok n" "\<exists>u. map_of fs n = Some u \<and> same_kind u v"
      using assms(2,3) by auto
  qed
  then show ?thesis
    using parse_flags_show [of gs fs] foldl_set_flag [OF _ fst] assms(2) names by simp
qed

theorem flags_roundtrip_witness:
  "parse_flags demo_flags [''-image=-i'', ''-addr=a=b'', ''-rw=true'', ''-digest=''] =
     Inr ([(''image'', FlagString ''-i''), (''addr'', FlagString ''a=b''), (''rw'', FlagBool True),
       (''digest'', FlagString [])], [])"
proof -
  let ?gs = "[(''image'', FlagString ''-i''), (''addr'', FlagString ''a=b''), (''rw'', FlagBool True),
       (''digest'', FlagString [])]"
  have "flags_alike demo_flags ?gs" by (simp add: flags_alike_def demo_flags_def)
  moreover have "distinct (map fst demo_flags)" "\<forall>f \<in> set demo_flags. flag_name_ok (fst f)" by code_simp+
  moreover have "map show_flag ?gs = [''-image=-i'', ''-addr=a=b'', ''-rw=true'', ''-digest='']"
    by (simp add: show_flag_def)
  ultimately show ?thesis using flags_roundtrip [of demo_flags ?gs] by simp
qed

section \<open>What is opened and closed\<close>

lemma on_fs_log [simp]: "on_fs m c = (x, c') \<Longrightarrow> co_log c' = co_log c \<and> co_out c' = co_out c \<and> co_err c' = co_err c"
  by (auto simp: on_fs_def split: prod.splits)

lemma on_fs_keeps [simp]:
  "co_log (snd (on_fs m c)) = co_log c" "co_out (snd (on_fs m c)) = co_out c" "co_err (snd (on_fs m c)) = co_err c"
  by (simp_all add: on_fs_def split: prod.splits)

lemma log_fprint [simp]: "co_log (fprint wr t c) = co_log c"
  by (simp add: fprint_def split: writer.split)

lemma log_complain [simp]: "co_log (complain err c) = co_log c"
  by (simp add: complain_def)

lemma log_log_event [simp]: "co_log (log_event e c) = co_log c @ [e]"
  by (simp add: log_event_def)

lemma log_close_fs [simp]: "co_log (close_fs ho c) = co_log c @ [FsClosed]"
  by (simp add: close_fs_def)

lemma Setup_log:
  assumes "Setup ho img addr rw out c = (r, c')"
  shows "case r of
      Inl _ \<Rightarrow> co_log c' \<in> {co_log c, co_log c @ [FsOpened img, FsClosed]}
    | Inr (h, d, ln) \<Rightarrow> co_log c' = co_log c @ [FsOpened img, ListenerOpened ln]"
  using assms
  by (auto simp: Setup_def Let_def split: sum.splits prod.splits if_splits)

lemma Digest_log: "Digest ho d p c = (r, c') \<Longrightarrow> co_log c' = co_log c"
  by (auto simp: Digest_def split: sum.splits prod.splits)

lemma serveHTTP_log: "serveHTTP ho h c = (r, c') \<Longrightarrow> co_log c' = co_log c @ [Serving, ListenerClosed]"
  by (auto simp: serveHTTP_def split: prod.splits)

text \<open>The exit statuses with what was opened and closed on the way to them.\<close>

definition lifecycles :: "(nat \<times> demo_event list) set" where
  "lifecycles =
     {(2, []), (1, [])} \<union>
     (\<Union>img a. {(1, [FsOpened img, FsClosed]),
        (0, [FsOpened img, ListenerOpened a, ListenerClosed, FsClosed]),
        (1, [FsOpened img, ListenerOpened a, ListenerClosed, FsClosed]),
        (1, [FsOpened img, ListenerOpened a, Serving, ListenerClosed, FsClosed])})"

lemma serve_image_log:
  "case serve_image ho img addr rw dig c of (code, c') \<Rightarrow>
     \<exists>es. co_log c' = co_log c @ es \<and> (code, es) \<in> lifecycles"
proof -
  define out where "out = (if dig \<noteq> [] then Discard else Stdout)"
  obtain r c1 where s: "Setup ho img addr rw out c = (r, c1)" by fastforce
  note run = serve_image_def [of ho img addr rw dig c, folded out_def] s
  show ?thesis
  proof (cases r)
    case (Inl e)
    then show ?thesis using Setup_log [OF s] by (auto simp: run lifecycles_def)
  next
    case (Inr t)
    obtain h d ln where t: "t = (h, d, ln)" by (cases t) auto
    have c1: "co_log c1 = co_log c @ [FsOpened img, ListenerOpened ln]" using Setup_log [OF s] Inr t by simp
    show ?thesis
    proof (cases "dig = []")
      case True
      obtain e c2 where x: "serveHTTP ho h c1 = (e, c2)" by fastforce
      show ?thesis unfolding run using c1 True serveHTTP_log [OF x] by (auto simp: Inr t x lifecycles_def)
    next
      case False
      obtain x c2 where x: "Digest ho d dig (log_event ListenerClosed c1) = (x, c2)" by fastforce
      show ?thesis unfolding run using c1 False Digest_log [OF x] by (cases x) (auto simp: Inr t x lifecycles_def)
    qed
  qed
qed

text \<open>
  C38. Whatever the arguments and the surroundings, the command closes what it opened, in this
  order: the listener, which it also closes when it only prints a digest, then the filesystem. Its
  exit status is 2 for arguments it cannot parse, 0 for a digest it printed and 1 otherwise; a
  filesystem is opened before the listener, and a listener that cannot be had closes it again.
\<close>

theorem Main_closes:
  "case Main ho args c of (code, c') \<Rightarrow> \<exists>es. co_log c' = co_log c @ es \<and> (code, es) \<in> lifecycles"
proof (cases "parse_flags demo_flags args")
  case (Inl e)
  then show ?thesis by (simp add: Main_def lifecycles_def)
next
  case (Inr a)
  then show ?thesis using serve_image_log [where ho = ho] by (cases a) (simp add: Main_def)
qed

text \<open>
  What \<open>Setup\<close> serves is exactly the filesystem it opened, read-only unless \<open>-rw\<close> was given,
  under no prefix, without authentication, with the size of the image as its capacity and an empty
  lock table.
\<close>

theorem Setup_exports:
  assumes "Setup ho img addr rw out c = (Inr ((h, locks), d, ln), c')"
  shows "\<exists>n. ho_stat ho img = Inr n \<and> ho_listen ho addr = Inr ln \<and>
    h = (base_handler d (ho_std ho) (ho_now ho) (ho_fuel ho))\<lparr>h_ro := \<not> rw, h_total := word_of_int n\<rparr> \<and>
    locks = empty_locks"
  using assms
  by (auto simp: Setup_def Let_def newHandler_def New_def newLockSystem_def option_defs base_handler_def map_sum_def
      split: sum.splits prod.splits if_splits)


lemma parse_digest_args:
  "parse_flags demo_flags [''-image'', img, ''-digest'', p] =
     Inr ([(''image'', FlagString img), (''addr'', FlagString ''127.0.0.1:8080''), (''rw'', FlagBool False),
        (''digest'', FlagString p)], [])"
  by (simp add: demo_flags_def parse_one_def flag_name_def split_flag_def cut_def take_value_def set_flag_def)

section \<open>The digest\<close>

context filesystem
begin

lemma digest_prints:
  assumes "ho_stat ho img = Inr n" and "run_state (ho_open ho img) (co_fs c) = (Inr d, s)"
    and "ho_random ho = Inr r" and "ho_listen ho addr = Inr a"
    and "fsinv s" and "view s p = Some (FileNode b)" and "p \<noteq> []"
  shows "\<exists>c' s'. serve_image ho img addr rw p c = (0, c') \<and>
    co_out c' = co_out c @ hex_encode (std_sha256 (ho_std ho) b) @ newline \<and> co_err c' = co_err c \<and>
    fsinv s' \<and> view s' = view s \<and> co_fs c' = snd (run_state (ho_close ho) s')"
proof -
  obtain x s' where r: "run_state (drv_ReadFile d p) s = (x, s')" by fastforce
  have x: "fsinv s'" "view s' = view s" "x = Inr b" using ReadFile [OF assms(5,6) r] by auto
  obtain h where h: "newHandler ho d ([WithCapacity (word_of_int n) 0] @ (if rw then [ReadWrite] else [])) = Inr h"
    using assms(3)
    by (cases "newHandler ho d ([WithCapacity (word_of_int n) 0] @ (if rw then [ReadWrite] else []))")
      (auto simp: newHandler_def New_def newLockSystem_def option_defs map_sum_def split: if_splits)
  show ?thesis
    using assms x h r
    by (auto simp: serve_image_def Setup_def on_fs_def Let_def Digest_def fprint_def log_event_def close_fs_def
        split: prod.splits)
qed

end

text \<open>
  \<open>-image i -digest p\<close> prints the SHA-256 of the bytes the driver holds at \<open>p\<close>, and nothing
  else, on the standard output, exits with 0 and leaves the tree of the image as it was.
\<close>

theorem Main_digest:
  assumes "filesystem d fsinv view"
    and "ho_stat ho img = Inr n" and "run_state (ho_open ho img) (co_fs c) = (Inr d, s)"
    and "ho_random ho = Inr r" and "ho_listen ho ''127.0.0.1:8080'' = Inr a"
    and "fsinv s" and "view s p = Some (FileNode b)" and "p \<noteq> []"
  shows "\<exists>c' s'. Main ho [''-image'', img, ''-digest'', p] c = (0, c') \<and>
    co_out c' = co_out c @ hex_encode (std_sha256 (ho_std ho) b) @ newline \<and> co_err c' = co_err c \<and>
    fsinv s' \<and> view s' = view s \<and> co_fs c' = snd (run_state (ho_close ho) s')"
proof -
  have "Main ho [''-image'', img, ''-digest'', p] c = serve_image ho img ''127.0.0.1:8080'' False p c"
    by (simp only: Main_def parse_digest_args) (simp add: string_flag_def bool_flag_def)
  then show ?thesis using filesystem.digest_prints [OF assms, of False] by simp
qed

section \<open>A small host\<close>

definition image_host :: "(memFS, nat) host" where
  "image_host =
     \<lparr>ho_stat = (\<lambda>i. if i = ''disk'' then Inr 512 else Inl (plain_error ''no such file'')),
      ho_open = (\<lambda>i. State_Monad.return (Inr (mem_driver False))), ho_close = State_Monad.return (),
      ho_listen = (\<lambda>a. Inr a), ho_serve = (\<lambda>h. State_Monad.return (plain_error ''closed'')),
      ho_quote = (\<lambda>t. t), ho_std = demo_std, ho_now = 0, ho_fuel = 5, ho_random = Inr (replicate 16 (CHR ''x''))\<rparr>"

definition image_console :: "memFS console" where
  "image_console = \<lparr>co_fs = demo_mem, co_out = [], co_err = [], co_log = []\<rparr>"

theorem Main_digest_witness:
  "\<exists>c' s'. Main image_host [''-image'', ''disk'', ''-digest'', ''/d/a''] image_console = (0, c') \<and>
     co_out c' = ''68656c6c6f'' @ newline \<and> co_err c' = [] \<and>
     mem_inv s' \<and> mem_view s' = mem_view demo_mem \<and> co_fs c' = s'"
proof -
  have x: "hex_encode ''hello'' = ''68656c6c6f''" by code_simp
  show ?thesis
    using Main_digest [OF mem.filesystem_axioms [of False], of image_host "''disk''" 512 image_console demo_mem
        "replicate 16 (CHR ''x'')" "''127.0.0.1:8080''" "''/d/a''" "''hello''"]
    by (simp add: image_host_def image_console_def demo_mem_inv demo_view demo_std_def x)
qed

theorem Setup_exports_witness:
  "\<exists>h ls d ln c'. Setup image_host ''disk'' ''a'' True Stdout image_console = (Inr ((h, ls), d, ln), c') \<and>
     \<not> h_ro h \<and> h_total h = 512 \<and> h_prefix h = [] \<and> h_basic h = None \<and> h_bearer h = None"
proof -
  have "\<not> isl (fst (Setup image_host ''disk'' ''a'' True Stdout image_console))"
    by (simp add: Setup_def Let_def newHandler_def New_def newLockSystem_def option_defs image_host_def on_fs_def)
  then obtain h ls d ln c' where s: "Setup image_host ''disk'' ''a'' True Stdout image_console = (Inr ((h, ls), d, ln), c')"
    by (metis fst_conv isl_def prod.exhaust_sel sum.exhaust_sel)
  have "ho_stat image_host ''disk'' = Inr 512" by (simp add: image_host_def)
  then have "\<not> h_ro h \<and> h_total h = 512 \<and> h_prefix h = [] \<and> h_basic h = None \<and> h_bearer h = None"
    using Setup_exports [OF s] by (auto simp: base_handler_def)
  then show ?thesis using s by blast
qed


end
