(* ===== verification/Content.thy ===== *)
theory Content
  imports ServeContent
begin

text \<open>
  What \<open>ServeContent\<close> answers, as a function of the bytes of the content: reading them piece by piece,
  however large the pieces, gives the same answer as having them all.
\<close>

section \<open>Reading piece by piece\<close>

definition piece :: "bytes \<Rightarrow> int \<Rightarrow> int \<Rightarrow> bytes" where
  "piece b off n = take (nat n) (drop (nat off) b)"

text \<open>
  \<open>honest b io\<close>: for a content \<open>b\<close>, the reads are inside it, and it makes no difference whether the last
  bytes come with an \<open>EOF\<close>; \<open>served b io\<close> is the answer.
\<close>

primrec honest :: "bytes \<Rightarrow> go_error \<Rightarrow> serve_io \<Rightarrow> bool" where
  "honest b eof (Served resp) \<longleftrightarrow> True"
| "honest b eof (ReadPiece off n k) \<longleftrightarrow>
     0 \<le> off \<and> 0 \<le> n \<and> off + n \<le> int (length b) \<and>
     (off + n = int (length b) \<longrightarrow> k (piece b off n, Some eof) = k (piece b off n, None)) \<and>
     honest b eof (k (piece b off n, None))"

primrec served :: "bytes \<Rightarrow> serve_io \<Rightarrow> http_response" where
  "served b (Served resp) = resp"
| "served b (ReadPiece off n k) = served b (k (piece b off n, None))"

lemma length_piece: "0 \<le> off \<Longrightarrow> 0 \<le> n \<Longrightarrow> off + n \<le> int (length b) \<Longrightarrow> length (piece b off n) = nat n"
  by (simp add: piece_def)

lemma piece_append:
  assumes "0 \<le> off" and "0 \<le> n" and "0 \<le> m"
  shows "piece b off n @ piece b (off + n) m = piece b off (n + m)"
proof -
  have "nat (n + m) = nat n + nat m" "nat (off + n) = nat n + nat off" using assms by simp_all
  then show ?thesis unfolding piece_def by (simp add: take_add)
qed

lemma piece_all [simp]: "piece b 0 (int (length b)) = b"
  by (simp add: piece_def)

lemma piece_none [simp]: "n \<le> 0 \<Longrightarrow> piece b off n = []"
  by (simp add: piece_def)

lemma take_piece [simp]: "take (nat n) (piece b off n) = piece b off n"
  by (simp add: piece_def)

lemma send_reads:
  assumes "0 \<le> off" and "0 \<le> rem" and "off + rem \<le> int (length b)"
    and "honest b eof (k (out @ piece b off rem) True)"
  shows "honest b eof (send g off rem out k) \<and> served b (send g off rem out k) = served b (k (out @ piece b off rem) True)"
  using assms
proof (induction "nat rem" arbitrary: off rem out rule: less_induct)
  case less
  show ?case
  proof (cases "rem = 0")
    case False
    define n where "n = max 1 (min rem (std_chunk g rem))"
    have n: "1 \<le> n" "n \<le> rem" using False less.prems(2) by (auto simp: n_def)
    let ?b = "piece b off n"
    have b: "length ?b = nat n" "?b \<noteq> []"
      using length_piece [of off n b] less.prems(1,3) n by auto
    have out: "(out @ ?b) @ piece b (off + n) (rem - n) = out @ piece b off rem"
      using piece_append [of off n "rem - n" b] less.prems(1) n by simp
    have ih: "honest b eof (send g (off + n) (rem - n) (out @ ?b) k) \<and>
        served b (send g (off + n) (rem - n) (out @ ?b) k) = served b (k (out @ piece b off rem) True)"
      using less.hyps [of "rem - n" "off + n" "out @ ?b"] less.prems n unfolding out by auto
    have last: "k (out @ ?b) (int (length ?b) = rem) = send g (off + n) (rem - n) (out @ ?b) k"
      if "off + n = int (length b)"
    proof -
      have "rem = n" using that n less.prems(3) by simp
      then show ?thesis using b(1) n by (simp add: send.simps [of g _ 0])
    qed
    show ?thesis
      using ih less.prems b n False last
      by (subst (1 2) send.simps) (simp add: n_def [symmetric] Let_def)
  qed (use less.prems in \<open>simp add: send.simps\<close>)
qed

section \<open>Ranges are inside the content\<close>

definition inside :: "int \<Rightarrow> byte_range \<Rightarrow> bool" where
  "inside len ra \<longleftrightarrow> 0 \<le> fst ra \<and> 0 \<le> snd ra \<and> fst ra + snd ra \<le> len"

lemma parse_byte_range_inside: "0 \<le> len \<Longrightarrow> parse_byte_range len s = Inr (Some ra) \<Longrightarrow> inside len ra"
  by (auto simp: parse_byte_range_def inside_def Let_def split: option.splits if_splits)

lemma parse_range_list_inside:
  "0 \<le> len \<Longrightarrow> parse_range_list len rs none out = Inr ras \<Longrightarrow> list_all (inside len) out \<Longrightarrow> list_all (inside len) ras"
  by (induction len rs none out rule: parse_range_list.induct)
     (auto split: if_splits sum.splits option.splits dest: parse_byte_range_inside)

lemma parseRange_inside: "0 \<le> len \<Longrightarrow> parseRange s len = Inr ras \<Longrightarrow> list_all (inside len) ras"
  by (auto simp: parseRange_def split: if_splits option.splits dest: parse_range_list_inside)

section \<open>The answer\<close>

text \<open>The body of an answer: the whole content, a slice of it, or the slices as parts.\<close>

primrec multipart :: "std \<Rightarrow> string \<Rightarrow> bytes \<Rightarrow> bool \<Rightarrow> byte_range list \<Rightarrow> bytes" where
  "multipart g ctype b first [] = closing g"
| "multipart g ctype b first (ra # ras) =
     part_header g ctype (int (length b)) first ra @ piece b (fst ra) (snd ra) @ multipart g ctype b False ras"

definition content_body :: "std \<Rightarrow> string \<Rightarrow> bytes \<Rightarrow> byte_range list \<Rightarrow> bytes" where
  "content_body g ctype b ras =
     (case ras of [] \<Rightarrow> b | [ra] \<Rightarrow> piece b (fst ra) (snd ra) | _ \<Rightarrow> multipart g ctype b True ras)"

definition copied :: "std \<Rightarrow> request \<Rightarrow> headers \<Rightarrow> string \<Rightarrow> bytes \<Rightarrow> byte_range list \<Rightarrow> http_response" where
  "copied g r w ctype b ras = respond_with (copy_headers g w ctype (int (length b)) ras)
     (if ras = [] then StatusOK else StatusPartialContent)
     (if rq_method r = ''HEAD'' then [] else content_body g ctype b ras)"

text \<open>The media type: given, by the extension, or by the first bytes.\<close>

definition media_type :: "std \<Rightarrow> headers \<Rightarrow> string \<Rightarrow> bytes \<Rightarrow> string" where
  "media_type g w name b =
     (case map_of w ''Content-Type'' of
        Some ctype \<Rightarrow> ctype
      | None \<Rightarrow> if std_mime g (path_ext name) \<noteq> [] then std_mime g (path_ext name) else std_sniff g (take 512 b))"

definition typed :: "std \<Rightarrow> headers \<Rightarrow> string \<Rightarrow> bytes \<Rightarrow> headers" where
  "typed g w name b =
     (if map_of w ''Content-Type'' = None then header_set w ''Content-Type'' (media_type g w name b) else w)"

definition ranged :: "std \<Rightarrow> request \<Rightarrow> string \<Rightarrow> bytes \<Rightarrow> headers \<Rightarrow> string \<Rightarrow> http_response" where
  "ranged g r rng b w ctype =
     (case parseRange rng (int (length b)) of
        Inl e \<Rightarrow>
          if e = errNoOverlap \<and> b = [] then copied g r w ctype b []
          else serveError
            (if e = errNoOverlap then header_set w ''Content-Range'' (''bytes */'' @ format_int (int (length b))) else w)
            (range_text e) StatusRequestedRangeNotSatisfiable
      | Inr ras \<Rightarrow> copied g r w ctype b (if sum_list (map snd ras) > int (length b) then [] else ras))"

definition content_answer :: "std \<Rightarrow> request \<Rightarrow> headers \<Rightarrow> string \<Rightarrow> int \<Rightarrow> bytes \<Rightarrow> http_response" where
  "content_answer g r w name t b =
     (let w = (if isZeroTime t then w else header_set w ''Last-Modified'' (http_time t))
      in case checkPreconditions g w r t of
           Inl resp \<Rightarrow> resp
         | Inr rng \<Rightarrow> ranged g r rng b (typed g w name b) (media_type g w name b))"

lemma send_parts_reads:
  assumes "list_all (inside (int (length b))) ras"
    and "honest b eof (k (out @ multipart g ctype b first ras))"
  shows "honest b eof (send_parts g ctype (int (length b)) first ras out k) \<and>
    served b (send_parts g ctype (int (length b)) first ras out k) = served b (k (out @ multipart g ctype b first ras))"
  using assms
proof (induction ras arbitrary: out first)
  case (Cons ra ras)
  let ?out = "out @ part_header g ctype (int (length b)) first ra"
  have "honest b eof (send_parts g ctype (int (length b)) False ras (?out @ piece b (fst ra) (snd ra)) k) \<and>
      served b (send_parts g ctype (int (length b)) False ras (?out @ piece b (fst ra) (snd ra)) k) =
      served b (k (out @ multipart g ctype b first (ra # ras)))"
    using Cons.IH [of "?out @ piece b (fst ra) (snd ra)" False] Cons.prems by simp
  then show ?case
    using send_reads [of "fst ra" "snd ra" b eof _ ?out g] Cons.prems(1) by (simp add: inside_def)
qed simp

lemma copy_content_reads:
  assumes "list_all (inside (int (length b))) ras"
  shows "honest b eof (copy_content g r w ctype (int (length b)) ras) \<and>
    served b (copy_content g r w ctype (int (length b)) ras) = copied g r w ctype b ras"
proof -
  let ?answer = "\<lambda>c. Served (respond_with (copy_headers g w ctype (int (length b)) ras)
    (if ras = [] then StatusOK else StatusPartialContent) c)"
  consider "rq_method r = ''HEAD''" | "rq_method r \<noteq> ''HEAD''" "ras = []" | ra where "rq_method r \<noteq> ''HEAD''" "ras = [ra]"
    | ra rb rs where "rq_method r \<noteq> ''HEAD''" "ras = ra # rb # rs"
    by (cases ras; cases "tl ras") auto
  then show ?thesis
  proof cases
    case 2
    then show ?thesis
      using send_reads [of 0 "int (length b)" b eof "\<lambda>c _. ?answer c" "[]" g]
      by (simp add: copy_content_def copied_def content_body_def)
  next
    case 3
    then show ?thesis
      using send_reads [of "fst (hd ras)" "snd (hd ras)" b eof "\<lambda>c _. ?answer c" "[]" g] assms
      by (simp add: copy_content_def copied_def content_body_def inside_def)
  next
    case 4
    then show ?thesis
      using send_parts_reads [OF assms, of eof ?answer "[]" g ctype True]
      by (simp add: copy_content_def copied_def content_body_def)
  qed (simp add: copy_content_def copied_def)
qed

lemma with_type_reads:
  assumes "honest b eof (k (typed g w name b) (media_type g w name b))"
  shows "honest b eof (with_type g w name (int (length b)) k) \<and>
    served b (with_type g w name (int (length b)) k) = served b (k (typed g w name b) (media_type g w name b))"
proof -
  have "take (nat (min 512 (int (length b)))) b = take 512 b" by (simp add: min_def)
  then show ?thesis
    using assms by (auto simp: with_type_def media_type_def typed_def Let_def piece_def split: option.split)
qed

lemma serve_ranges_reads:
  "honest b eof (serve_ranges g r rng (int (length b)) w ctype) \<and>
   served b (serve_ranges g r rng (int (length b)) w ctype) = ranged g r rng b w ctype"
proof (cases "parseRange rng (int (length b))")
  case (Inl e)
  then show ?thesis
    using copy_content_reads [of b "[]" eof g r w ctype] by (auto simp: serve_ranges_def ranged_def)
next
  case (Inr ras)
  then have "list_all (inside (int (length b))) (if sum_list (map snd ras) > int (length b) then [] else ras)"
    using parseRange_inside [of "int (length b)" rng ras] by simp
  from copy_content_reads [OF this, of eof g r w ctype] show ?thesis
    using Inr by (simp add: serve_ranges_def ranged_def)
qed

theorem serveContent_reads:
  "honest b eof (serveContent g r w name t (int (length b))) \<and>
   served b (serveContent g r w name t (int (length b))) = content_answer g r w name t b"
proof -
  have "honest b eof (with_type g w name (int (length b)) (serve_ranges g r rng (int (length b)))) \<and>
      served b (with_type g w name (int (length b)) (serve_ranges g r rng (int (length b)))) =
      ranged g r rng b (typed g w name b) (media_type g w name b)" for w rng
    using with_type_reads [where k = "serve_ranges g r rng (int (length b))" and b = b] serve_ranges_reads by simp
  then show ?thesis by (simp add: serveContent_def content_answer_def Let_def split: sum.split)
qed

section \<open>Requests a client makes\<close>

text \<open>A request for the bytes \<open>i\<close> to \<open>j\<close>; one without conditions.\<close>

definition bytes_range :: "nat \<Rightarrow> nat \<Rightarrow> string" where
  "bytes_range i j = ''bytes='' @ format_nat i @ ''-'' @ format_nat j"

definition unconditional :: "request \<Rightarrow> bool" where
  "unconditional r \<longleftrightarrow>
     (\<forall>k \<in> {''If-Match'', ''If-None-Match'', ''If-Modified-Since'', ''If-Unmodified-Since'', ''If-Range''}. rq_header r k = [])"

definition quoted_tag :: "string \<Rightarrow> bool" where
  "quoted_tag e \<longleftrightarrow> (\<exists>x. e = [CHR 34] @ x @ [CHR 34] \<and> list_all etag_char x)"

lemma trim_string_id:
  assumes "\<not> blank (hd s) \<and> \<not> blank (last s)"
  shows "trim_string s = s"
proof -
  have "dropWhile blank s = s" unfolding dropWhile_eq_self_iff using assms by blast
  moreover have "dropWhile blank (rev s) = rev s" unfolding dropWhile_eq_self_iff using assms by (simp add: hd_rev)
  ultimately show ?thesis by (simp add: trim_string_def)
qed

lemma format_nat_blank: "c \<in> set (format_nat n) \<Longrightarrow> \<not> blank c \<and> c \<noteq> CHR ''-'' \<and> c \<noteq> CHR '','' "
  using format_nat_digits [of n] by (auto simp: blank_def is_digit_def)

lemma trim_format_nat [simp]: "trim_string (format_nat n) = format_nat n" "format_nat n \<noteq> []"
proof -
  show ne: "format_nat n \<noteq> []" using format_nat_digits [of n] by blast
  show "trim_string (format_nat n) = format_nat n"
    using format_nat_blank [of _ n] ne by (intro trim_string_id) (simp add: hd_in_set last_in_set)
qed

lemma parse_bytes_range:
  assumes "i \<le> j" and "j < 2 ^ 63"
  shows "parseRange (bytes_range i j) len =
    (if len \<le> int i then Inl errNoOverlap else Inr [(int i, min (int j) (len - 1) - int i + 1)])"
proof -
  let ?s = "format_nat i @ CHR ''-'' # format_nat j"
  have "hd ?s \<in> set (format_nat i)" "last ?s \<in> set (format_nat j)"
    using trim_format_nat(2) [of i] trim_format_nat(2) [of j] by (simp_all add: hd_in_set last_in_set hd_append)
  then have t: "trim_string ?s = ?s" using format_nat_blank by (intro trim_string_id) blast
  have "CHR '','' \<notin> set ?s" using format_nat_blank by auto
  then have split: "split_on CHR '','' ?s = [?s]" by (rule split_on_word)
  have cut: "cut ?s CHR ''-'' = Some (format_nat i, format_nat j)" using format_nat_blank by (intro cut_append) blast
  have "int i < 2 ^ 63" "int j < 2 ^ 63" using assms by auto
  then have "parse_byte_range len ?s = Inr (if len \<le> int i then None else Some (int i, min (int j) (len - 1) - int i + 1))"
    using assms(1) by (simp add: parse_byte_range_def cut)
  then show ?thesis
    unfolding bytes_range_def parseRange_def cut_prefix_append option.case
    by (simp add: split t)
qed

lemma scan_quoted:
  assumes "quoted_tag e"
  shows "scanETag e = (e, [])"
proof -
  obtain x where e: "e = [CHR 34] @ x @ [CHR 34]" "list_all etag_char x" using assms by (auto simp: quoted_tag_def)
  have q: "\<not> etag_char (CHR 34)" by (simp add: etag_char_def)
  have t: "trim_string e = e" using e(1) by (intro trim_string_id) (simp add: blank_def)
  have "dropWhile etag_char (x @ [CHR 34]) = [CHR 34]" "takeWhile etag_char (x @ [CHR 34]) = x"
    using e(2) q by (simp_all add: dropWhile_append2 takeWhile_append2 list_all_iff)
  then show ?thesis unfolding scanETag_def t using e(1) by (simp add: has_prefix_def)
qed

lemma any_quoted:
  assumes "quoted_tag e"
  shows "any_etag m e = m e"
proof -
  obtain x where e: "e = CHR 34 # x @ [CHR 34]" using assms by (auto simp: quoted_tag_def)
  have t: "trim_string e = e" using e by (intro trim_string_id) (simp add: blank_def)
  have "any_etag m [] = False" by (simp add: any_etag.simps trim_string_def)
  then show ?thesis
    using scan_quoted [OF assms] e by (subst any_etag.simps) (simp add: t [unfolded e])
qed

lemma weak_quoted: "quoted_tag e \<Longrightarrow> quoted_tag f \<Longrightarrow> etagWeakMatch e f = (e = f)"
  by (auto simp: quoted_tag_def etagWeakMatch_def trim_weak_def has_prefix_def)

lemma hex_lower_tag: "n < 16 \<Longrightarrow> etag_char (hex_lower n)"
proof -
  assume "n < 16"
  then have "n \<in> {0, 1, 2, 3, 4, 5, 6, 7, 8, 9, 10, 11, 12, 13, 14, 15}"
    by (simp add: eval_nat_numeral less_Suc_eq)
  then show ?thesis by (auto simp: hex_lower_def etag_char_def)
qed

lemma hex_encode_tag: "list_all etag_char (hex_encode b)"
proof -
  have "(of_char c :: nat) div 16 < 16" for c using of_char_less_256 [of c] by (simp add: less_mult_imp_div_less)
  then show ?thesis by (induction b) (simp_all add: hex_encode_def hex_lower_tag)
qed

lemma etagFor_quoted: "quoted_tag (etagFor g i)"
  unfolding quoted_tag_def etagFor_def using hex_encode_tag by blast

lemma unconditional_headers:
  "unconditional r \<Longrightarrow> checkPreconditions g w r t = Inr (rq_header r ''Range'')"
  by (simp add: unconditional_def checkPreconditions_def checkIfMatch_def checkIfNoneMatch_def checkIfModifiedSince_def
      checkIfUnmodifiedSince_def checkIfRange_def Let_def)

end
