(* ===== verification/Reading.thy ===== *)
theory Reading
  imports Effects Content
begin

text \<open>
  \<open>GET\<close> and \<open>HEAD\<close> of a file: the law of reading an open file, and the answer a client gets from a
  driver with open files and from one without: the whole file, a range of it, or that it is unchanged.
\<close>

section \<open>Reading an open file\<close>

text \<open>
  The contract of \<open>io.ReaderAt\<close> for a range inside the file; at the very end it may say \<open>EOF\<close> along
  with the bytes.
\<close>

locale readable = positional d fsinv view opn handle
  for d :: "('s, 'f) driver" and fsinv :: "'s \<Rightarrow> bool" and view :: "'s \<Rightarrow> tree"
    and opn :: "path \<Rightarrow> ('s, go_error + 'f option) state" and handle :: "'s \<Rightarrow> 'f \<Rightarrow> path \<Rightarrow> bool" +
  assumes ReadAt: "fsinv s \<Longrightarrow> handle s f p \<Longrightarrow> view s p = Some (FileNode b) \<Longrightarrow> 0 \<le> off \<Longrightarrow> 0 \<le> n \<Longrightarrow>
      off + n \<le> int (length b) \<Longrightarrow> run_state (file_ReadAt (drv_file d) f n off) s = (res, s') \<Longrightarrow>
      fsinv s' \<and> view s' = view s \<and> (\<forall>g q. handle s g q \<longrightarrow> handle s' g q) \<and>
      fst res = piece b off n \<and> (snd res = None \<or> snd res = Some errEOF \<and> off + n = int (length b))"

interpretation mem_reads: readable "mem_driver True" mem_inv mem_view mem_OpenFile mem_handle
proof unfold_locales
  fix m m' :: memFS and p :: path and f :: nat and b :: bytes and off n :: int and res
  show "mem_inv m' \<and> mem_view m' = mem_view m \<and> (\<forall>g q. mem_handle m g q \<longrightarrow> mem_handle m' g q) \<and>
      fst res = piece b off n \<and> (snd res = None \<or> snd res = Some errEOF \<and> off + n = int (length b))"
    if "mem_inv m" "mem_handle m f p" "mem_view m p = Some (FileNode b)" "0 \<le> off" "0 \<le> n"
      "off + n \<le> int (length b)" "run_state (file_ReadAt (drv_file (mem_driver True)) f n off) m = (res, m')"
    using that mem_handle_data [OF that(2,3)]
    by (auto simp: mem_driver_def mem_files_def mem_ReadAt_def errEOF_def piece_def Let_def split: if_splits)
qed

section \<open>What a client gets\<close>

lemma wp_cap:
  "wp (cap_call m k) w Q \<longleftrightarrow> (case run_state m (w_fs w) of (x, s) \<Rightarrow> wp (k x) (w\<lparr>w_fs := s\<rparr>) Q)"
  by (simp add: wp_def run_simps split: prod.splits)

lemma wp_memory:
  assumes "honest b errEOF io" and "Q (served b io) w"
  shows "wp (serve_reads (memory_read b) Done io) w Q"
  using assms
proof (induction io)
  case (ReadPiece off n k)
  let ?c = "piece b off n"
  have ih: "wp (serve_reads (memory_read b) Done (k (?c, None))) w Q"
    using ReadPiece.prems by (intro ReadPiece.IH) auto
  have "memory_read b off n f = f (?c, None) \<or> off + n = int (length b) \<and> memory_read b off n f = f (?c, Some errEOF)"
    for f :: "bytes \<times> go_error option \<Rightarrow> 'a proc"
    using ReadPiece.prems(1) by (auto simp: memory_read_def piece_def)
  from this [of "\<lambda>res. serve_reads (memory_read b) Done (k res)"] show ?case
    using ih ReadPiece.prems(1) by auto
qed (simp add: wp_Done)

context readable
begin

lemma wp_close:
  assumes "h_fs h = d" and "fsinv (w_fs w)" and "handle (w_fs w) f p" and "\<not> w_mu w"
    and "\<And>w'. fsinv (w_fs w') \<Longrightarrow> view (w_fs w') = view (w_fs w) \<Longrightarrow> w_lk w' = w_lk w \<Longrightarrow> \<not> w_mu w' \<Longrightarrow> Q resp w'"
  shows "wp (close_after h f resp) w Q"
proof -
  obtain e s where e: "run_state (file_Close (drv_file d) f) (w_fs w) = (e, s)" by fastforce
  from Close [OF assms(2,3) e] show ?thesis
    using assms(1,4) assms(5) [of "w\<lparr>w_fs := s\<rparr>"] by (simp add: close_after_def wp_fs wp_Done e)
qed

lemma wp_reads:
  assumes h: "h_fs h = d" and rd: "rd \<in> {locked_read h f, host_read h f}"
    and "honest b errEOF io" and "fsinv (w_fs w)" and "handle (w_fs w) f p" and "view (w_fs w) p = Some (FileNode b)"
    and "\<not> w_mu w"
    and "\<And>w'. fsinv (w_fs w') \<Longrightarrow> view (w_fs w') = view (w_fs w) \<Longrightarrow> w_lk w' = w_lk w \<Longrightarrow> \<not> w_mu w' \<Longrightarrow>
      Q (served b io) w'"
  shows "wp (serve_reads rd (close_after h f) io) w Q"
  using assms(3-8)
proof (induction io arbitrary: w)
  case (Served resp)
  then show ?case using wp_close [OF h Served(2,3)] by simp
next
  case (ReadPiece off n k)
  let ?c = "piece b off n"
  obtain res s where r: "run_state (file_ReadAt (drv_file d) f n off) (w_fs w) = (res, s)" by fastforce
  have ok: "0 \<le> off" "0 \<le> n" "off + n \<le> int (length b)" "off + n = int (length b) \<longrightarrow> k (?c, Some errEOF) = k (?c, None)" "honest b errEOF (k (?c, None))"
    using ReadPiece.prems(1) by auto
  have s: "fsinv s" "view s = view (w_fs w)" "handle s f p" "fst res = ?c"
      "snd res = None \<or> snd res = Some errEOF \<and> off + n = int (length b)"
    using ReadAt [OF ReadPiece.prems(2-4) ok(1-3) r] ReadPiece.prems(3) by auto
  have k: "k res = k (?c, None)" using s(4,5) ok(4) by (cases res) auto
  have "wp (serve_reads rd (close_after h f) (k (?c, None))) w' Q"
    if "w_fs w' = s" "\<not> w_mu w'" "w_lk w' = w_lk w" for w'
    using s ok(5) that ReadPiece.prems(4,6) by (intro ReadPiece.IH) auto
  then show ?case
    using rd r k ReadPiece.prems(5) h
    by (auto simp: locked_read_def host_read_def wp_Lock wp_Unlock wp_fs wp_cap)
qed

end

text \<open>The answer to a \<open>GET\<close> of a file with the bytes \<open>b\<close>, for the \<open>Stat\<close> the driver gave of it.\<close>

definition get_headers :: "headers \<Rightarrow> resourceInfo \<Rightarrow> headers" where
  "get_headers w i = header_set (header_set w ''Etag'' (ri_etag i)) ''Accept-Ranges'' ''bytes''"

definition get_answer :: "('s, 'f) handler \<Rightarrow> request \<Rightarrow> headers \<Rightarrow> resourceInfo \<Rightarrow> bytes \<Rightarrow> http_response" where
  "get_answer h r w i b = content_answer (h_std h) r (get_headers w i) (ri_name i) (ri_modTime i) b"

abbreviation get_io :: "('s, 'f) handler \<Rightarrow> request \<Rightarrow> headers \<Rightarrow> resourceInfo \<Rightarrow> int \<Rightarrow> serve_io" where
  "get_io h r w i \<equiv> serveContent (h_std h) r (get_headers w i) (ri_name i) (ri_modTime i)"

lemma get_io_reads:
  "honest b errEOF (get_io h r w i (int (length b)))" "served b (get_io h r w i (int (length b))) = get_answer h r w i b"
  using serveContent_reads by (simp_all add: get_answer_def)

definition got ::
  "('s, 'f) handler \<Rightarrow> request \<Rightarrow> headers \<Rightarrow> path \<Rightarrow> bytes \<Rightarrow> 's world \<Rightarrow> http_response \<Rightarrow> bool" where
  "got h r ws name b w resp \<longleftrightarrow>
     (\<exists>i. fst (run_state (info h name) (w_fs w)) = Inr i \<and> resp = get_answer h r ws i b)"

abbreviation unchanged :: "('s \<Rightarrow> bool) \<Rightarrow> ('s \<Rightarrow> tree) \<Rightarrow> 's world \<Rightarrow> 's world \<Rightarrow> bool" where
  "unchanged fsinv view w w' \<equiv>
     fsinv (w_fs w') \<and> view (w_fs w') = view (w_fs w) \<and> w_lk w' = w_lk w \<and> \<not> w_mu w'"

context filesystem
begin

lemma wp_get:
  assumes h: "h_fs h = d" and name: "canonical name" and s: "fsinv (w_fs w)" "\<not> w_mu w"
    and v: "view (w_fs w) name = Some (FileNode b)"
    and k: "\<And>i w1. fst (run_state (info h name) (w_fs w)) = Inr i \<Longrightarrow> ri_path i = name \<Longrightarrow>
      fsinv (w_fs w1) \<Longrightarrow> view (w_fs w1) = view (w_fs w) \<Longrightarrow> w_lk w1 = w_lk w \<Longrightarrow> w_mu w1 \<Longrightarrow>
      wp (fs_call (open_content h i) (\<lambda>c. Unlock (case c of
             Inl err \<Rightarrow> Done (http_error ws (statusFor err StatusInternalServerError) (''webdav: '' @ err_text err))
           | Inr c \<Rightarrow> serve_content h ws r i c))) w1 Q"
  shows "wp (serveGet h ws r name) w Q"
proof -
  obtain res s' where st: "run_state (drv_Stat d name) (w_fs w) = (res, s')" by fastforce
  from Stat [OF s(1) name st] v obtain st where st': "res = Inr (Some st)" "st_mode st AND sIFMT \<noteq> sIFDIR"
    "fsinv s'" "view s' = view (w_fs w)"
    by (auto simp: stat_agrees_def)
  let ?i = "infoFromStat h name st"
  have "name \<noteq> ''/''" using v tree_root [OF view_ok [OF s(1)]] by auto
  then have i: "run_state (info h name) (w_fs w) = (Inr ?i, s')" "\<not> ri_isDir ?i"
    using st st'(1,2) h by (simp_all add: run_info infoFromStat_isDir)
  have "ri_path ?i = name" by (simp add: infoFromStat_path)
  then show ?thesis
    using k [of ?i "w\<lparr>w_mu := True, w_fs := s'\<rparr>"] i st'(3,4) s(2)
    by (simp add: serveGet_def wp_Lock wp_fs)
qed

lemma got_from_memory:
  assumes h: "h_fs h = d" and name: "canonical name" and o: "drv_OpenFile d = None" and s: "fsinv (w_fs w)" "\<not> w_mu w"
    and v: "view (w_fs w) name = Some (FileNode b)"
  shows "wp (serveGet h ws r name) w (\<lambda>resp w'. got h r ws name b w resp \<and> unchanged fsinv view w w')"
proof (rule wp_get [OF h name s v])
  fix i :: resourceInfo and w1 :: "'s world"
  assume i: "fst (run_state (info h name) (w_fs w)) = Inr i" and p: "ri_path i = name"
    and w1: "fsinv (w_fs w1)" "view (w_fs w1) = view (w_fs w)" "w_lk w1 = w_lk w" "w_mu w1"
  obtain c s' where c: "run_state (drv_ReadFile d name) (w_fs w1) = (c, s')" by fastforce
  have s': "fsinv s'" "view s' = view (w_fs w)" "c = Inr b" using ReadFile [OF w1(1) _ c] v w1(2) by auto
  have run: "run_state (open_content h i) (w_fs w1) = (Inr (InMemory b), s')"
    by (simp add: open_content_def h o p c s'(3))
  have got: "got h r ws name b w (served b (get_io h r ws i (int (length b))))"
    using i unfolding got_def get_io_reads by blast
  have reads: "wp (serve_reads (memory_read b) Done (get_io h r ws i (int (length b)))) (w1\<lparr>w_fs := s', w_mu := False\<rparr>)
      (\<lambda>resp w'. got h r ws name b w resp \<and> unchanged fsinv view w w')"
    by (rule wp_memory [OF get_io_reads(1)]) (use s' w1(3) got in simp)
  show "wp (fs_call (open_content h i) (\<lambda>c. Unlock (case c of
        Inl err \<Rightarrow> Done (http_error ws (statusFor err StatusInternalServerError) (''webdav: '' @ err_text err))
      | Inr c \<Rightarrow> serve_content h ws r i c))) w1 (\<lambda>resp w'. got h r ws name b w resp \<and> unchanged fsinv view w w')"
    using reads by (simp add: wp_fs run wp_Unlock serve_content_def get_headers_def [symmetric] Let_def)
qed

end

context readable
begin

lemma got_from_file:
  assumes h: "h_fs h = d" and name: "canonical name" and s: "fsinv (w_fs w)" "\<not> w_mu w"
    and v: "view (w_fs w) name = Some (FileNode b)"
  shows "wp (serveGet h ws r name) w (\<lambda>resp w'. got h r ws name b w resp \<and> unchanged fsinv view w w')"
proof (rule wp_get [OF h name s v])
  fix i :: resourceInfo and w1 :: "'s world"
  assume i: "fst (run_state (info h name) (w_fs w)) = Inr i" and p: "ri_path i = name"
    and w1: "fsinv (w_fs w1)" "view (w_fs w1) = view (w_fs w)" "w_lk w1 = w_lk w" "w_mu w1"
  let ?Q = "\<lambda>resp w'. got h r ws name b w resp \<and> unchanged fsinv view w w'"
  have got: "got h r ws name b w (served b (get_io h r ws i (int (length b))))"
    using i unfolding got_def get_io_reads by blast
  obtain o1 s1 where o1: "run_state (opn name) (w_fs w1) = (o1, s1)" by fastforce
  obtain f where f: "o1 = Inr (Some f)" "handle s1 f name" "fsinv s1" "view s1 = view (w_fs w)"
    using Open [OF w1(1) _ o1] v w1(2) by auto
  obtain n s2 where n: "run_state (file_Size (drv_file d) f) s1 = (n, s2)" by fastforce
  have s2: "n = int (length b)" "handle s2 f name" "fsinv s2" "view s2 = view (w_fs w)"
    using Size [OF f(3,2) _ n] f(2,4) v by auto
  have reads: "wp (serve_reads rd (close_after h f) (get_io h r ws i (int (length b)))) w2 ?Q"
    if "rd \<in> {locked_read h f, host_read h f}" "w_fs w2 = s2" "\<not> w_mu w2" "w_lk w2 = w_lk w" for rd w2
    by (rule wp_reads [OF h that(1) get_io_reads(1), where p = name]) (use that s2 v got in auto)
  have run: "run_state (open_content h i) (w_fs w1) =
      (if file_is_host (drv_file d) f then (Inr (HostContent f), s1) else (Inr (Section f n), s2))"
    using opener h o1 f(1) n p by (simp add: open_content_def)
  show "wp (fs_call (open_content h i) (\<lambda>c. Unlock (case c of
        Inl err \<Rightarrow> Done (http_error ws (statusFor err StatusInternalServerError) (''webdav: '' @ err_text err))
      | Inr c \<Rightarrow> serve_content h ws r i c))) w1 ?Q"
    using reads n s2(1) w1(3) h
    by (auto simp: wp_fs run wp_Unlock serve_content_def get_headers_def [symmetric] Let_def wp_cap)
qed

end

text \<open>The situation of a request for a file that is there, with the bytes \<open>b\<close>.\<close>

definition getting ::
  "('s, 'f) driver \<Rightarrow> ('s \<Rightarrow> bool) \<Rightarrow> ('s \<Rightarrow> tree) \<Rightarrow> ('s, 'f) handler \<Rightarrow> request \<Rightarrow> path \<Rightarrow> 's world \<Rightarrow> bytes \<Rightarrow> bool" where
  "getting d fsinv view h r name w b \<longleftrightarrow>
     filesystem d fsinv view \<and>
     (drv_OpenFile d = None \<or> (\<exists>opn handle. readable d fsinv view opn handle)) \<and>
     h_fs h = d \<and> authorise h [] r = None \<and> resource (h_prefix h) (rq_path r) = Some name \<and>
     rq_method r \<in> {''GET'', ''HEAD''} \<and> fsinv (w_fs w) \<and> \<not> w_mu w \<and> view (w_fs w) name = Some (FileNode b)"

lemma getting_answers:
  assumes "getting d fsinv view h r name w b"
  shows "wp (ServeHTTP h r) w (\<lambda>resp w'. got h r (setDAV h []) name b w resp \<and> unchanged fsinv view w w')"
proof -
  note g = assms [unfolded getting_def]
  have run: "ServeHTTP h r = serveGet h (setDAV h []) r name"
    using g by (auto simp: ServeHTTP_def dispatch_def Let_def)
  have c: "canonical name" using g resource_SomeD(1) by blast
  show ?thesis
  proof (cases "drv_OpenFile d = None")
    case True
    show ?thesis unfolding run
      by (rule filesystem.got_from_memory [where fsinv = fsinv and view = view and w = w, OF _ _ c True]) (use g in auto)
  next
    case False
    then obtain opn handle where "readable d fsinv view opn handle" using g by auto
    then show ?thesis unfolding run
      by (rule readable.got_from_file [where fsinv = fsinv and view = view and w = w, OF _ _ c]) (use g in auto)
  qed
qed

text \<open>
  C15. A \<open>GET\<close> or \<open>HEAD\<close> of a file answers what \<open>content_answer\<close> says of the bytes the driver holds
  there, with the entity tag, the name and the time of the driver's \<open>Stat\<close>, and changes nothing: the
  same answer whether the driver opens files (and they are read piece by piece, in pieces of any
  size, under \<open>fsmu\<close> or as a host file) or the whole file is read at once.
\<close>

theorem get_serves:
  assumes "getting d fsinv view h r name w b"
  shows "\<exists>i resp w'. run_proc (ServeHTTP h r) w = (Some resp, w') \<and> unchanged fsinv view w w' \<and>
    fst (run_state (info h name) (w_fs w)) = Inr i \<and> resp = get_answer h r (setDAV h []) i b"
  using getting_answers [OF assms] by (auto simp: wp_def got_def)

text \<open>
  What a client that asks without conditions sees: the whole file, or the range it asked for, cut off
  at the end of the file, or 416. \<open>sent\<close> is the body as far as the method has one.
\<close>

definition sent :: "request \<Rightarrow> bytes \<Rightarrow> body" where
  "sent r c = Plain (if rq_method r = ''HEAD'' then [] else c)"

definition delivers :: "request \<Rightarrow> (nat \<times> nat) option \<Rightarrow> bytes \<Rightarrow> http_response \<Rightarrow> bool" where
  "delivers r rng b resp \<longleftrightarrow>
     (case rng of
        None \<Rightarrow> rs_status resp = StatusOK \<and> rs_body resp = sent r b \<and>
          header_get (rs_headers resp) ''Content-Length'' = format_nat (length b)
      | Some (i, j) \<Rightarrow>
          if i < length b
          then rs_status resp = StatusPartialContent \<and> rs_body resp = sent r (take (Suc j - i) (drop i b)) \<and>
            header_get (rs_headers resp) ''Content-Range'' =
              ''bytes '' @ format_nat i @ ''-'' @ format_nat (min j (length b - 1)) @ ''/'' @ format_nat (length b)
          else if b = [] then rs_status resp = StatusOK \<and> rs_body resp = sent r []
          else rs_status resp = StatusRequestedRangeNotSatisfiable \<and>
            header_get (rs_headers resp) ''Content-Range'' = ''bytes */'' @ format_nat (length b))"

lemma format_int_of_nat [simp]: "format_int (int n) = format_nat n"
  by (simp add: format_int_def)

lemma typed_header: "k \<noteq> ''Content-Type'' \<Longrightarrow> header_get (typed g w n b) k = header_get w k"
  by (simp add: typed_def)

lemma delivered:
  assumes "unconditional r" and "header_get w ''Content-Encoding'' = []"
    and "rq_header r ''Range'' = (case rng of None \<Rightarrow> [] | Some (i, j) \<Rightarrow> bytes_range i j)"
    and "\<forall>i j. rng = Some (i, j) \<longrightarrow> i \<le> j \<and> j < 2 ^ 63"
  shows "delivers r rng b (content_answer g r w n t b)"
proof -
  define v where "v = (if isZeroTime t then w else header_set w ''Last-Modified'' (http_time t))"
  have v: "header_get (typed g v n b) ''Content-Encoding'' = []"
    using assms(2) by (simp add: typed_header v_def)
  have a: "content_answer g r w n t b = ranged g r (rq_header r ''Range'') b (typed g v n b) (media_type g v n b)"
    by (simp add: content_answer_def v_def [symmetric] unconditional_headers [OF assms(1)])
  show ?thesis
  proof (cases rng)
    case None
    then show ?thesis
      using assms(3) v by (simp add: a ranged_def parseRange_def copied_def copy_headers_def delivers_def sent_def content_body_def respond_with_def)
  next
    case (Some ij)
    then obtain i j where ij: "rng = Some (i, j)" "i \<le> j" "j < 2 ^ 63" using assms(4) by (cases ij) auto
    have p: "parseRange (rq_header r ''Range'') (int (length b)) =
        (if int (length b) \<le> int i then Inl errNoOverlap else Inr [(int i, min (int j) (int (length b) - 1) - int i + 1)])"
      using assms(3) ij parse_bytes_range by simp
    show ?thesis
    proof (cases "i < length b")
      case True
      define m where "m = min (Suc j) (length b) - i"
      have m: "min (int j) (int (length b) - 1) - int i + 1 = int m" "int i + int m - 1 = int (min j (length b - 1))"
        "\<not> int (length b) < int m" "\<not> int (length b) \<le> int i"
        using True ij(2) by (auto simp: m_def)
      have c: "piece b (int i) (int m) = take (Suc j - i) (drop i b)" using True by (simp add: piece_def m_def min_def)
      have "parseRange (rq_header r ''Range'') (int (length b)) = Inr [(int i, int m)]"
        unfolding p m(1) using m(4) by simp
      then show ?thesis
        using True ij m(2,3) c by (simp add: a ranged_def copied_def copy_headers_def content_range_def delivers_def sent_def
            content_body_def respond_with_def)
    next
      case False
      then show ?thesis
        using ij v by (simp add: a ranged_def p copied_def copy_headers_def delivers_def sent_def content_body_def
            respond_with_def serveError_def http_error_def)
    qed
  qed
qed

lemma get_headers_plain [simp]: "header_get (get_headers (setDAV h []) i) ''Content-Encoding'' = []"
proof -
  have "header_get [] k = []" for k by (simp add: header_get_def)
  then show ?thesis by (simp add: get_headers_def setDAV_def)
qed

text \<open>The server of the examples.\<close>

lemma demo_getting:
  assumes "m \<in> {''GET'', ''HEAD''}"
  shows "getting (mem_driver opens) mem_inv mem_view (mem_handler opens demo_std 5) (demo_request m ''/d/a'' hs [])
    ''/d/a'' (demo_world demo_mem) ''hello''"
proof -
  have "resource [] ''/d/a'' = Some ''/d/a''" by code_simp
  moreover have "h_prefix (mem_handler opens demo_std 5) = []" "authorise (mem_handler opens demo_std 5) [] (demo_request m ''/d/a'' hs []) = None"
    "rq_path (demo_request m ''/d/a'' hs []) = ''/d/a''"
    by (simp_all add: mem_handler_def base_handler_def authorise_def demo_request_def)
  moreover have "drv_OpenFile (mem_driver opens) = None \<or>
      (\<exists>opn handle. readable (mem_driver opens) mem_inv mem_view opn handle)"
    using mem_reads.readable_axioms by (cases opens) (auto simp: mem_driver_def)
  ultimately show ?thesis
    using assms mem.filesystem_axioms demo_mem_inv demo_view by (simp add: getting_def)
qed

theorem get_serves_witness:
  "\<exists>i resp w'. run_proc (ServeHTTP (mem_handler True demo_std 5) (demo_request ''GET'' ''/d/a'' [] [])) (demo_world demo_mem)
      = (Some resp, w') \<and> mem_view (w_fs w') = mem_view demo_mem \<and>
    resp = get_answer (mem_handler True demo_std 5) (demo_request ''GET'' ''/d/a'' [] []) (setDAV (mem_handler True demo_std 5) []) i ''hello''"
  using get_serves [OF demo_getting [of "''GET''" True "[]"]] by auto

text \<open>
  C16. A \<open>GET\<close> or \<open>HEAD\<close> of a file without conditions is answered 200 with the whole file and its
  length; with a \<open>Range\<close> that starts inside the file, 206 with exactly those bytes, cut off at the end,
  and a \<open>Content-Range\<close> that says which they are; with one that starts behind the end, 416 with the
  length (200 for an empty file). Nothing changes.
\<close>

theorem get_delivers:
  assumes "getting d fsinv view h r name w b" and "unconditional r"
    and "rq_header r ''Range'' = (case rng of None \<Rightarrow> [] | Some (i, j) \<Rightarrow> bytes_range i j)"
    and "\<forall>i j. rng = Some (i, j) \<longrightarrow> i \<le> j \<and> j < 2 ^ 63"
  shows "wp (ServeHTTP h r) w (\<lambda>resp w'. delivers r rng b resp \<and> unchanged fsinv view w w')"
  using getting_answers [OF assms(1)] delivered [OF assms(2) get_headers_plain assms(3,4)]
  by (auto simp: wp_def got_def get_answer_def)

theorem get_delivers_witness:
  "wp (ServeHTTP (mem_handler True demo_std 5) (demo_request ''GET'' ''/d/a'' [(''Range'', bytes_range 1 3)] [])) (demo_world demo_mem)
     (\<lambda>resp w'. rs_status resp = StatusPartialContent \<and> rs_body resp = Plain ''ell'' \<and> mem_view (w_fs w') = mem_view demo_mem)"
proof -
  have u: "unconditional (demo_request ''GET'' ''/d/a'' [(''Range'', bytes_range 1 3)] [])"
    by (simp add: unconditional_def header_get_def)
  show ?thesis
    using get_delivers [OF demo_getting [of "''GET''" True] u, of "Some (1, 3)"]
    by (auto simp: wp_def delivers_def sent_def header_get_def)
qed

lemma revalidated:
  assumes "quoted_tag e" and "rq_header r ''If-None-Match'' = e" and "rq_method r \<in> {''GET'', ''HEAD''}"
    and "rq_header r ''If-Match'' = []" and "rq_header r ''If-Unmodified-Since'' = []" and "rq_header r ''Range'' = []"
    and "quoted_tag (header_get w ''Etag'')"
  shows "let resp = content_answer g r w n t b in
    if header_get w ''Etag'' = e then rs_status resp = StatusNotModified \<and> rs_body resp = Plain []
    else rs_status resp = StatusOK \<and> rs_body resp = sent r b"
proof -
  define v where "v = (if isZeroTime t then w else header_set w ''Last-Modified'' (http_time t))"
  have v: "header_get v ''Etag'' = header_get w ''Etag''" by (simp add: v_def)
  have e: "e \<noteq> []" using assms(1) by (auto simp: quoted_tag_def)
  have match: "checkIfNoneMatch v r = (if header_get w ''Etag'' = e then condFalse else condTrue)"
    using any_quoted [OF assms(1)] weak_quoted [OF assms(1,7)] assms(2) e v by (auto simp: checkIfNoneMatch_def)
  have "checkIfMatch v r = condNone" "checkIfUnmodifiedSince g r t = condNone"
    using assms(4,5) by (simp_all add: checkIfMatch_def checkIfUnmodifiedSince_def)
  then have "checkPreconditions g v r t = (if header_get w ''Etag'' = e then Inl (writeNotModified v) else Inr [])"
    using match assms(3,6) by (simp add: checkPreconditions_def)
  then show ?thesis
    by (simp add: content_answer_def v_def [symmetric] writeNotModified_def respond_with_def Let_def ranged_def parseRange_def
        copied_def sent_def content_body_def)
qed

lemma info_etag:
  assumes "fst (run_state (info h name) s) = Inr i"
  shows "quoted_tag (ri_etag i)"
proof -
  obtain st where "i = infoFromStat h name st"
    using assms by (auto simp: run_info split: prod.splits sum.splits option.splits)
  then show ?thesis by (simp add: infoFromStat_def Let_def etagFor_quoted)
qed

text \<open>
  C31. A \<open>GET\<close> or \<open>HEAD\<close> whose \<open>If-None-Match\<close> is an entity tag is answered 304 without a body
  when that is the tag the file has now, and 200 with the whole file when it is another.
\<close>

theorem get_revalidates:
  assumes "getting d fsinv view h r name w b" and "quoted_tag e" and "rq_header r ''If-None-Match'' = e"
    and "\<forall>k \<in> {''If-Match'', ''If-Unmodified-Since'', ''Range''}. rq_header r k = []"
  shows "\<exists>i resp w'. run_proc (ServeHTTP h r) w = (Some resp, w') \<and> unchanged fsinv view w w' \<and>
    fst (run_state (info h name) (w_fs w)) = Inr i \<and>
    (if ri_etag i = e then rs_status resp = StatusNotModified \<and> rs_body resp = Plain []
     else rs_status resp = StatusOK \<and> rs_body resp = sent r b)"
proof -
  obtain i resp w' where r: "run_proc (ServeHTTP h r) w = (Some resp, w')" "unchanged fsinv view w w'"
    "fst (run_state (info h name) (w_fs w)) = Inr i" "resp = get_answer h r (setDAV h []) i b"
    using getting_answers [OF assms(1)] by (auto simp: wp_def got_def)
  have tag: "header_get (get_headers ws i) ''Etag'' = ri_etag i" for ws by (simp add: get_headers_def)
  have "rq_method r \<in> {''GET'', ''HEAD''}" using assms(1) unfolding getting_def by blast
  from revalidated [OF assms(2,3) this, of "get_headers (setDAV h []) i" "h_std h" "ri_name i" "ri_modTime i" b] r info_etag [OF r(3)]
  show ?thesis using assms(4) unfolding tag get_answer_def Let_def by blast
qed

text \<open>The tag of the example's file.\<close>

definition demo_tag :: string where
  "demo_tag = ri_etag (projr (fst (run_state (info (mem_handler False demo_std 5) ''/d/a'') demo_mem)))"

theorem get_revalidates_witness:
  "\<exists>resp w'. run_proc (ServeHTTP (mem_handler False demo_std 5) (demo_request ''GET'' ''/d/a'' [(''If-None-Match'', demo_tag)] []))
      (demo_world demo_mem) = (Some resp, w') \<and> rs_status resp = StatusNotModified \<and> rs_body resp = Plain []"
proof -
  let ?r = "demo_request ''GET'' ''/d/a'' [(''If-None-Match'', demo_tag)] []"
  obtain i where i: "fst (run_state (info (mem_handler False demo_std 5) ''/d/a'') demo_mem) = Inr i"
    using getting_answers [OF demo_getting [of "''GET''" False "[]"]] by (auto simp: wp_def got_def)
  then have tag: "demo_tag = ri_etag i" by (simp add: demo_tag_def)
  have "rq_header ?r ''If-None-Match'' = demo_tag"
    "\<forall>k \<in> {''If-Match'', ''If-Unmodified-Since'', ''Range''}. rq_header ?r k = []"
    by (simp_all add: header_get_def)
  from get_revalidates [OF demo_getting [of "''GET''" False] info_etag [OF i, folded tag] this] show ?thesis
    using i tag by auto
qed

end
