(* ===== verification/Index.thy ===== *)
theory Index
  imports Reading Listing
begin

text \<open>
  The HTML index of a collection: one link for each member, in the order of the driver, with its kind and size.
\<close>

definition index_entry :: "('s, 'f) handler \<Rightarrow> tree \<Rightarrow> path \<Rightarrow> string \<Rightarrow> bytes" where
  \<open>index_entry h v name n =
     (let link = (\<lambda>isDir. ''<li><a href="'' @ writeHTML (hrefOf h (join name n) isDir) @ ''">'' @ writeHTML n)
      in case v (join name n) of
           Some (FileNode b) \<Rightarrow> link False @ ''</a> <small>'' @ format_nat (unat (of_nat (length b) :: 64 word)) @
             '' bytes</small></li>'' @ [CHR 0x0A]
         | _ \<Rightarrow> link True @ ''/</a></li>'' @ [CHR 0x0A])\<close>

definition indexed :: "('s, 'f) handler \<Rightarrow> request \<Rightarrow> tree \<Rightarrow> path \<Rightarrow> http_response \<Rightarrow> bool" where
  "indexed h r v name resp \<longleftrightarrow>
     (\<exists>ns. distinct ns \<and> set ns = members v name \<and>
        (let page = index_page h name (concat (map (index_entry h v name) ns))
         in rs_status resp = StatusOK \<and> rs_body resp = sent r page \<and>
            header_get (rs_headers resp) ''Content-Type'' = ''text/html; charset=utf-8'' \<and>
            header_get (rs_headers resp) ''Content-Length'' = format_nat (length page)))"

context filesystem
begin

lemma run_index_rows:
  assumes "h_fs h = d" and "canonical name" and "fsinv s" and "set ns \<subseteq> members (view s) name \<union> {''.'', ''..''}"
  shows "\<exists>s'. run_state (index_rows h name ns) s = (concat (map (index_entry h (view s) name) [n \<leftarrow> ns. \<not> dot n]), s') \<and>
    fsinv s' \<and> view s' = view s"
  using assms(3,4)
proof (induction ns arbitrary: s)
  case (Cons n ns)
  show ?case
  proof (cases "dot n")
    case True
    then show ?thesis using Cons.IH [OF Cons.prems(1)] Cons.prems(2) by (auto simp: dot_def)
  next
    case False
    let ?p = "join name n"
    have n: "good_comp n" "view s ?p \<noteq> None" using Cons.prems(2) False by (auto simp: members_def dot_def)
    have p: "canonical ?p" by (rule canonical_join [OF assms(2) n(1)])
    obtain r t where r: "run_state (drv_Stat d ?p) s = (r, t)" by fastforce
    obtain nd where nd: "view s ?p = Some nd" using n(2) by auto
    from Stat [OF Cons.prems(1) p r] nd obtain st where st: "r = Inr (Some st)" "fsinv t" "view t = view s"
      "st_mode st AND sIFMT = sIFDIR \<longleftrightarrow> nd = DirNode" "\<And>b. nd = FileNode b \<Longrightarrow> st_size st = of_nat (length b)"
      by (cases nd) (auto simp: stat_agrees_def)
    have root: "?p \<noteq> ''/''" using join_not_root [OF assms(2) n(1)] by simp
    have i: "run_state (info h ?p) s = (Inr (infoFromStat h ?p st), t)" using r st(1) assms(1) by (simp add: run_info)
    have row: "index_row h ?p n (Inr (infoFromStat h ?p st)) = index_entry h (view s) name n"
      using st(4,5) root nd
      by (cases nd) (simp_all add: index_row_def index_entry_def infoFromStat_isDir infoFromStat_size)
    obtain s' where s': "run_state (index_rows h name ns) t = (concat (map (index_entry h (view s) name) [n \<leftarrow> ns. \<not> dot n]), s')"
      "fsinv s'" "view s' = view s"
      using Cons.IH [OF st(2)] Cons.prems(2) st(3) by auto
    show ?thesis using False i s' row by (auto simp: dot_def bind_def)
  qed
qed simp

lemma wp_serveIndex:
  assumes h: "h_fs h = d" and name: "canonical name" and s: "fsinv (w_fs w)" "w_mu w"
    and v: "view (w_fs w) name = Some DirNode"
  shows "wp (serveIndex h ws r name) w (\<lambda>resp w'. indexed h r (view (w_fs w)) name resp \<and> unchanged fsinv view w w')"
  unfolding serveIndex_def h
proof (rule wp_ListDir [OF s(1) v], unfold sum.case)
  fix ns and t :: 's
  assume ns: "distinct ns" "members (view (w_fs w)) name \<subseteq> set ns" "set ns \<subseteq> members (view (w_fs w)) name \<union> {''.'', ''..''}"
    and t: "fsinv t" "view t = view (w_fs w)"
  let ?ns = "[n \<leftarrow> ns. \<not> dot n]"
  let ?page = "index_page h name (concat (map (index_entry h (view (w_fs w)) name) ?ns))"
  let ?resp = "respond_with (header_set (header_set ws ''Content-Type'' ''text/html; charset=utf-8'')
      ''Content-Length'' (format_nat (length ?page))) StatusOK (if rq_method r = ''HEAD'' then [] else ?page)"
  obtain s' where s': "run_state (index_rows h name ns) t = (concat (map (index_entry h (view (w_fs w)) name) ?ns), s')"
      "fsinv s'" "view s' = view (w_fs w)"
    using run_index_rows [OF h name t(1)] ns(3) t(2) by auto
  have "set ?ns = members (view (w_fs w)) name" using ns good_not_dot by (auto simp: members_def dot_def)
  moreover have "distinct ?ns" using ns(1) by simp
  ultimately have "indexed h r (view (w_fs w)) name ?resp"
    unfolding indexed_def by (intro exI [of _ ?ns]) (simp add: Let_def respond_with_def sent_def)
  then show "wp (fs_call (index_rows h name ns) (\<lambda>rows. let page = index_page h name rows;
        w' = header_set (header_set ws ''Content-Type'' ''text/html; charset=utf-8'') ''Content-Length''
          (format_nat (length page))
      in Unlock (Done (respond_with w' StatusOK (if rq_method r = ''HEAD'' then [] else page))))) (w\<lparr>w_fs := t\<rparr>)
      (\<lambda>resp w'. indexed h r (view (w_fs w)) name resp \<and> unchanged fsinv view w w')"
    using s' s(2) by (simp add: wp_fs wp_Unlock wp_Done Let_def)
qed

lemma wp_get_index:
  assumes h: "h_fs h = d" and name: "canonical name" and s: "fsinv (w_fs w)" "\<not> w_mu w"
    and v: "view (w_fs w) name = Some DirNode"
  shows "wp (serveGet h ws r name) w (\<lambda>resp w'. indexed h r (view (w_fs w)) name resp \<and> unchanged fsinv view w w')"
  unfolding serveGet_def wp_Lock [OF s(2)]
proof (rule wp_info_full [OF h], simp add: s(1), simp add: v, unfold sum.case)
  fix i s' assume i: "ri_path i = name" "describes (view (w_fs (w\<lparr>w_mu := True\<rparr>))) i"
    and s': "fsinv s'" "view s' = view (w_fs (w\<lparr>w_mu := True\<rparr>))"
  have dir: "ri_isDir i" using i v by (simp add: describes_def)
  show "wp (if ri_isDir i then serveIndex h ws r name
      else fs_call (open_content h i) (\<lambda>c. Unlock (case c of
          Inl err \<Rightarrow> Done (http_error ws (statusFor err StatusInternalServerError) (''webdav: '' @ err_text err))
        | Inr c \<Rightarrow> serve_content h ws r i c))) (w\<lparr>w_mu := True, w_fs := s'\<rparr>)
      (\<lambda>resp w'. indexed h r (view (w_fs w)) name resp \<and> unchanged fsinv view w w')"
    unfolding if_P [OF dir]
    using wp_serveIndex [OF h name, of "w\<lparr>w_mu := True, w_fs := s'\<rparr>" ws r] s' v by simp
qed

end

text \<open>The directory of the example has one member.\<close>

lemma demo_member: "join ''/d'' ''a'' = ''/d/a''" by code_simp

lemma demo_members: "members (mem_view demo_mem) ''/d'' = {''a''}"
proof -
  have "n = ''a''" if n: "good_comp n" "mem_view demo_mem (join ''/d'' n) \<noteq> None" for n
  proof -
    have c: "canonical ''/d''" by code_simp
    have "join ''/d'' n \<in> set [''/'', ''/d'', ''/d/a'']" by (rule demo_cases [OF n(2)])
    moreover have "comps (join ''/d'' n) = comps ''/d'' @ [n]" by (rule comps_join [OF c n(1)])
    moreover have "comps ''/'' = []" "comps ''/d'' = [''d'']" "comps ''/d/a'' = [''d'', ''a'']" by code_simp+
    ultimately show ?thesis by auto
  qed
  moreover have "good_comp ''a''" by code_simp
  ultimately show ?thesis using demo_member by (auto simp: members_def demo_view)
qed

lemma distinct_singleton: "distinct xs \<Longrightarrow> set xs = {x} \<Longrightarrow> xs = [x]"
  by (cases xs rule: remdups_adj.cases) auto

text \<open>
  C32. A \<open>GET\<close> or \<open>HEAD\<close> of a collection is answered with an HTML page that has one link for each
  member of the collection, with the escaped href and name (and, for a file, its size), links a
  collection with a trailing slash, and links the parent except at the root; nothing changes.
\<close>

theorem index_lists:
  assumes "filesystem d fsinv view" and "h_fs h = d" and "authorise h [] r = None"
    and "resource (h_prefix h) (rq_path r) = Some name" and "rq_method r \<in> {''GET'', ''HEAD''}"
    and "fsinv (w_fs w)" and "\<not> w_mu w" and "view (w_fs w) name = Some DirNode"
  shows "wp (ServeHTTP h r) w (\<lambda>resp w'. indexed h r (view (w_fs w)) name resp \<and> unchanged fsinv view w w')"
proof -
  have "ServeHTTP h r = serveGet h (setDAV h []) r name"
    using assms(3-5) by (auto simp: ServeHTTP_def dispatch_def Let_def)
  then show ?thesis
    using filesystem.wp_get_index [OF assms(1,2) resource_SomeD(1) [OF assms(4)] assms(6-8)] by simp
qed

theorem index_lists_witness:
  \<open>wp (ServeHTTP (mem_handler False demo_std 5) (demo_request ''GET'' ''/d'' [] [])) (demo_world demo_mem)
     (\<lambda>resp w'. rs_body resp = Plain (index_page (mem_handler False demo_std 5) ''/d''
        (''<li><a href="/d/a">a</a> <small>5 bytes</small></li>'' @ [CHR 0x0A])) \<and> mem_view (w_fs w') = mem_view demo_mem)\<close>
proof -
  let ?h = "mem_handler False demo_std 5" and ?r = "demo_request ''GET'' ''/d'' [] []"
  have res: "resource [] ''/d'' = Some ''/d''" by code_simp
  have h: "h_prefix ?h = []" "h_fs ?h = mem_driver False" "authorise ?h [] ?r = None" "rq_path ?r = ''/d''"
    by (simp_all add: mem_handler_def base_handler_def authorise_def demo_request_def)
  have entry: \<open>index_entry ?h (mem_view demo_mem) ''/d'' ''a'' =
      ''<li><a href="/d/a">a</a> <small>5 bytes</small></li>'' @ [CHR 0x0A]\<close>
  proof -
    have "hrefOf ?h ''/d/a'' False = ''/d/a''" by (simp only: h(1)) code_simp
    moreover have "writeHTML ''/d/a'' = ''/d/a''" "writeHTML ''a'' = ''a''" "format_nat 5 = ''5''" by code_simp+
    ultimately show ?thesis by (simp add: index_entry_def demo_member demo_view)
  qed
  have \<open>rs_body resp = Plain (index_page ?h ''/d'' (''<li><a href="/d/a">a</a> <small>5 bytes</small></li>'' @ [CHR 0x0A]))\<close>
    if idx: "indexed ?h ?r (mem_view demo_mem) ''/d'' resp" for resp
  proof -
    obtain ns where ns: "distinct ns" "set ns = {''a''}"
      and b: "rs_body resp = sent ?r (index_page ?h ''/d'' (concat (map (index_entry ?h (mem_view demo_mem) ''/d'') ns)))"
      using idx unfolding indexed_def demo_members Let_def by (elim exE conjE) (rule that)
    show ?thesis unfolding b distinct_singleton [OF ns] by (simp add: entry sent_def demo_request_def)
  qed
  moreover have "wp (ServeHTTP ?h ?r) (demo_world demo_mem) (\<lambda>resp w'. indexed ?h ?r (mem_view demo_mem) ''/d'' resp \<and>
      unchanged mem_inv mem_view (demo_world demo_mem) w')"
    using index_lists [where d = "mem_driver False" and h = ?h and r = ?r and name = "''/d''" and w = "demo_world demo_mem",
        OF mem.filesystem_axioms [of False] h(2,3)] res h(1,4) demo_mem_inv demo_view by simp
  ultimately show ?thesis by (auto simp: wp_def)
qed

end
