(* ===== verification/Rendered.thy ===== *)
theory Rendered
  imports Listing
begin

text \<open>
  What the server writes about a resource is read back as it was meant: an href by the server itself, as the
  target of a \<open>MOVE\<close> or \<open>COPY\<close>, and a time by any client.
\<close>

section \<open>Links\<close>

lemma canonical_one_slash:
  assumes "canonical q"
  shows "\<not> has_prefix q ''//''"
proof
  assume "has_prefix q ''//''"
  then obtain t where t: "q = ''//'' @ t" by (auto simp: has_prefix_iff)
  then show False using assms by (auto simp: canonical_def comps_def good_comp_def split_on_append)
qed

lemma rooted_prefix:
  assumes "valid_prefix pfx" and "canonical p"
  shows "has_prefix (pfx @ p) ''/''" and "\<not> has_prefix (pfx @ p) ''//''"
proof -
  have p: "has_prefix p ''/''" using assms(2) by (simp add: canonical_def)
  show "has_prefix (pfx @ p) ''/''" "\<not> has_prefix (pfx @ p) ''//''"
  proof (atomize(full), cases "pfx = []")
    case True
    then show "has_prefix (pfx @ p) ''/'' \<and> \<not> has_prefix (pfx @ p) ''//''"
      using p canonical_one_slash [OF assms(2)] by simp
  next
    case False
    then have c: "canonical pfx" "pfx \<noteq> ''/''" using assms(1) by (auto simp: valid_prefix_def)
    then obtain y where "pfx = CHR ''/'' # y" "y \<noteq> []" by (auto simp: canonical_def has_prefix_iff)
    then obtain x t where "pfx = CHR ''/'' # x # t" by (cases y) auto
    then show "has_prefix (pfx @ p) ''/'' \<and> \<not> has_prefix (pfx @ p) ''//''"
      using canonical_one_slash [OF c(1)] by (simp add: has_prefix_def)
  qed
qed

lemma escape_path_slashes:
  "has_prefix q ''/'' \<Longrightarrow> \<not> has_prefix q ''//'' \<Longrightarrow>
     has_prefix (escape_path q @ t) ''/'' \<and> (has_prefix (escape_path q @ t) ''//'' \<longrightarrow> q = ''/'' \<and> t \<noteq> [])"
  by (cases q; cases "tl q") (auto simp: has_prefix_def escape_byte_def)

lemma href_shape:
  assumes "valid_prefix pfx" and "canonical p"
  shows "\<forall>c \<in> set (href pfx p coll). plain_byte c" and "has_prefix (href pfx p coll) ''/''"
    and "\<not> has_prefix (href pfx p coll) ''//''"
proof -
  define t where "t = (if coll \<and> \<not> has_suffix (pfx @ p) ''/'' then ''/'' else [])"
  have "pfx @ p \<noteq> ''*''" using rooted_prefix(1) [OF assms] by (auto simp: has_prefix_iff)
  then have s: "href pfx p coll = escape_path (pfx @ p) @ t"
    unfolding href_def escaped_path_def Let_def t_def using has_suffix_slash_escape_path [of "pfx @ p"]
    by (simp del: escape_path_append)
  have root: "t = []" if "pfx @ p = ''/''" unfolding t_def that by (simp add: has_suffix_def)
  have "plain_byte (CHR ''/'')" by (simp add: plain_byte_def)
  then show "\<forall>c \<in> set (href pfx p coll). plain_byte c"
    unfolding s using plain_escape_path [of "pfx @ p"] by (auto simp: t_def simp del: escape_path_append)
  show "has_prefix (href pfx p coll) ''/''" "\<not> has_prefix (href pfx p coll) ''//''"
    unfolding s using escape_path_slashes [OF rooted_prefix [OF assms], of t] root
    by (auto simp del: escape_path_append)
qed

text \<open>
  C33. Links can be followed: the href the server reports for a path, used as the \<open>Destination\<close> of a
  \<open>MOVE\<close> or \<open>COPY\<close>, names that path, as it is or behind a scheme and an authority whose host is the
  one the request was sent to.
\<close>

theorem destination_href:
  assumes "valid_prefix (h_prefix h)" and "canonical p" and "CHR 0x00 \<notin> set (h_prefix h @ p)" and "length p \<le> maxPath"
    and "rq_header r ''Destination'' = base @ hrefOf h p coll"
    and "base = [] \<or> (\<exists>scheme auth host. base = scheme @ ''://'' @ auth \<and> scheme \<in> {''http'', ''https''} \<and>
      (\<forall>c \<in> set auth. authority_byte c) \<and> std_authority (h_std h) auth = Some host \<and>
      (host = [] \<or> equal_fold host (rq_host r)))"
  shows "destination h r = Inr p"
proof -
  note s = href_shape [OF assms(1,2), of coll]
  obtain u where u: "unescape_path (href (h_prefix h) p coll) = Some u" "resource (h_prefix h) u = Some p"
    using resource_href [OF assms(1-4), of coll] by (auto split: bind_splits)
  have "\<exists>host. url_parse (std_authority (h_std h)) (rq_header r ''Destination'') = Some (host, u) \<and>
      (host = [] \<or> equal_fold host (rq_host r))"
    using assms(6)
  proof
    assume "base = []"
    then show ?thesis using parse_rooted [OF s] u(1) assms(5) by simp
  next
    assume "\<exists>scheme auth host. base = scheme @ ''://'' @ auth \<and> scheme \<in> {''http'', ''https''} \<and>
      (\<forall>c \<in> set auth. authority_byte c) \<and> std_authority (h_std h) auth = Some host \<and>
      (host = [] \<or> equal_fold host (rq_host r))"
    then obtain scheme auth host where b: "base = scheme @ ''://'' @ auth" "scheme = ''http'' \<or> scheme = ''https''"
      "\<forall>c \<in> set auth. authority_byte c" "std_authority (h_std h) auth = Some host" "host = [] \<or> equal_fold host (rq_host r)"
      by auto
    then show ?thesis using parse_absolute [OF s(1,2) b(3,2)] u(1) assms(5) by simp
  qed
  moreover have "rq_header r ''Destination'' \<noteq> []" using assms(5) s(2) by auto
  ultimately show ?thesis using u(2) by (auto simp: destination_def)
qed

theorem destination_href_witness:
  "destination (mem_handler False demo_std 5)
     (demo_request ''MOVE'' ''/d/a'' [(''Destination'', ''http://'' @ ''h'' @ href [] ''/b c'' True)] []) = Inr ''/b c''"
proof -
  let ?h = "mem_handler False demo_std 5"
    and ?r = "demo_request ''MOVE'' ''/d/a'' [(''Destination'', ''http://'' @ ''h'' @ href [] ''/b c'' True)] []"
  have "\<forall>c \<in> set ''h''. authority_byte c" "std_authority (h_std ?h) ''h'' = Some ''h''" "equal_fold ''h'' (rq_host ?r)"
    by (simp_all add: authority_byte_def is_ctl_def mem_handler_def base_handler_def demo_std_def demo_request_def equal_fold_refl)
  moreover have "rq_header ?r ''Destination'' = ''http://h'' @ hrefOf ?h ''/b c'' True"
    by (simp add: demo_request_def header_get_def mem_handler_def base_handler_def)
  moreover have "valid_prefix (h_prefix ?h)" "canonical ''/b c''" "CHR 0x00 \<notin> set (h_prefix ?h @ ''/b c'')" "length ''/b c'' \<le> maxPath"
    by (simp_all add: mem_handler_def base_handler_def valid_prefix_def canonical_def comps_def good_comp_def maxPath_def)
  ultimately show ?thesis
    using destination_href [of ?h "''/b c''" ?r "''http://h''" True] append.simps by (metis append.assoc append_Cons insertCI)
qed

section \<open>Times\<close>

definition plain_text :: "char \<Rightarrow> bool" where
  "plain_text c \<longleftrightarrow> 32 \<le> (of_char c :: nat) \<and> (of_char c :: nat) < 127 \<and> (of_char c :: nat) \<notin> {34, 39, 38, 60, 62}"

lemma plain_textValue: "list_all plain_text s \<Longrightarrow> textValue s = s"
proof (induction s)
  case (Cons c s)
  then have "\<forall>d \<in> set (c # s). (of_char d :: nat) < 128" by (auto simp: plain_text_def list_all_iff)
  then have "runes (c # s) = (Some (of_char c), [c]) # runes s" by (simp add: runes_ascii)
  moreover have "escape_rune (Some (of_char c), [c]) = [c]"
    using Cons.prems by (auto simp: escape_rune_def plain_text_def in_character_range_def)
  ultimately show ?case using Cons by (simp add: textValue_def)
qed (simp add: textValue_def)

lemma plain_marks [simp]:
  "plain_text (CHR '','')" "plain_text (CHR '' '')" "plain_text (CHR '':'')" "plain_text (CHR ''-'')" "plain_text (CHR ''0'')"
  "plain_text (CHR ''G'')" "plain_text (CHR ''M'')" "plain_text (CHR ''T'')" "plain_text (CHR ''Z'')"
  by (simp_all add: plain_text_def)

lemma plain_digit: "is_digit c \<Longrightarrow> plain_text c"
  by (auto simp: plain_text_def is_digit_def)

lemma plain_pad [simp]: "list_all plain_text (pad w x)"
  using format_nat_digits [of "nat \<bar>x\<bar>"] plain_digit by (auto simp: pad_def Let_def list_all_iff)

lemma plain_clock [simp]: "list_all plain_text (clock s)"
  by (simp add: clock_def)

lemma plain_names: "list_all (list_all plain_text) (weekdays @ months)"
  by (simp add: weekdays_def months_def plain_text_def)

lemma plain_http_time: "list_all plain_text (http_time t)"
proof -
  obtain y m d where c: "civil (unix_seconds t div 86400) = (y, m, d)" using prod_cases3 by blast
  let ?w = "weekdays ! nat ((unix_seconds t div 86400 + 4) mod 7)" and ?m = "months ! nat (m - 1)"
  have "nat (m - 1) < length months" using civil_inverse [OF c] by (simp add: months_def nat_less_iff)
  moreover have "nat ((unix_seconds t div 86400 + 4) mod 7) < length weekdays" by (simp add: weekdays_def nat_less_iff)
  ultimately have "list_all plain_text ?m" "list_all plain_text ?w"
    using plain_names nth_mem by (auto simp: list_all_iff)
  then show ?thesis by (simp add: http_time_def Let_def c)
qed

lemma plain_rfc3339: "list_all plain_text (rfc3339 t)"
  by (simp add: rfc3339_def Let_def split: prod.split)

text \<open>
  C34. Round trip of times: the \<open>getlastmodified\<close> (an HTTP-date) and the \<open>creationdate\<close> (RFC 3339) that
  \<open>PROPFIND\<close> reports for a resource whose driver knows its modification time are, read back by a
  client, exactly that time to the second, for every time of the years 1 to 9999.
\<close>

theorem reported_times:
  assumes "st_mtime st = Some t" and "four_digit_year t" and "i = infoFromStat h p st"
  shows "\<exists>v d. propValue h i (davNS, ''getlastmodified'') = (\<lambda>k. k (Some (prop_dav ''getlastmodified'' v))) \<and>
    propValue h i (davNS, ''creationdate'') = (\<lambda>k. k (Some (prop_dav ''creationdate'' d))) \<and>
    read_http_time v = Some t \<and> read_rfc3339 d = Some t"
proof -
  have t: "ri_modTime i = t * second" "t * second div 1000000000 = t"
    using assms(1,3) by (simp_all add: infoFromStat_def Let_def second_def)
  have "propValue h i (davNS, ''getlastmodified'') = (\<lambda>k. k (Some (prop_dav ''getlastmodified'' (http_time (t * second)))))"
    "propValue h i (davNS, ''creationdate'') = (\<lambda>k. k (Some (prop_dav ''creationdate'' (rfc3339 (t * second)))))"
    by (simp_all add: fun_eq_iff propValue_def t(1) plain_textValue plain_http_time plain_rfc3339)
  then show ?thesis
    using http_time_reads [of "t * second"] rfc3339_reads [of "t * second"] assms(2) t(2)
    by (intro exI [of _ "http_time (t * second)"] exI [of _ "rfc3339 (t * second)"]) simp
qed

theorem reported_times_witness:
  "\<exists>v d. propValue (mem_handler False demo_std 5)
      (infoFromStat (mem_handler False demo_std 5) ''/a'' \<lparr>st_mode = 0, st_size = 1, st_mtime = Some 951782400\<rparr>)
      (davNS, ''getlastmodified'') = (\<lambda>k. k (Some (prop_dav ''getlastmodified'' v))) \<and>
    read_http_time v = Some 951782400 \<and> read_rfc3339 d = Some 951782400"
  using reported_times [of "\<lparr>st_mode = 0, st_size = 1, st_mtime = Some 951782400\<rparr>" 951782400 _ "mem_handler False demo_std 5" "''/a''"]
  by (auto simp: four_digit_year_def)

text \<open>The 29th of February 2000, at midnight.\<close>

lemma http_time_example: "http_time (951782400 * second) = ''Tue, 29 Feb 2000 00:00:00 GMT''"
  by code_simp

end
