(* ===== verification/Spec2Isabelle.thy ===== *)
theory Spec2Isabelle
  imports Paths Status Headers LockTable LockSafety Http Program Driver Tree LockCalls WriteOps
    LockOps Propfind Get Server Safety Guarantees DriverLaws TreeLaws MemFs Isolation Concurrency Access Escaping
    Effects WriteSpecs PartialPut Listing LockSpecs
    Answers Recursion Progress Failures Bodies Credentials GoFlag GoTime GoUrl Demo DemoSpecs
    ServeContent Content Reading Index Rendered
begin

text \<open>
  A verification development for \<open>webdav\<close>, a WebDAV server (RFC 4918, class 1 and 2) written in Go:
  the package \<open>webdav\<close> (\<open>src/*.go\<close>) that exports a file system driver over HTTP, and the command of
  \<open>src/fat32demo\<close> that serves a disk image with it.

  \<^bold>\<open>The program.\<close> A \<open>Handler\<close> (\<open>server.go\<close>) holds a driver, its configuration, a lock table and one mutex
  \<open>fsmu\<close>. \<open>ServeHTTP\<close> authenticates a request, maps its path to a canonical path of the export
  (\<open>path.go\<close>) and dispatches to the method: \<open>GET\<close>/\<open>HEAD\<close> (\<open>get.go\<close>), \<open>PROPFIND\<close>/\<open>PROPPATCH\<close>
  (\<open>propfind.go\<close>, \<open>props.go\<close>), \<open>PUT\<close>, \<open>MKCOL\<close>, \<open>DELETE\<close>, \<open>MOVE\<close>, \<open>COPY\<close> (\<open>write.go\<close>), partial \<open>PUT\<close>
  (\<open>putrange.go\<close>), \<open>LOCK\<close>/\<open>UNLOCK\<close> (\<open>lock.go\<close>). The mutating methods first ask the lock table; the
  calls of the driver are made under \<open>fsmu\<close>, but for the \<open>Close\<close> that ends a \<open>GET\<close> on a driver that opens
  files; a driver's error becomes a status (\<open>status.go\<close>).

  \<^bold>\<open>How it is modelled.\<close> Requests run at the same time, so a handler is not a function of the state but
  a program (\<open>proc\<close> of theory \<open>Program\<close>): a tree of atomic actions that take or release \<open>fsmu\<close>, run
  calls of the driver, run one method of the lock table, ask the capacity callback, answer, or
  (\<open>Diverge\<close>) never do. \<open>run_proc\<close> runs one request alone; \<open>pool_step\<close> interleaves any number of them,
  with new arrivals and the clock. The state is a \<open>world\<close>: the driver's own state (a type parameter),
  the lock table with the clock and the random source, and whether \<open>fsmu\<close> is held. Within an atomic
  action code is in the state monad. Go errors are values (\<open>go_error\<close>: the text and the sentinels
  \<open>errors.Is\<close> finds), a call that may fail returns a sum, or \<open>Some\<close> error where there is no other
  result; \<open>int64\<close> durations wrap (\<open>int64\<close> of \<open>Prelude\<close>), file modes are \<open>16 word\<close>, sizes and
  capacities \<open>64 word\<close>; strings are byte strings. Every definition of code is executable.
\<close>

text \<open>
  \<^bold>\<open>Theories and the code they model.\<close>
  \<^item> The standard library as the code uses it: \<open>Prelude\<close>, \<open>GoStrings\<close> (\<open>strings\<close>), \<open>GoText\<close> (case folding,
    \<open>TrimSpace\<close>, numbers), \<open>GoUrl\<close> (escaping of paths, \<open>url.Parse\<close>), \<open>GoTime\<close> (\<open>Time.Format\<close> for HTTP-dates and RFC 3339),
    \<open>Http\<close> (headers, \<open>http.Error\<close>, UTF-8, XML escaping), \<open>ServeContent\<close> (\<open>http.ServeContent\<close>: conditional
    requests, ranges, \<open>multipart/byteranges\<close>, the copy loop), \<open>Credentials\<close> (\<open>Request.BasicAuth\<close>, base64,
    \<open>net.ParseIP\<close>), \<open>GoFlag\<close> (\<open>flag.FlagSet\<close>).
  \<^item> \<open>Paths\<close>: \<open>path.go\<close> (\<open>cleanPath\<close>, \<open>parentOf\<close>, \<open>join\<close>, \<open>under\<close>, \<open>strictlyUnder\<close>, \<open>resource\<close>, \<open>href\<close>).
    \<open>Status\<close>: \<open>status.go\<close>. \<open>Headers\<close>: \<open>Depth\<close>, \<open>Overwrite\<close>, \<open>Timeout\<close>, \<open>If\<close>, \<open>Content-Range\<close>.
  \<^item> \<open>LockTable\<close>: \<open>lockSystem\<close> of \<open>lock.go\<close>, its two maps over a heap of \<open>lockInfo\<close> objects they share, and
    its methods. \<open>LockCalls\<close>, \<open>LockOps\<close>: \<open>checkLocks\<close>, \<open>parseLock\<close>, \<open>serveLock\<close>, \<open>serveUnlock\<close>, \<open>discoveryXML\<close>.
  \<^item> \<open>Driver\<close>: the interface of a driver and of its open files as records of functions, the fields of
    \<open>Handler\<close>, \<open>info\<close> of \<open>props.go\<close>. \<open>Tree\<close>: \<open>removeTree\<close>, \<open>copyTree\<close>, \<open>copyFile\<close>. \<open>WriteOps\<close>: the handlers of
    \<open>write.go\<close> and \<open>putrange.go\<close>. \<open>Propfind\<close>: \<open>propfind.go\<close>. \<open>Get\<close>: \<open>get.go\<close>. \<open>Server\<close>: \<open>server.go\<close>.
  \<^item> \<open>Demo\<close>: \<open>fat32demo/main.go\<close> and \<open>fat32demo/demo/demo.go\<close>.

  \<^bold>\<open>Theories of properties.\<close>
  \<^item> \<open>LockSafety\<close>: the table refines a map from paths to locks (\<open>held\<close>, restricted to those not expired by
    \<open>live\<close>); its invariant \<open>ls_inv\<close> (the maps agree, locks exclude each other, the bound holds) is kept by
    every method, over \<open>ls_step\<close> runs.
  \<^item> \<open>Safety\<close>, \<open>Isolation\<close>, \<open>Guarantees\<close>: what holds of every interleaving with every driver: the driver
    is given canonical paths only, a read-only export is never written, the table stays consistent.
    \<open>Concurrency\<close>: \<open>fsmu\<close> serialises the driver (up to that \<open>Close\<close>, \<open>late_close\<close>), the server never
    blocks itself; and the two races the critical sections leave open, on an executable scheduler.
    \<open>Recursion\<close>, \<open>Progress\<close>: when no more requests arrive, every scheduler brings all of them to their
    answers; where \<open>DELETE\<close>, \<open>MOVE\<close> or \<open>COPY\<close> arrive, on a driver whose directories do not nest without end. \<open>Access\<close>: statuses, authentication, the
    method table, enforcement of locks. \<open>Escaping\<close>: HTML, XML and quoted strings are read back.
    \<open>Rendered\<close>: so are the hrefs, as the destination of a \<open>MOVE\<close>, and the times of a resource.
  \<^item> \<open>DriverLaws\<close>, \<open>TreeLaws\<close>: drivers that obey their documentation, and the tree walks on them.
    \<open>MemFs\<close>: the in-memory driver of the tests (\<open>memfs_test.go\<close>), which obeys the laws. \<open>Effects\<close>: \<open>wp\<close>, the
    rules by which a request that runs alone is followed to its answer. \<open>WriteSpecs\<close>, \<open>PartialPut\<close>,
    \<open>Listing\<close>, \<open>Reading\<close>, \<open>Index\<close>, \<open>LockSpecs\<close>, \<open>Bodies\<close>: each method against an abstract specification on a tree (a
    map from paths to files and directories) and on the live locks: \<open>put_spec\<close>, \<open>mkcol_spec\<close>,
    \<open>delete_spec\<close>, \<open>move_spec\<close>, \<open>copy_spec\<close>, \<open>range_spec\<close>, \<open>listing\<close>, \<open>got\<close>, \<open>delivers\<close>, \<open>indexed\<close>,
    \<open>lock_spec\<close>, \<open>refresh_spec\<close>, \<open>unlock_spec\<close>, \<open>propfind_document\<close>. \<open>Content\<close>: what \<open>ServeContent\<close> answers as
    a function of the bytes of a file (\<open>content_answer\<close>), however large the pieces it reads. \<open>Answers\<close>: termination. \<open>Failures\<close>: a \<open>DELETE\<close> that fails half-way.
    \<open>DemoSpecs\<close>: the command.
\<close>

text \<open>
  \<^bold>\<open>Interfaces.\<close> Each is a locale, proved about once and interpreted on the model: \<open>normaliser\<close> and
  \<open>hierarchy\<close> (cleaning a path and the prefix order of clean paths, \<open>clean\<close> and \<open>tree\<close>), \<open>lock_store\<close> and
  \<open>lock_user\<close> (what the handlers rely on in the lock table, \<open>lk\<close> and \<open>locks\<close>), \<open>reader\<close>, \<open>writer\<close>,
  \<open>read_session\<close> and \<open>session\<close> (an invariant of the driver and one of the lock table that every
  call keeps, \<open>mem_server\<close>), \<open>filesystem\<close> (the laws of a driver as a tree, \<open>mem\<close>), \<open>precise\<close> (and its calls on what does not exist
  fail and change nothing, \<open>mem_precise\<close>), \<open>positional\<close> (open
  files written in place, \<open>mem_files\<close>), \<open>readable\<close> (and read, with \<open>EOF\<close> at the end only, \<open>mem_reads\<close>). The laws of \<open>filesystem\<close> say
  nothing of a call that makes no sense (reading a directory, removing what is absent), so a driver
  may answer those as it likes (those of \<open>precise\<close> are needed where the code reads or moves what it has
  just removed); theorems over every driver, faulty ones included, use \<open>session\<close> with
  any invariant, or no law at all.

  \<^bold>\<open>Bounds and fuel.\<close> The recursion of \<open>removeTree\<close> and \<open>copyTree\<close> goes over a tree of the driver, which
  the code leaves to the stack; the model bounds its depth by \<open>h_fuel\<close>. \<open>fits\<close> says that a tree is less
  deep than that; with it the walks are proved to finish (\<open>removeTree_correct\<close>, \<open>copyTree_correct\<close>) and
  every request to be answered (\<open>every_request_is_answered\<close>); \<open>shallow\<close> says that the driver reports no
  directory as deep as that, in any state, and does without the laws. All other loops end by structure or by a
  measure. \<open>parseTimeout_bounds\<close> names the seconds up to which the product does not wrap.

  \<^bold>\<open>Parameters.\<close> What the code does not determine is an argument: the driver, the capacity callback, the
  credential verifiers, the clock and the random source (a function of the draw), and the fields of
  \<open>std\<close>: SHA-256, the media types of the operating system, the host in the authority of a URL, the
  tokens of \<open>encoding/xml\<close> and how it writes them back, and of \<open>http.ServeContent\<close> the reading of dates, the
  sniffing of a type, the size of the copy buffer and the boundary between parts; for the command, the
  operating system and the accept loop (\<open>host\<close>).

  \<^bold>\<open>Not modelled.\<close> The inside of those parameters; \<open>net/http\<close> below the handler (parsing of requests,
  connections, deadlines); the data races a \<open>File\<close> closed outside \<open>fsmu\<close> may have inside a driver (that it
  is closed there is proved, \<open>get_closes_outside_mutex\<close>); in \<open>ServeContent\<close>, the wrap-around of sums of
  sizes near \<open>2^63\<close> and the loop on a reader that returns neither bytes nor an error (there the copy
  ends); \<open>doc.go\<close> holds a comment and no code; the
  tests, of which only the in-memory driver is used.

  \<^bold>\<open>What modelling showed.\<close> A destination above its source loses the data
  (\<open>overwriting_an_ancestor_loses_the_source\<close>); a \<open>Not\<close> in front of an entity tag of \<open>If\<close> drops the token
  behind it (\<open>submittedTokens_conditions\<close>); a refused \<open>LOCK\<close> leaves a new file (\<open>lock_locks\<close>); a lock
  granted between the check and the write of a \<open>PUT\<close> does not stop it (\<open>put_races_lock\<close>); locks inside a
  tree do not protect it from a \<open>DELETE\<close> of the tree (\<open>delete_removes\<close>).
\<close>

end
